(* ===== verification/Prelude.thy ===== *)
theory Prelude
  imports Main "HOL-Library.Word"
begin

text \<open>
  Shared vocabulary of the development: Go's machine types, the results a Go call can have
  (a returned value, a panic, a goroutine that cannot proceed), the errors the program returns,
  the big-endian byte order of \<^verbatim>\<open>encoding/binary\<close>, and Go strings as bytes.
  Every other theory builds on these names.
\<close>

section \<open>Machine types\<close>

type_synonym byte = "8 word"
type_synonym uint16 = "16 word"
type_synonym uint32 = "32 word"
type_synonym uint64 = "64 word"
type_synonym int32 = "32 word"
type_synonym int64 = "64 word"

text \<open>
  Facts that the component theories hand to the simplifier as groups: the constants of the
  program (\<open>const_defs\<close>) and the elimination of result binds (\<open>res_iff\<close>).
\<close>

named_theorems const_defs
named_theorems res_iff

section \<open>Errors, panics and results\<close>

text \<open>
  One constructor per error the program builds itself; \<open>ErrExternal\<close> is an error value that
  third-party code handed to it (a transport, the protobuf runtime).
\<close>

datatype go_error =
    ErrShortBuffer
  | ErrUnknownUri uint16
  | ErrNotRayUri uint16
  | ErrDataTooShort nat
  | ErrArgNum
  | ErrChanFull
  | ErrChanEmpty
  | ErrTaskNotFound
  | ErrNoRawConn
  | ErrNotEstablished
  | ErrNoTransport
  | ErrNoNetConn
  | ErrFrameTooLarge
  | ErrEstablishRejected string
  | ErrHandlerPanic
  | ErrNoGcsConn
  | ErrContextDone
  | ErrExternal string

datatype go_panic = NilDeref | IndexOutOfRange | TypeAssertion | PanicCall

text \<open>
  \<open>PanicCall\<close> is a call of \<^verbatim>\<open>panic\<close> in the program; the others are panics of the language.
  \<open>Ok a s\<close>: the call returned \<open>a\<close> and left the state \<open>s\<close>. \<open>Panic p s\<close>: it panicked
  after having changed the state to \<open>s\<close>. \<open>Block s\<close>: it waits on a channel that nothing can
  serve in the state \<open>s\<close>.
\<close>

datatype ('a, 's) res = Ok 'a 's | Panic go_panic 's | Block 's

fun bind_res :: "('a, 's) res \<Rightarrow> ('a \<Rightarrow> 's \<Rightarrow> ('b, 's) res) \<Rightarrow> ('b, 's) res" where
  "bind_res (Ok a s) f = f a s"
| "bind_res (Panic p s) f = Panic p s"
| "bind_res (Block s) f = Block s"

fun res_state :: "('a, 's) res \<Rightarrow> 's" where
  "res_state (Ok a s) = s"
| "res_state (Panic p s) = s"
| "res_state (Block s) = s"

fun map_state :: "('t \<Rightarrow> 's) \<Rightarrow> ('a, 't) res \<Rightarrow> ('a, 's) res" where
  "map_state f (Ok a t) = Ok a (f t)"
| "map_state f (Panic p t) = Panic p (f t)"
| "map_state f (Block t) = Block (f t)"

lemma bind_res_Ok_iff [res_iff]:
  "bind_res m f = Ok b t \<longleftrightarrow> (\<exists>a s. m = Ok a s \<and> f a s = Ok b t)"
  by (cases m) auto

lemma bind_res_Panic_iff [res_iff]:
  "bind_res m f = Panic p t \<longleftrightarrow> m = Panic p t \<or> (\<exists>a s. m = Ok a s \<and> f a s = Panic p t)"
  by (cases m) auto

lemma bind_res_Block_iff [res_iff]:
  "bind_res m f = Block t \<longleftrightarrow> m = Block t \<or> (\<exists>a s. m = Ok a s \<and> f a s = Block t)"
  by (cases m) auto

text \<open>An invariant of the state survives a sequence when both halves keep it.\<close>

lemma res_state_bind:
  assumes "P (res_state m)"
    and "\<And>a s. m = Ok a s \<Longrightarrow> P (res_state (f a s))"
  shows "P (res_state (bind_res m f))"
  using assms by (cases m) auto

section \<open>Big-endian integers (\<^verbatim>\<open>encoding/binary\<close>)\<close>

definition PutUint16 :: "uint16 \<Rightarrow> byte list" where
  "PutUint16 v = [ucast (drop_bit 8 v), ucast v]"

definition PutUint32 :: "uint32 \<Rightarrow> byte list" where
  "PutUint32 v = [ucast (drop_bit 24 v), ucast (drop_bit 16 v), ucast (drop_bit 8 v), ucast v]"

definition PutUint64 :: "uint64 \<Rightarrow> byte list" where
  "PutUint64 v = [ucast (drop_bit 56 v), ucast (drop_bit 48 v), ucast (drop_bit 40 v),
     ucast (drop_bit 32 v), ucast (drop_bit 24 v), ucast (drop_bit 16 v),
     ucast (drop_bit 8 v), ucast v]"

definition be_word :: "byte list \<Rightarrow> 'a::len word" where
  "be_word bs = foldl (\<lambda>acc b. or (push_bit 8 acc) (ucast b)) 0 bs"

text \<open>The readers use the first two, four or eight bytes; every caller has checked the length.\<close>

definition Uint16 :: "byte list \<Rightarrow> uint16" where
  "Uint16 bs = be_word (take 2 bs)"

definition Uint32 :: "byte list \<Rightarrow> uint32" where
  "Uint32 bs = be_word (take 4 bs)"

definition Uint64 :: "byte list \<Rightarrow> uint64" where
  "Uint64 bs = be_word (take 8 bs)"

lemma length_PutUint [simp]:
  "length (PutUint16 a) = 2" "length (PutUint32 b) = 4" "length (PutUint64 c) = 8"
  by (simp_all add: PutUint16_def PutUint32_def PutUint64_def)

text \<open>
  All three writers are the same big-endian expansion \<open>be_bytes\<close>, and \<open>be_word\<close> is its
  inverse in both directions.
\<close>

definition be_bytes :: "nat \<Rightarrow> 'a::len word \<Rightarrow> byte list" where
  "be_bytes k v = map (\<lambda>i. ucast (drop_bit (8 * i) v)) (rev [0..<k])"

lemma PutUint_be_bytes:
  "PutUint16 a = be_bytes 2 a" "PutUint32 b = be_bytes 4 b" "PutUint64 c = be_bytes 8 c"
  by (simp_all add: PutUint16_def PutUint32_def PutUint64_def be_bytes_def numeral_eq_Suc)

lemma be_word_snoc:
  "be_word (bs @ [b]) = or (push_bit 8 (be_word bs :: 'a::len word)) (ucast b)"
  by (simp add: be_word_def)

lemma bit_be_word:
  "bit (be_word bs :: 'a::len word) n \<longleftrightarrow>
     n < LENGTH('a) \<and> n div 8 < length bs \<and> bit (rev bs ! (n div 8)) (n mod 8)"
proof (induction bs arbitrary: n rule: rev_induct)
  case Nil
  then show ?case by (simp add: be_word_def)
next
  case (snoc b bs)
  show ?case
  proof (cases "n < 8")
    case True
    then show ?thesis
      by (auto simp: be_word_snoc bit_simps)
  next
    case False
    then obtain m where m: "n = m + 8"
      by (metis add.commute le_Suc_ex not_less)
    have "\<not> bit b (m + 8)"
      by (rule notI) (drule bit_imp_le_length, simp)
    moreover have "(m + 8) div 8 = Suc (m div 8)" "(m + 8) mod 8 = m mod 8" by simp_all
    ultimately show ?thesis
      by (auto simp: m be_word_snoc bit_simps snoc.IH)
  qed
qed

lemma be_word_be_bytes:
  assumes "LENGTH('a) \<le> 8 * k"
  shows "be_word (be_bytes k (v :: 'a::len word)) = v"
proof (rule bit_word_eqI)
  fix n
  assume n: "n < LENGTH('a)"
  with assms have k: "n div 8 < k" by linarith
  have r: "rev (be_bytes k v) = map (\<lambda>i. ucast (drop_bit (8 * i) v)) [0..<k]"
    by (simp add: be_bytes_def rev_map)
  show "bit (be_word (be_bytes k v) :: 'a word) n = bit v n"
    using n k by (simp add: bit_be_word r) (simp add: be_bytes_def bit_simps)
qed

lemma be_bytes_be_word:
  assumes "LENGTH('a) = 8 * length bs"
  shows "be_bytes (length bs) (be_word bs :: 'a::len word) = bs"
proof (rule nth_equalityI)
  show "length (be_bytes (length bs) (be_word bs :: 'a word)) = length bs"
    by (simp add: be_bytes_def)
next
  fix i
  assume "i < length (be_bytes (length bs) (be_word bs :: 'a word))"
  then have i: "i < length bs" by (simp add: be_bytes_def)
  define j where "j = length bs - Suc i"
  have j: "j < length bs" and ij: "rev bs ! j = bs ! i"
    using i by (simp_all add: j_def rev_nth)
  have "be_bytes (length bs) (be_word bs :: 'a word) ! i =
      ucast (drop_bit (8 * j) (be_word bs :: 'a word))"
    using i j by (simp add: be_bytes_def rev_map [symmetric] rev_nth flip: j_def)
  also have "\<dots> = bs ! i"
  proof (rule bit_word_eqI)
    fix n :: nat
    assume n: "n < LENGTH(8)"
    have "(8 * j + n) div 8 = j" "(8 * j + n) mod 8 = n" using n by simp_all
    moreover have "8 * j + n < LENGTH('a)" using n j assms by simp
    ultimately show "bit (ucast (drop_bit (8 * j) (be_word bs :: 'a word)) :: byte) n = bit (bs ! i) n"
      using n j ij by (simp add: bit_simps bit_be_word)
  qed
  finally show "be_bytes (length bs) (be_word bs :: 'a word) ! i = bs ! i" .
qed

lemma Uint_PutUint [simp]:
  "Uint16 (PutUint16 a @ rest) = a" "Uint16 (PutUint16 a) = a"
  "Uint32 (PutUint32 b @ rest) = b" "Uint32 (PutUint32 b) = b"
  "Uint64 (PutUint64 c @ rest) = c" "Uint64 (PutUint64 c) = c"
  by (simp_all add: Uint16_def Uint32_def Uint64_def)
    (simp_all add: PutUint_be_bytes be_word_be_bytes)

lemma PutUint64_Uint64: "length bs = 8 \<Longrightarrow> PutUint64 (Uint64 bs) = bs"
  using be_bytes_be_word [where 'a = 64, of bs] by (simp add: Uint64_def PutUint_be_bytes)

lemma Uint64_append [simp]: "8 \<le> length bs \<Longrightarrow> Uint64 (bs @ x) = Uint64 bs"
  by (simp add: Uint64_def)

lemma Uint32_append [simp]: "4 \<le> length bs \<Longrightarrow> Uint32 (bs @ x) = Uint32 bs"
  by (simp add: Uint32_def)

lemma map_of_inj_snd:
  "distinct (map snd t) \<Longrightarrow> map_of t u = Some k \<Longrightarrow> map_of t v = Some k \<Longrightarrow> u = v"
  by (metis distinct_map inj_onD map_of_SomeD prod.inject snd_conv)

section \<open>Go strings\<close>

text \<open>
  A Go string is a sequence of bytes, and \<open>string\<close> is a list of 8-bit characters, so the
  conversions \<^verbatim>\<open>string(data)\<close> and \<^verbatim>\<open>[]byte(s)\<close> read each byte as a character and back.
\<close>

definition string_of_bytes :: "byte list \<Rightarrow> string" where
  "string_of_bytes bs = map (\<lambda>b. char_of (unat b)) bs"

definition bytes_of_string :: "string \<Rightarrow> byte list" where
  "bytes_of_string s = map (\<lambda>c. word_of_nat (of_char c)) s"

lemma string_bytes_string [simp]: "string_of_bytes (bytes_of_string s) = s"
proof -
  have "char_of (unat (word_of_nat (of_char c) :: byte)) = c" for c :: char
    by (simp add: unsigned_of_nat take_bit_eq_mod)
  then show ?thesis by (simp add: string_of_bytes_def bytes_of_string_def comp_def)
qed

lemma bytes_string_bytes [simp]: "bytes_of_string (string_of_bytes bs) = bs"
proof -
  have "(of_char (char_of (unat b) :: char) :: nat) = unat b" for b :: byte
    using unsigned_less [of b, where ?'a = nat] by simp
  then show ?thesis by (simp add: string_of_bytes_def bytes_of_string_def comp_def map_idI)
qed

end
