(* ===== verification/Messages.thy ===== *)
theory Messages
  imports Prelude
begin

text \<open>
  The wire messages of \<^verbatim>\<open>proto/meta.proto\<close> and \<^verbatim>\<open>proto/ray.proto\<close>, as the generated
  structs of \<^verbatim>\<open>proto/meta.pb.go\<close> and \<^verbatim>\<open>proto/ray.pb.go\<close> hold them (their exported fields;
  the runtime's bookkeeping fields \<^verbatim>\<open>state\<close>, \<^verbatim>\<open>unknownFields\<close> and \<^verbatim>\<open>sizeCache\<close> are
  not read by the program). \<open>pb_msg\<close> is the interface \<^verbatim>\<open>proto.Message\<close>: a pointer to one
  of them, and a Go type assertion \<^verbatim>\<open>v, _ := payload.(*pb.T)\<close> is \<open>as_T payload\<close>, with
  \<open>None\<close> for the nil pointer of a failed assertion.
\<close>

record EstablishReq =
  EstablishReq_Addr :: string
  EstablishReq_Mode :: int32

record EstablishResponse =
  EstablishResponse_Mode :: int32
  EstablishResponse_Err :: string

record DriverSubmitTaskRequest =
  DriverSubmitTaskRequest_TaskId :: string
  DriverSubmitTaskRequest_FuncName :: string
  DriverSubmitTaskRequest_Args :: "byte list list"
  DriverSubmitTaskRequest_Dependencies :: "string list"

record SchedulerSubmitTaskResponse =
  SchedulerSubmitTaskResponse_Success :: bool
  SchedulerSubmitTaskResponse_TaskId :: string

record RegisterTaskToGCSRequest =
  RegisterTaskToGCSRequest_TaskId :: string
  RegisterTaskToGCSRequest_Status :: string
  RegisterTaskToGCSRequest_Dependencies :: "string list"

record FetchTaskRequest =
  FetchTaskRequest_WorkerId :: string

record FetchTaskResponse =
  FetchTaskResponse_TaskId :: string
  FetchTaskResponse_FuncName :: string
  FetchTaskResponse_Args :: "byte list list"
  FetchTaskResponse_HasTask :: bool

record AssignTaskRequest =
  AssignTaskRequest_TaskId :: string
  AssignTaskRequest_FuncName :: string
  AssignTaskRequest_Args :: "byte list list"
  AssignTaskRequest_Dependencies :: "string list"
  AssignTaskRequest_ArgsType :: "string list"

record AssignTaskResponse =
  AssignTaskResponse_Accepted :: bool
  AssignTaskResponse_WorkerId :: string
  AssignTaskResponse_TaskId :: string

record GetObjectLocationRequest =
  GetObjectLocationRequest_ObjectId :: string
  GetObjectLocationRequest_Uuid :: string

record GetObjectLocationResponse =
  GetObjectLocationResponse_NodeAddr :: string
  GetObjectLocationResponse_Uuid :: string

record GetObjectDataRequest =
  GetObjectDataRequest_ObjectId :: string
  GetObjectDataRequest_RequesterId :: string
  GetObjectDataRequest_Uuid :: string

record GetObjectDataResponse =
  GetObjectDataResponse_Found :: bool
  GetObjectDataResponse_Data :: "byte list"
  GetObjectDataResponse_Error :: string
  GetObjectDataResponse_Uuid :: string

record ReportTaskResultRequest =
  ReportTaskResultRequest_TaskId :: string
  ReportTaskResultRequest_Status :: string
  ReportTaskResultRequest_ObjectId :: string
  ReportTaskResultRequest_ResultData :: "byte list"

record GetTaskResultRequest =
  GetTaskResultRequest_TaskId :: string

record GetTaskResultResponse =
  GetTaskResultResponse_Status :: string
  GetTaskResultResponse_Result :: "byte list"

datatype pb_msg =
    MEstablishReq EstablishReq
  | MEstablishResponse EstablishResponse
  | MShakeHandReq
  | MShakeHandResp
  | MDriverSubmitTaskRequest DriverSubmitTaskRequest
  | MSchedulerSubmitTaskResponse SchedulerSubmitTaskResponse
  | MRegisterTaskToGCSRequest RegisterTaskToGCSRequest
  | MRegisterTaskToGCSResponse
  | MFetchTaskRequest FetchTaskRequest
  | MFetchTaskResponse FetchTaskResponse
  | MAssignTaskRequest AssignTaskRequest
  | MAssignTaskResponse AssignTaskResponse
  | MGetObjectLocationRequest GetObjectLocationRequest
  | MGetObjectLocationResponse GetObjectLocationResponse
  | MGetObjectDataRequest GetObjectDataRequest
  | MGetObjectDataResponse GetObjectDataResponse
  | MReportTaskResultRequest ReportTaskResultRequest
  | MReportTaskResultResponse
  | MGetTaskResultRequest GetTaskResultRequest
  | MGetTaskResultResponse GetTaskResultResponse

text \<open>The message types themselves: what \<^verbatim>\<open>new(pb.T)\<close> chooses before an unmarshal.\<close>

datatype pb_kind =
    KEstablishReq | KEstablishResponse | KShakeHandReq | KShakeHandResp
  | KDriverSubmitTaskRequest | KSchedulerSubmitTaskResponse
  | KRegisterTaskToGCSRequest | KRegisterTaskToGCSResponse
  | KFetchTaskRequest | KFetchTaskResponse
  | KAssignTaskRequest | KAssignTaskResponse
  | KGetObjectLocationRequest | KGetObjectLocationResponse
  | KGetObjectDataRequest | KGetObjectDataResponse
  | KReportTaskResultRequest | KReportTaskResultResponse
  | KGetTaskResultRequest | KGetTaskResultResponse

fun kind_of :: "pb_msg \<Rightarrow> pb_kind" where
  "kind_of (MEstablishReq _) = KEstablishReq"
| "kind_of (MEstablishResponse _) = KEstablishResponse"
| "kind_of MShakeHandReq = KShakeHandReq"
| "kind_of MShakeHandResp = KShakeHandResp"
| "kind_of (MDriverSubmitTaskRequest _) = KDriverSubmitTaskRequest"
| "kind_of (MSchedulerSubmitTaskResponse _) = KSchedulerSubmitTaskResponse"
| "kind_of (MRegisterTaskToGCSRequest _) = KRegisterTaskToGCSRequest"
| "kind_of MRegisterTaskToGCSResponse = KRegisterTaskToGCSResponse"
| "kind_of (MFetchTaskRequest _) = KFetchTaskRequest"
| "kind_of (MFetchTaskResponse _) = KFetchTaskResponse"
| "kind_of (MAssignTaskRequest _) = KAssignTaskRequest"
| "kind_of (MAssignTaskResponse _) = KAssignTaskResponse"
| "kind_of (MGetObjectLocationRequest _) = KGetObjectLocationRequest"
| "kind_of (MGetObjectLocationResponse _) = KGetObjectLocationResponse"
| "kind_of (MGetObjectDataRequest _) = KGetObjectDataRequest"
| "kind_of (MGetObjectDataResponse _) = KGetObjectDataResponse"
| "kind_of (MReportTaskResultRequest _) = KReportTaskResultRequest"
| "kind_of MReportTaskResultResponse = KReportTaskResultResponse"
| "kind_of (MGetTaskResultRequest _) = KGetTaskResultRequest"
| "kind_of (MGetTaskResultResponse _) = KGetTaskResultResponse"

text \<open>The type assertions the handlers make.\<close>

fun as_EstablishReq :: "pb_msg \<Rightarrow> EstablishReq option" where
  "as_EstablishReq (MEstablishReq r) = Some r"
| "as_EstablishReq _ = None"

fun as_EstablishResponse :: "pb_msg \<Rightarrow> EstablishResponse option" where
  "as_EstablishResponse (MEstablishResponse r) = Some r"
| "as_EstablishResponse _ = None"

fun as_SchedulerSubmitTaskResponse :: "pb_msg \<Rightarrow> SchedulerSubmitTaskResponse option" where
  "as_SchedulerSubmitTaskResponse (MSchedulerSubmitTaskResponse r) = Some r"
| "as_SchedulerSubmitTaskResponse _ = None"

fun as_AssignTaskRequest :: "pb_msg \<Rightarrow> AssignTaskRequest option" where
  "as_AssignTaskRequest (MAssignTaskRequest r) = Some r"
| "as_AssignTaskRequest _ = None"

fun as_AssignTaskResponse :: "pb_msg \<Rightarrow> AssignTaskResponse option" where
  "as_AssignTaskResponse (MAssignTaskResponse r) = Some r"
| "as_AssignTaskResponse _ = None"

fun as_GetObjectLocationResponse :: "pb_msg \<Rightarrow> GetObjectLocationResponse option" where
  "as_GetObjectLocationResponse (MGetObjectLocationResponse r) = Some r"
| "as_GetObjectLocationResponse _ = None"

fun as_GetObjectDataRequest :: "pb_msg \<Rightarrow> GetObjectDataRequest option" where
  "as_GetObjectDataRequest (MGetObjectDataRequest r) = Some r"
| "as_GetObjectDataRequest _ = None"

fun as_GetObjectDataResponse :: "pb_msg \<Rightarrow> GetObjectDataResponse option" where
  "as_GetObjectDataResponse (MGetObjectDataResponse r) = Some r"
| "as_GetObjectDataResponse _ = None"

fun as_ReportTaskResultRequest :: "pb_msg \<Rightarrow> ReportTaskResultRequest option" where
  "as_ReportTaskResultRequest (MReportTaskResultRequest r) = Some r"
| "as_ReportTaskResultRequest _ = None"

text \<open>An assertion succeeds exactly on the messages of its own type.\<close>

lemma as_Some_kind:
  "(as_EstablishReq m \<noteq> None) = (kind_of m = KEstablishReq)"
  "(as_EstablishResponse m \<noteq> None) = (kind_of m = KEstablishResponse)"
  "(as_SchedulerSubmitTaskResponse m \<noteq> None) = (kind_of m = KSchedulerSubmitTaskResponse)"
  "(as_AssignTaskRequest m \<noteq> None) = (kind_of m = KAssignTaskRequest)"
  "(as_AssignTaskResponse m \<noteq> None) = (kind_of m = KAssignTaskResponse)"
  "(as_GetObjectLocationResponse m \<noteq> None) = (kind_of m = KGetObjectLocationResponse)"
  "(as_GetObjectDataRequest m \<noteq> None) = (kind_of m = KGetObjectDataRequest)"
  "(as_GetObjectDataResponse m \<noteq> None) = (kind_of m = KGetObjectDataResponse)"
  "(as_ReportTaskResultRequest m \<noteq> None) = (kind_of m = KReportTaskResultRequest)"
  by (cases m; simp)+

end
