(* ===== verification/External.thy ===== *)
theory External
  imports Messages
begin

text \<open>
  The third-party code the program calls, as parameters of the model, with what the program
  relies on as named hypotheses:
  \<^item> \<open>gnet_ops\<close>: the reading side of a \<^verbatim>\<open>gnet.Conn\<close> (\<^verbatim>\<open>InboundBuffered\<close>,
    \<^verbatim>\<open>Peek\<close>, \<^verbatim>\<open>Next\<close>) over an arbitrary type of connections; \<open>gnet_conn_ok\<close> is their
    documented meaning, relative to the bytes \<open>content\<close> that are buffered and not yet consumed;
  \<^item> \<open>pb_Marshal\<close>, \<open>pb_Unmarshal\<close>: the protobuf runtime; \<open>pb_roundtrips\<close> and
    \<open>pb_typed\<close> are what a message satisfies that the runtime can carry;
  \<^item> \<open>AsyncWriteErr\<close>: the error that a call of a \<^verbatim>\<open>gnet.Conn\<close>'s \<^verbatim>\<open>AsyncWrite\<close>
    returns; \<open>NetWriteRes\<close>: what a call of a \<^verbatim>\<open>net.Conn\<close>'s \<^verbatim>\<open>Write\<close> returns. Both are
    indexed by the number of calls made before, so two calls with the same arguments may differ.
  The connections themselves are handles (\<open>nat\<close>); what the program does to them is recorded in
  order in a trace of \<open>io_event\<close>s.
\<close>

section \<open>The inbound buffer of a gnet connection\<close>

record 'c gnet_ops =
  InboundBuffered :: "'c \<Rightarrow> nat"
  Peek :: "'c \<Rightarrow> nat \<Rightarrow> byte list"
  Next :: "'c \<Rightarrow> nat \<Rightarrow> byte list \<times> 'c"

definition gnet_conn_ok :: "'c gnet_ops \<Rightarrow> ('c \<Rightarrow> byte list) \<Rightarrow> bool" where
  "gnet_conn_ok ops content \<longleftrightarrow>
     (\<forall>c. InboundBuffered ops c = length (content c)) \<and>
     (\<forall>c n. 0 < n \<longrightarrow> n \<le> length (content c) \<longrightarrow>
        Peek ops c n = take n (content c) \<and>
        fst (Next ops c n) = take n (content c) \<and>
        content (snd (Next ops c n)) = drop n (content c))"

lemma gnet_conn_okD:
  assumes "gnet_conn_ok ops content"
  shows "InboundBuffered ops c = length (content c)"
    and "0 < n \<Longrightarrow> n \<le> length (content c) \<Longrightarrow> Peek ops c n = take n (content c)"
    and "0 < n \<Longrightarrow> n \<le> length (content c) \<Longrightarrow> fst (Next ops c n) = take n (content c)"
    and "0 < n \<Longrightarrow> n \<le> length (content c) \<Longrightarrow> content (snd (Next ops c n)) = drop n (content c)"
  using assms by (auto simp: gnet_conn_ok_def)

text \<open>The simplest connection that meets the contract: the buffered bytes themselves.\<close>

definition buf_ops :: "byte list gnet_ops" where
  "buf_ops = \<lparr>InboundBuffered = length, Peek = (\<lambda>c n. take n c), Next = (\<lambda>c n. (take n c, drop n c))\<rparr>"

lemma buf_ops_ok: "gnet_conn_ok buf_ops (\<lambda>c. c)"
  by (simp add: gnet_conn_ok_def buf_ops_def)

section \<open>The protobuf runtime and the writing side of the transports\<close>

record env =
  pb_Marshal :: "pb_msg \<Rightarrow> go_error + byte list"
  pb_Unmarshal :: "pb_kind \<Rightarrow> byte list \<Rightarrow> pb_msg \<times> go_error option"
  AsyncWriteErr :: "nat \<Rightarrow> nat \<Rightarrow> byte list \<Rightarrow> go_error option"
  NetWriteRes :: "nat \<Rightarrow> nat \<Rightarrow> byte list \<Rightarrow> nat \<times> go_error option"

text \<open>
  \<open>pb_roundtrips E m b\<close>: the runtime marshals \<open>m\<close> to \<open>b\<close> and reads \<open>b\<close> back as \<open>m\<close>.
  \<open>pb_typed E\<close>: an unmarshal fills in the message it was given, of the type it was given.
\<close>

definition pb_roundtrips :: "env \<Rightarrow> pb_msg \<Rightarrow> byte list \<Rightarrow> bool" where
  "pb_roundtrips E m b \<longleftrightarrow> pb_Marshal E m = Inr b \<and> pb_Unmarshal E (kind_of m) b = (m, None)"

definition pb_typed :: "env \<Rightarrow> bool" where
  "pb_typed E \<longleftrightarrow> (\<forall>k b. kind_of (fst (pb_Unmarshal E k b)) = k)"

text \<open>
  What the program did to a transport, with what the call returned: a frame handed to
  \<^verbatim>\<open>AsyncWrite\<close>, bytes given to \<^verbatim>\<open>Write\<close> (with the count of bytes it took), a close.
  \<open>written\<close> is the bytes that the transports took, in order: what the peer will read.
\<close>

datatype io_event =
    AsyncWrite nat "byte list" "go_error option"
  | NetWrite nat "byte list" nat "go_error option"
  | GnetClose nat
  | NetClose nat

fun taken :: "io_event \<Rightarrow> byte list" where
  "taken (AsyncWrite h b err) = (if err = None then b else [])"
| "taken (NetWrite h b n err) = take n b"
| "taken (GnetClose h) = []"
| "taken (NetClose h) = []"

definition written :: "io_event list \<Rightarrow> byte list" where
  "written tr = concat (map taken tr)"

lemma written_simps [simp]:
  "written [] = []" "written (tr @ tr') = written tr @ written tr'" "written [e] = taken e"
  by (simp_all add: written_def)

end
