(* ===== verification/Frame.thy ===== *)
theory Frame
  imports External
begin

text \<open>
  The outer frame of \<^verbatim>\<open>common/rpc_conn.go\<close>: four bytes of big-endian length, then the payload.
  \<open>MakeFrame\<close> and \<open>ReadFrameFromGnet\<close> are inverse to each other as long as the length fits
  in 32 bits.
\<close>

definition MaxFrameSize :: nat where [const_defs]:
  "MaxFrameSize = 16777216"

definition MakeFrame :: "byte list \<Rightarrow> byte list" where
  "MakeFrame payload = PutUint32 (word_of_nat (length payload)) @ payload"

definition ReadFrameFromGnet :: "'c gnet_ops \<Rightarrow> 'c \<Rightarrow> (byte list \<times> bool) \<times> 'c" where
  "ReadFrameFromGnet ops c =
    (if InboundBuffered ops c < 4 then (([], False), c)
     else
       let hdr = Peek ops c 4 in
       if length hdr < 4 then (([], False), c)
       else
         let n = unat (Uint32 hdr) in
         if InboundBuffered ops c < 4 + n then (([], False), c)
         else
           let c1 = snd (Next ops c 4); (p, c2) = Next ops c1 n
           in ((p, True), c2))"

lemma length_MakeFrame [simp]: "length (MakeFrame p) = 4 + length p"
  by (simp add: MakeFrame_def)

lemma unat_length_word: "n < 2 ^ 32 \<Longrightarrow> unat (word_of_nat n :: uint32) = n"
  by (simp add: unsigned_of_nat take_bit_nat_eq_self)

lemma Uint32_MakeFrame [simp]:
  "Uint32 (MakeFrame p @ rest) = word_of_nat (length p)"
  by (simp add: MakeFrame_def)

lemma take_drop_MakeFrame [simp]:
  "take 4 (MakeFrame p) = PutUint32 (word_of_nat (length p))"
  "drop 4 (MakeFrame p) = p"
  by (simp_all add: MakeFrame_def)

text \<open>Whatever follows it in the stream, a frame is read back as the payload it was made from.\<close>

lemma ReadFrame_MakeFrame:
  assumes ok: "gnet_conn_ok ops content"
    and c: "content c = MakeFrame p @ rest"
    and p: "0 < length p" "length p < 2 ^ 32"
  shows "fst (ReadFrameFromGnet ops c) = (p, True)
    \<and> content (snd (ReadFrameFromGnet ops c)) = rest"
proof -
  note D = gnet_conn_okD [OF ok]
  define c1 where "c1 = snd (Next ops c 4)"
  have len: "length (content c) = 4 + length p + length rest" by (simp add: c)
  have buffered: "InboundBuffered ops c = 4 + length p + length rest"
    using D(1) [of c] len by simp
  have peek: "Peek ops c 4 = PutUint32 (word_of_nat (length p))"
    using D(2) [of 4 c] len by (simp add: c)
  have n: "unat (Uint32 (Peek ops c 4)) = length p"
    using unat_length_word [OF p(2)] by (simp add: peek)
  have c1: "content c1 = p @ rest"
    using D(4) [of 4 c] len by (simp add: c c1_def)
  have nxt: "fst (Next ops c1 (length p)) = p" "content (snd (Next ops c1 (length p))) = rest"
    using D(3) [of "length p" c1] D(4) [of "length p" c1] p(1) by (simp_all add: c1)
  have "ReadFrameFromGnet ops c =
      ((fst (Next ops c1 (length p)), True), snd (Next ops c1 (length p)))"
    using buffered n peek
    by (simp add: ReadFrameFromGnet_def Let_def c1_def [symmetric] split_beta)
  with nxt show ?thesis by simp
qed

text \<open>An incomplete frame is left in the buffer.\<close>

lemma ReadFrame_incomplete:
  assumes ok: "gnet_conn_ok ops content"
    and short: "length (content c) < 4 \<or> length (content c) < 4 + unat (Uint32 (content c))"
  shows "ReadFrameFromGnet ops c = (([], False), c)"
proof (cases "length (content c) < 4")
  case True
  then show ?thesis by (simp add: ReadFrameFromGnet_def gnet_conn_okD(1) [OF ok])
next
  case False
  then have "Uint32 (Peek ops c 4) = Uint32 (content c)"
    using gnet_conn_okD(2) [OF ok, of 4 c] by (simp add: Uint32_def)
  with False short show ?thesis
    by (simp add: ReadFrameFromGnet_def gnet_conn_okD(1) [OF ok] Let_def)
qed

end
