(* ===== verification/Codec.thy ===== *)
theory Codec
  imports Frame
begin

text \<open>
  The inner payload of \<^verbatim>\<open>codec/header.go\<close>: a header (URI and sequence number, ten bytes) and
  the protobuf body, and its decoding by URI. \<open>decode_bytes\<close> is the abstract decoder on the
  bytes of a stream; \<open>ZeroCopyDecode\<close>, written over the calls of \<^verbatim>\<open>gnet.Conn\<close>, refines it.
\<close>

section \<open>URIs and header\<close>

definition MetaEstablish :: uint16 where [const_defs]: "MetaEstablish = 1"
definition MetaEstablishAck :: uint16 where [const_defs]: "MetaEstablishAck = 2"
definition MetaShakeHand :: uint16 where [const_defs]: "MetaShakeHand = 3"
definition MetaShakeHandResp :: uint16 where [const_defs]: "MetaShakeHandResp = 4"

definition RayURIBase :: uint16 where [const_defs]: "RayURIBase = 100"
definition DriverSubmitTask :: uint16 where [const_defs]: "DriverSubmitTask = 100"
definition SchedulerSubmitTaskResp :: uint16 where [const_defs]: "SchedulerSubmitTaskResp = 101"
definition RayRegisterTaskToGCS :: uint16 where [const_defs]: "RayRegisterTaskToGCS = 102"
definition RayRegisterTaskToGCSResp :: uint16 where [const_defs]: "RayRegisterTaskToGCSResp = 103"
definition RayFetchTask :: uint16 where [const_defs]: "RayFetchTask = 104"
definition RayFetchTaskResp :: uint16 where [const_defs]: "RayFetchTaskResp = 105"
definition RayGetObjectLocation :: uint16 where [const_defs]: "RayGetObjectLocation = 106"
definition RayGetObjectLocationResp :: uint16 where [const_defs]: "RayGetObjectLocationResp = 107"
definition RayReportTaskResult :: uint16 where [const_defs]: "RayReportTaskResult = 108"
definition RayReportTaskResultResp :: uint16 where [const_defs]: "RayReportTaskResultResp = 109"
definition RayGetTaskResult :: uint16 where [const_defs]: "RayGetTaskResult = 110"
definition RayGetTaskResultResp :: uint16 where [const_defs]: "RayGetTaskResultResp = 111"
definition RayAssignTask :: uint16 where [const_defs]: "RayAssignTask = 112"
definition RayAssignTaskResp :: uint16 where [const_defs]: "RayAssignTaskResp = 113"
definition RayGetObjectData :: uint16 where [const_defs]: "RayGetObjectData = 114"
definition RayGetObjectDataResp :: uint16 where [const_defs]: "RayGetObjectDataResp = 115"

record Header =
  Uri :: uint16
  SeqId :: uint64

section \<open>Encoding and decoding\<close>

definition EncodePayload :: "env \<Rightarrow> Header \<Rightarrow> pb_msg \<Rightarrow> go_error + byte list" where
  "EncodePayload E h msg =
    (case pb_Marshal E msg of
       Inl err \<Rightarrow> Inl err
     | Inr body \<Rightarrow> Inr (PutUint16 (Uri h) @ PutUint64 (SeqId h) @ body))"

text \<open>
  \<^verbatim>\<open>m := new(pb.T); return m, proto.Unmarshal(body, m)\<close>: the message is returned even when
  the unmarshal fails, so the error carries it.
\<close>

definition unmarshal_new ::
  "env \<Rightarrow> pb_kind \<Rightarrow> byte list \<Rightarrow> go_error \<times> pb_msg option + pb_msg" where
  "unmarshal_new E k body =
    (case pb_Unmarshal E k body of (m, None) \<Rightarrow> Inr m | (m, Some err) \<Rightarrow> Inl (err, Some m))"

definition UnmarshalRayBody ::
  "env \<Rightarrow> uint16 \<Rightarrow> byte list \<Rightarrow> go_error \<times> pb_msg option + pb_msg" where
  "UnmarshalRayBody E uri body =
    (if uri = DriverSubmitTask then unmarshal_new E KDriverSubmitTaskRequest body
     else if uri = SchedulerSubmitTaskResp then unmarshal_new E KSchedulerSubmitTaskResponse body
     else if uri = RayRegisterTaskToGCS then unmarshal_new E KRegisterTaskToGCSRequest body
     else if uri = RayRegisterTaskToGCSResp then unmarshal_new E KRegisterTaskToGCSResponse body
     else if uri = RayFetchTask then unmarshal_new E KFetchTaskRequest body
     else if uri = RayFetchTaskResp then unmarshal_new E KFetchTaskResponse body
     else if uri = RayGetObjectLocation then unmarshal_new E KGetObjectLocationRequest body
     else if uri = RayGetObjectLocationResp then unmarshal_new E KGetObjectLocationResponse body
     else if uri = RayReportTaskResult then unmarshal_new E KReportTaskResultRequest body
     else if uri = RayReportTaskResultResp then unmarshal_new E KReportTaskResultResponse body
     else if uri = RayGetTaskResult then unmarshal_new E KGetTaskResultRequest body
     else if uri = RayGetTaskResultResp then unmarshal_new E KGetTaskResultResponse body
     else if uri = RayAssignTask then unmarshal_new E KAssignTaskRequest body
     else if uri = RayAssignTaskResp then unmarshal_new E KAssignTaskResponse body
     else if uri = RayGetObjectData then unmarshal_new E KGetObjectDataRequest body
     else if uri = RayGetObjectDataResp then unmarshal_new E KGetObjectDataResponse body
     else Inl (ErrNotRayUri uri, None))"

definition unmarshalByURI ::
  "env \<Rightarrow> uint16 \<Rightarrow> byte list \<Rightarrow> go_error \<times> pb_msg option + pb_msg" where
  "unmarshalByURI E uri body =
    (if uri \<ge> RayURIBase then UnmarshalRayBody E uri body
     else if uri = MetaEstablish then unmarshal_new E KEstablishReq body
     else if uri = MetaEstablishAck then unmarshal_new E KEstablishResponse body
     else if uri = MetaShakeHand then unmarshal_new E KShakeHandReq body
     else if uri = MetaShakeHandResp then unmarshal_new E KShakeHandResp body
     else Inl (ErrUnknownUri uri, None))"

definition DecodeInnerPayload ::
  "env \<Rightarrow> byte list \<Rightarrow> go_error \<times> (Header \<times> pb_msg option) option + Header \<times> pb_msg" where
  "DecodeInnerPayload E payload =
    (if length payload < 10 then Inl (ErrShortBuffer, None)
     else
       let h = \<lparr>Uri = Uint16 (take 2 payload), SeqId = Uint64 (take 8 (drop 2 payload))\<rparr>;
           body = drop 10 payload
       in case unmarshalByURI E (Uri h) body of
            Inl (err, msg) \<Rightarrow> Inl (err, Some (h, msg))
          | Inr msg \<Rightarrow> Inr (h, msg))"

definition ZeroCopyDecode ::
  "'c gnet_ops \<Rightarrow> env \<Rightarrow> 'c \<Rightarrow> (go_error + Header \<times> pb_msg) \<times> 'c" where
  "ZeroCopyDecode ops E c =
    (if InboundBuffered ops c < 4 then (Inl ErrShortBuffer, c)
     else
       let lb = Peek ops c 4 in
       if length lb < 4 then (Inl ErrShortBuffer, c)
       else
         let outerLen = unat (Uint32 lb) in
         if outerLen < 10 then (Inl ErrShortBuffer, c)
         else if InboundBuffered ops c < 4 + outerLen then (Inl ErrShortBuffer, c)
         else
           let c1 = snd (Next ops c 4); (payload, c2) = Next ops c1 outerLen in
           if length payload < 10 then (Inl ErrShortBuffer, c2)
           else
             let h = \<lparr>Uri = Uint16 (take 2 payload), SeqId = Uint64 (take 8 (drop 2 payload))\<rparr>;
                 body = drop 10 payload
             in case unmarshalByURI E (Uri h) body of
                  Inl (err, _) \<Rightarrow> (Inl err, c2)
                | Inr msg \<Rightarrow> (Inr (h, msg), c2))"


section \<open>The decoder on bytes\<close>

text \<open>
  \<open>frame_ready bs\<close>: a frame long enough to hold a header is complete at the front of the
  stream. \<open>decode_bytes\<close> is what a decode does to the stream: nothing when no frame is ready,
  else it consumes the frame and dispatches on its URI.
\<close>

definition frame_len :: "byte list \<Rightarrow> nat" where
  "frame_len bs = unat (Uint32 bs)"

definition frame_ready :: "byte list \<Rightarrow> bool" where
  "frame_ready bs \<longleftrightarrow> 4 \<le> length bs \<and> 10 \<le> frame_len bs \<and> 4 + frame_len bs \<le> length bs"

definition decode_bytes :: "env \<Rightarrow> byte list \<Rightarrow> (go_error + Header \<times> pb_msg) \<times> byte list" where
  "decode_bytes E bs =
    (if frame_ready bs then
       (case DecodeInnerPayload E (take (frame_len bs) (drop 4 bs)) of
          Inl (err, _) \<Rightarrow> Inl err
        | Inr hm \<Rightarrow> Inr hm,
        drop (4 + frame_len bs) bs)
     else (Inl ErrShortBuffer, bs))"

lemma frame_len_append [simp]: "4 \<le> length bs \<Longrightarrow> frame_len (bs @ x) = frame_len bs"
  by (simp add: frame_len_def)

lemma frame_ready_append: "frame_ready bs \<Longrightarrow> frame_ready (bs @ x)"
  by (auto simp: frame_ready_def)

lemma decode_bytes_not_ready: "\<not> frame_ready bs \<Longrightarrow> decode_bytes E bs = (Inl ErrShortBuffer, bs)"
  by (simp add: decode_bytes_def)

text \<open>More bytes behind a complete frame change neither its decoding nor what is consumed.\<close>

lemma decode_bytes_append:
  assumes "frame_ready bs"
  shows "decode_bytes E (bs @ x) = (fst (decode_bytes E bs), snd (decode_bytes E bs) @ x)"
proof -
  have "4 \<le> length bs" "4 + frame_len bs \<le> length bs"
    using assms by (simp_all add: frame_ready_def)
  then show ?thesis
    using assms frame_ready_append [OF assms] by (simp add: decode_bytes_def)
qed

lemma decode_bytes_consumes:
  assumes "frame_ready bs"
  shows "length (snd (decode_bytes E bs)) < length bs"
proof -
  have "4 + frame_len bs \<le> length bs"
    using assms by (simp add: frame_ready_def)
  then show ?thesis
    using assms by (simp add: decode_bytes_def)
qed

text \<open>\<open>ZeroCopyDecode\<close> is this decoder, whatever connection it reads from.\<close>

lemma ZeroCopyDecode_refines:
  assumes ok: "gnet_conn_ok ops content"
  shows "fst (ZeroCopyDecode ops E c) = fst (decode_bytes E (content c))
    \<and> content (snd (ZeroCopyDecode ops E c)) = snd (decode_bytes E (content c))"
proof (cases "4 \<le> length (content c)")
  case False
  then show ?thesis
    by (simp add: ZeroCopyDecode_def decode_bytes_def frame_ready_def gnet_conn_okD(1) [OF ok])
next
  case four: True
  note D = gnet_conn_okD [OF ok]
  have peek: "Peek ops c 4 = take 4 (content c)" using D(2) [of 4 c] four by simp
  have len: "unat (Uint32 (take 4 (content c))) = frame_len (content c)"
    by (simp add: frame_len_def Uint32_def)
  show ?thesis
  proof (cases "frame_ready (content c)")
    case False
    then show ?thesis
      using four by (auto simp: ZeroCopyDecode_def decode_bytes_def frame_ready_def D(1) peek len Let_def)
  next
    case ready: True
    define n where "n = frame_len (content c)"
    define c1 where "c1 = snd (Next ops c 4)"
    define p where "p = take n (drop 4 (content c))"
    have n: "10 \<le> n" "4 + n \<le> length (content c)"
      using ready by (simp_all add: frame_ready_def n_def)
    have c1: "content c1 = drop 4 (content c)"
      using D(4) [of 4 c] four by (simp add: c1_def)
    have p: "fst (Next ops c1 n) = p" "content (snd (Next ops c1 n)) = drop (4 + n) (content c)"
      using D(3) [of n c1] D(4) [of n c1] n by (simp_all add: c1 p_def add.commute)
    have lp: "length p = n" using n by (simp add: p_def)
    have "ZeroCopyDecode ops E c =
        (case DecodeInnerPayload E p of Inl (err, _) \<Rightarrow> Inl err | Inr hm \<Rightarrow> Inr hm,
         snd (Next ops c1 n))"
      using n lp four unfolding ZeroCopyDecode_def
      by (simp add: D(1) peek len Let_def n_def [symmetric] c1_def [symmetric] p split_beta
          DecodeInnerPayload_def split: sum.split)
    then show ?thesis
      using ready p by (simp add: decode_bytes_def n_def [symmetric] p_def)
  qed
qed

section \<open>Round trips\<close>

definition wire_frame :: "Header \<Rightarrow> byte list \<Rightarrow> byte list" where
  "wire_frame h body = MakeFrame (PutUint16 (Uri h) @ PutUint64 (SeqId h) @ body)"

lemma wire_frame_EncodePayload:
  "pb_Marshal E msg = Inr body \<Longrightarrow> EncodePayload E h msg = Inr p \<Longrightarrow> MakeFrame p = wire_frame h body"
  by (auto simp: EncodePayload_def wire_frame_def)

lemma length_wire_frame [simp]: "length (wire_frame h body) = 14 + length body"
  by (simp add: wire_frame_def)

lemma DecodeInnerPayload_header:
  "DecodeInnerPayload E (PutUint16 (Uri h) @ PutUint64 (SeqId h) @ body) =
    (case unmarshalByURI E (Uri h) body of
       Inl (err, msg) \<Rightarrow> Inl (err, Some (h, msg)) | Inr msg \<Rightarrow> Inr (h, msg))"
  by (cases h) (auto simp: DecodeInnerPayload_def Let_def split: sum.split)

lemma frame_len_wire_frame:
  assumes "length body < 2 ^ 32 - 10"
  shows "frame_len (wire_frame h body @ rest) = 10 + length body"
proof -
  have "frame_len (wire_frame h body @ rest) = unat (word_of_nat (10 + length body) :: uint32)"
    by (simp add: frame_len_def wire_frame_def)
  also have "\<dots> = 10 + length body" by (rule unat_length_word) (use assms in simp)
  finally show ?thesis .
qed

lemma frame_ready_wire_frame:
  assumes "length body < 2 ^ 32 - 10"
  shows "frame_ready (wire_frame h body @ rest)"
  using frame_len_wire_frame [OF assms] by (simp add: frame_ready_def)

lemma decode_bytes_wire_frame:
  assumes "length body < 2 ^ 32 - 10"
  shows "decode_bytes E (wire_frame h body @ rest) =
    (case unmarshalByURI E (Uri h) body of Inl (err, _) \<Rightarrow> Inl err | Inr msg \<Rightarrow> Inr (h, msg), rest)"
proof -
  have "take (10 + length body) (drop 4 (wire_frame h body @ rest))
      = PutUint16 (Uri h) @ PutUint64 (SeqId h) @ body"
    by (simp add: wire_frame_def)
  moreover have "drop (14 + length body) (wire_frame h body @ rest) = rest"
    by simp
  ultimately show ?thesis
    using frame_len_wire_frame [OF assms] frame_ready_wire_frame [OF assms]
    by (simp add: decode_bytes_def DecodeInnerPayload_header split: sum.split)
qed

section \<open>Dispatch by URI\<close>

text \<open>The table behind \<open>unmarshalByURI\<close>: which message type each URI stands for.\<close>

definition uri_table :: "(uint16 \<times> pb_kind) list" where
  "uri_table =
    [(1, KEstablishReq), (2, KEstablishResponse), (3, KShakeHandReq), (4, KShakeHandResp),
     (100, KDriverSubmitTaskRequest), (101, KSchedulerSubmitTaskResponse),
     (102, KRegisterTaskToGCSRequest), (103, KRegisterTaskToGCSResponse),
     (104, KFetchTaskRequest), (105, KFetchTaskResponse),
     (106, KGetObjectLocationRequest), (107, KGetObjectLocationResponse),
     (108, KReportTaskResultRequest), (109, KReportTaskResultResponse),
     (110, KGetTaskResultRequest), (111, KGetTaskResultResponse),
     (112, KAssignTaskRequest), (113, KAssignTaskResponse),
     (114, KGetObjectDataRequest), (115, KGetObjectDataResponse)]"

definition uri_kind :: "uint16 \<Rightarrow> pb_kind option" where
  "uri_kind uri = map_of uri_table uri"

lemma unmarshalByURI_uri_kind:
  "unmarshalByURI E uri body =
    (case uri_kind uri of
       Some k \<Rightarrow> unmarshal_new E k body
     | None \<Rightarrow> Inl (if uri \<ge> 100 then ErrNotRayUri uri else ErrUnknownUri uri, None))"
proof -
  have "\<not> (100 :: uint16) \<le> 1"
    by (simp add: word_le_nat_alt)
  then show ?thesis
    by (simp add: unmarshalByURI_def UnmarshalRayBody_def uri_kind_def uri_table_def const_defs)
qed

lemma unmarshalByURI_roundtrip:
  assumes "pb_roundtrips E msg body" and "uri_kind uri = Some (kind_of msg)"
  shows "unmarshalByURI E uri body = Inr msg"
  using assms by (simp add: unmarshalByURI_uri_kind unmarshal_new_def pb_roundtrips_def)

lemma unmarshalByURI_kind:
  assumes "pb_typed E" and "unmarshalByURI E uri body = Inr msg"
  shows "uri_kind uri = Some (kind_of msg)"
proof (cases "uri_kind uri")
  case None
  then show ?thesis using assms(2) by (simp add: unmarshalByURI_uri_kind)
next
  case (Some k)
  have "kind_of (fst (pb_Unmarshal E k body)) = k"
    using assms(1) by (simp add: pb_typed_def)
  with Some assms(2) show ?thesis
    by (auto simp: unmarshalByURI_uri_kind unmarshal_new_def split: prod.splits option.splits)
qed

lemma uri_kind_inj: "uri_kind u = Some k \<Longrightarrow> uri_kind v = Some k \<Longrightarrow> u = v"
  by (rule map_of_inj_snd [of uri_table]) (simp_all add: uri_kind_def uri_table_def)

end
