(* ===== verification/Traffic.thy ===== *)
theory Traffic
  imports Codec
begin

text \<open>
  The read loop that \<^verbatim>\<open>common/eventHandler.go\<close> and every \<^verbatim>\<open>connectionManager\<close> run when bytes
  arrive: decode a frame, hand it to the packet handler, repeat while bytes are buffered.
  \<open>traffic_loop\<close> is written over the connection's calls and may in principle not return (its
  result type is an option); \<open>run_bytes\<close> is the same loop on the bytes of the stream.
  The locale \<open>packet_handler\<close> is the contract of a handler whose state invariant the loop keeps.
\<close>

datatype gnet_action = ActNone | ActClose | ActShutdown

text \<open>What \<^verbatim>\<open>c.Context()\<close> holds: nil, a value of a foreign type, or a connection object.\<close>

datatype 'r gnet_ctx = CtxNil | CtxOther | CtxConn 'r

type_synonym 's handler = "Header \<Rightarrow> pb_msg \<Rightarrow> 's \<Rightarrow> (go_error option, 's) res"

partial_function (option) traffic_loop ::
  "'c gnet_ops \<Rightarrow> env \<Rightarrow> 's handler \<Rightarrow> 'c \<Rightarrow> 's \<Rightarrow> ((gnet_action, 's) res \<times> 'c) option" where
  "traffic_loop ops E onPacket c s =
    (if InboundBuffered ops c = 0 then Some (Ok ActNone s, c)
     else case ZeroCopyDecode ops E c of
       (Inl err, c1) \<Rightarrow>
         if err = ErrShortBuffer then Some (Ok ActNone s, c1) else Some (Ok ActClose s, c1)
     | (Inr hm, c1) \<Rightarrow>
         (case onPacket (fst hm) (snd hm) s of
            Ok err s1 \<Rightarrow>
              if err = None then traffic_loop ops E onPacket c1 s1 else Some (Ok ActClose s1, c1)
          | Panic p s1 \<Rightarrow> Some (Panic p s1, c1)
          | Block s1 \<Rightarrow> Some (Block s1, c1)))"

definition eventHandler_OnTraffic ::
  "'c gnet_ops \<Rightarrow> env \<Rightarrow> ('r \<Rightarrow> 's handler) \<Rightarrow> 'r gnet_ctx \<Rightarrow> 'c \<Rightarrow> 's
     \<Rightarrow> ((gnet_action, 's) res \<times> 'c) option" where
  "eventHandler_OnTraffic ops E onPacket ctx c s =
    (case ctx of
       CtxNil \<Rightarrow> Some (Ok ActClose s, c)
     | CtxOther \<Rightarrow> Some (Ok ActClose s, c)
     | CtxConn conn \<Rightarrow> traffic_loop ops E (onPacket conn) c s)"

section \<open>The loop on bytes\<close>

function run_bytes ::
  "env \<Rightarrow> 's handler \<Rightarrow> byte list \<Rightarrow> 's \<Rightarrow> (gnet_action, 's) res \<times> byte list" where
  "run_bytes E onPacket bs s =
    (if \<not> frame_ready bs then (Ok ActNone s, bs)
     else case decode_bytes E bs of
       (Inl err, rest) \<Rightarrow> (if err = ErrShortBuffer then Ok ActNone s else Ok ActClose s, rest)
     | (Inr hm, rest) \<Rightarrow>
         (case onPacket (fst hm) (snd hm) s of
            Ok err s1 \<Rightarrow>
              if err = None then run_bytes E onPacket rest s1 else (Ok ActClose s1, rest)
          | Panic p s1 \<Rightarrow> (Panic p s1, rest)
          | Block s1 \<Rightarrow> (Block s1, rest)))"
  by pat_completeness auto
termination
proof (relation "measure (\<lambda>(E, onPacket, bs, s). length bs)")
  fix E :: env and onPacket :: "'s handler" and bs :: "byte list" and s :: 's
    and d :: "go_error + Header \<times> pb_msg" and rest
  assume ready: "\<not> \<not> frame_ready bs" and dec: "(d, rest) = decode_bytes E bs"
  have "length rest < length bs"
    using ready decode_bytes_consumes [of bs E] by (simp flip: dec)
  then show "((E, onPacket, rest, s'), (E, onPacket, bs, s)) \<in> measure (\<lambda>(E, onPacket, bs, s). length bs)" for s'
    by simp
qed simp

declare run_bytes.simps [simp del]

lemma run_bytes_not_ready: "\<not> frame_ready bs \<Longrightarrow> run_bytes E h bs s = (Ok ActNone s, bs)"
  by (simp add: run_bytes.simps)


section \<open>Refinement and termination\<close>

text \<open>
  On any connection that meets the gnet contract the loop returns, with the result and the
  remaining bytes of \<open>run_bytes\<close>: each iteration that goes on has consumed a frame.
\<close>

lemma traffic_loop_run_bytes:
  assumes ok: "gnet_conn_ok ops content"
  shows "\<exists>c'. traffic_loop ops E h c s = Some (fst (run_bytes E h (content c) s), c')
    \<and> content c' = snd (run_bytes E h (content c) s)"
proof (induction "length (content c)" arbitrary: c s rule: less_induct)
  case less
  obtain d c1 where z: "ZeroCopyDecode ops E c = (d, c1)" by (cases "ZeroCopyDecode ops E c")
  have d: "d = fst (decode_bytes E (content c))" and c1: "content c1 = snd (decode_bytes E (content c))"
    using ZeroCopyDecode_refines [OF ok, of E c] z by simp_all
  show ?case
  proof (cases "frame_ready (content c)")
    case False
    then have "d = Inl ErrShortBuffer" "content c1 = content c"
      using d c1 by (simp_all add: decode_bytes_not_ready)
    then show ?thesis
      using False z by (subst traffic_loop.simps) (simp add: run_bytes_not_ready)
  next
    case ready: True
    then have ne: "InboundBuffered ops c \<noteq> 0"
      by (auto simp: gnet_conn_okD(1) [OF ok] frame_ready_def)
    have smaller: "length (content c1) < length (content c)"
      using decode_bytes_consumes [OF ready, of E] c1 by simp
    have dec: "decode_bytes E (content c) = (d, content c1)"
      using d c1 by simp
    show ?thesis
    proof (cases d)
      case (Inl err)
      then show ?thesis
        using z ready ne dec by (subst traffic_loop.simps) (simp add: run_bytes.simps [of _ _ "content c"])
    next
      case (Inr hm)
      show ?thesis
        using z ready ne dec Inr less.hyps [OF smaller]
        by (subst traffic_loop.simps)
          (auto simp: run_bytes.simps [of _ _ "content c"] split: res.split)
    qed
  qed
qed

section \<open>Handlers with an invariant\<close>

locale packet_handler =
  fixes onPacket :: "'s handler"
    and Inv :: "'s \<Rightarrow> bool"
  assumes onPacket_inv: "Inv s \<Longrightarrow> Inv (res_state (onPacket hdr m s))"
begin

lemma run_bytes_inv: "Inv s \<Longrightarrow> Inv (res_state (fst (run_bytes E onPacket bs s)))"
proof (induction "length bs" arbitrary: bs s rule: less_induct)
  case less
  show ?case
  proof (cases "frame_ready bs")
    case False
    then show ?thesis using less.prems by (simp add: run_bytes_not_ready)
  next
    case ready: True
    obtain d rest where dec: "decode_bytes E bs = (d, rest)" by (cases "decode_bytes E bs")
    have smaller: "length rest < length bs"
      using decode_bytes_consumes [OF ready, of E] dec by simp
    have kept: "Inv (res_state (onPacket hdr m s))" for hdr m
      by (rule onPacket_inv) (rule less.prems)
    show ?thesis
    proof (cases d)
      case (Inl err)
      then show ?thesis using ready dec less.prems by (simp add: run_bytes.simps [of _ _ bs])
    next
      case (Inr hm)
      show ?thesis
        using ready dec Inr kept [of "fst hm" "snd hm"] less.hyps [OF smaller]
        by (auto simp: run_bytes.simps [of _ _ bs] split: res.split)
    qed
  qed
qed

text \<open>The same for the loop itself, with no hypothesis on the connection.\<close>

lemma traffic_loop_inv:
  assumes ret: "traffic_loop ops E onPacket c s = Some (r, c')" and s: "Inv s"
  shows "Inv (res_state r)"
proof -
  have "h = onPacket \<longrightarrow> Inv s \<longrightarrow> Inv (res_state (fst rc))"
    if "traffic_loop ops E h c s = Some rc" for h c s rc
  proof (rule traffic_loop.raw_induct
      [where P = "\<lambda>ops E h c s rc. h = onPacket \<longrightarrow> Inv s \<longrightarrow> Inv (res_state (fst rc))", OF _ that])
    fix f ops E h c s rc
    assume IH: "\<And>ops E h c s rc. f ops E h c s = Some rc \<Longrightarrow>
        h = onPacket \<longrightarrow> Inv s \<longrightarrow> Inv (res_state (fst rc))"
      and eq: "(if InboundBuffered ops c = 0 then Some (Ok ActNone s, c)
        else case ZeroCopyDecode ops E c of
          (Inl err, c1) \<Rightarrow>
            if err = ErrShortBuffer then Some (Ok ActNone s, c1) else Some (Ok ActClose s, c1)
        | (Inr hm, c1) \<Rightarrow>
            (case h (fst hm) (snd hm) s of
               Ok err s1 \<Rightarrow> if err = None then f ops E h c1 s1 else Some (Ok ActClose s1, c1)
             | Panic p s1 \<Rightarrow> Some (Panic p s1, c1)
             | Block s1 \<Rightarrow> Some (Block s1, c1))) = Some rc"
    show "h = onPacket \<longrightarrow> Inv s \<longrightarrow> Inv (res_state (fst rc))"
    proof (intro impI)
      assume h: "h = onPacket" and s: "Inv s"
      have kept: "Inv (res_state (onPacket hdr m s))" for hdr m
        by (rule onPacket_inv) (rule s)
      obtain d c1 where z: "ZeroCopyDecode ops E c = (d, c1)" by (cases "ZeroCopyDecode ops E c")
      show "Inv (res_state (fst rc))"
      proof (cases d)
        case (Inl err)
        then show ?thesis using eq z s by (auto split: if_splits)
      next
        case (Inr hm)
        then show ?thesis
          using eq z s h kept [of "fst hm" "snd hm"] IH [of ops E onPacket c1]
          by (auto split: if_splits res.splits)
      qed
    qed
  qed
  from this [OF ret] s show ?thesis by simp
qed

end

section \<open>Notes\<close>

text \<open>
  A handler that takes notes: what \<open>jot\<close> writes down of the packet in the state before it. The notes of a run of
  the loop say which packets it has handed over, and in which states.
\<close>

definition noted :: "'s handler \<Rightarrow> (Header \<Rightarrow> pb_msg \<Rightarrow> 's \<Rightarrow> 'n list) \<Rightarrow> ('s \<times> 'n list) handler" where
  "noted onPacket jot h m p = map_state (\<lambda>t. (t, snd p @ jot h m (fst p))) (onPacket h m (fst p))"

definition traffic_notes ::
  "'c gnet_ops \<Rightarrow> env \<Rightarrow> 's handler \<Rightarrow> (Header \<Rightarrow> pb_msg \<Rightarrow> 's \<Rightarrow> 'n list) \<Rightarrow> 'c \<Rightarrow> 's \<Rightarrow> 'n list" where
  "traffic_notes ops E onPacket jot c s =
    (case traffic_loop ops E (noted onPacket jot) c (s, []) of
       Some (r, c') \<Rightarrow> snd (res_state r)
     | None \<Rightarrow> [])"

lemma traffic_loop_noted:
  fixes ops :: "'c gnet_ops" and s :: 's and jot :: "Header \<Rightarrow> pb_msg \<Rightarrow> 's \<Rightarrow> 'n list"
  assumes "traffic_loop ops E onPacket c s = Some (r, c')"
  shows "\<exists>q. traffic_loop ops E (noted onPacket jot) c (s, ns) = Some (q, c') \<and> fst (res_state q) = res_state r"
proof -
  have "\<forall>ns. \<exists>q. traffic_loop ops E (noted h jot) c (s, ns) = Some (q, snd rc) \<and> fst (res_state q) = res_state (fst rc)"
    if "traffic_loop ops E h c s = Some rc" for ops :: "'c gnet_ops" and E h c and s :: 's and rc
  proof (rule traffic_loop.raw_induct
      [where P = "\<lambda>ops E h c s rc. \<forall>ns. \<exists>q. traffic_loop ops E (noted h jot) c (s, ns) = Some (q, snd rc)
        \<and> fst (res_state q) = res_state (fst rc)", OF _ that])
    fix f and ops :: "'c gnet_ops" and E h c and s :: 's and rc
    assume IH: "\<And>ops E h c s rc. f ops E h c s = Some rc \<Longrightarrow>
        \<forall>ns. \<exists>q. traffic_loop ops E (noted h jot) c (s, ns) = Some (q, snd rc) \<and> fst (res_state q) = res_state (fst rc)"
      and eq: "(if InboundBuffered ops c = 0 then Some (Ok ActNone s, c)
        else case ZeroCopyDecode ops E c of
          (Inl err, c1) \<Rightarrow>
            if err = ErrShortBuffer then Some (Ok ActNone s, c1) else Some (Ok ActClose s, c1)
        | (Inr hm, c1) \<Rightarrow>
            (case h (fst hm) (snd hm) s of
               Ok err s1 \<Rightarrow> if err = None then f ops E h c1 s1 else Some (Ok ActClose s1, c1)
             | Panic p s1 \<Rightarrow> Some (Panic p s1, c1)
             | Block s1 \<Rightarrow> Some (Block s1, c1))) = Some rc"
    show "\<forall>ns. \<exists>q. traffic_loop ops E (noted h jot) c (s, ns) = Some (q, snd rc) \<and> fst (res_state q) = res_state (fst rc)"
    proof
      fix ns
      obtain d c1 where z: "ZeroCopyDecode ops E c = (d, c1)" by (cases "ZeroCopyDecode ops E c")
      show "\<exists>q. traffic_loop ops E (noted h jot) c (s, ns) = Some (q, snd rc) \<and> fst (res_state q) = res_state (fst rc)"
      proof (cases d)
        case (Inl err)
        then show ?thesis using eq z by (subst traffic_loop.simps) (auto split: if_splits)
      next
        case (Inr hm)
        then show ?thesis
          using eq z IH [of ops E h c1] by (subst traffic_loop.simps) (auto simp: noted_def split: if_splits res.splits)
      qed
    qed
  qed
  from this [OF assms] show ?thesis by simp
qed

text \<open>If the handler does to the state what its notes say, so does the loop.\<close>

lemma traffic_notes_sound:
  assumes ret: "traffic_loop ops E onPacket c s = Some (r, c')"
    and refl: "R s [] s" and step: "\<And>t ns h m. R s ns t \<Longrightarrow> R s (ns @ jot h m t) (res_state (onPacket h m t))"
  shows "R s (traffic_notes ops E onPacket jot c s) (res_state r)"
proof -
  obtain q where q: "traffic_loop ops E (noted onPacket jot) c (s, []) = Some (q, c')" "fst (res_state q) = res_state r"
    using traffic_loop_noted [OF ret] by blast
  have "packet_handler (noted onPacket jot) (\<lambda>p. R s (snd p) (fst p))"
  proof
    fix p h m assume "R s (snd p) (fst p)"
    from step [OF this, of h m] show "R s (snd (res_state (noted onPacket jot h m p))) (fst (res_state (noted onPacket jot h m p)))"
      by (cases "onPacket h m (fst p)") (simp_all add: noted_def)
  qed
  from packet_handler.traffic_loop_inv [OF this q(1)] show ?thesis
    using refl q by (simp add: traffic_notes_def)
qed

section \<open>Streams of frames\<close>

text \<open>Handing over a list of decoded packets one after the other, stopping as the loop stops.\<close>

fun deliver :: "'s handler \<Rightarrow> (Header \<times> pb_msg) list \<Rightarrow> 's \<Rightarrow> (gnet_action, 's) res" where
  "deliver h [] s = Ok ActNone s"
| "deliver h ((hdr, m) # ms) s =
    (case h hdr m s of
       Ok err s1 \<Rightarrow> if err = None then deliver h ms s1 else Ok ActClose s1
     | Panic p s1 \<Rightarrow> Panic p s1
     | Block s1 \<Rightarrow> Block s1)"

lemma deliver_Cons:
  "deliver h (p # ps) s =
    (case h (fst p) (snd p) s of
       Ok err s1 \<Rightarrow> if err = None then deliver h ps s1 else Ok ActClose s1
     | Panic q s1 \<Rightarrow> Panic q s1
     | Block s1 \<Rightarrow> Block s1)"
  by (cases p) simp

text \<open>
  A packet of a stream: a header, a message that the runtime carries as \<open>body\<close>, short enough
  for its frame's length field, under the URI of its type.
\<close>

definition good_packet :: "env \<Rightarrow> Header \<times> pb_msg \<times> byte list \<Rightarrow> bool" where
  "good_packet E pk =
    (case pk of (hdr, m, body) \<Rightarrow>
       uri_kind (Uri hdr) = Some (kind_of m) \<and> pb_roundtrips E m body \<and> length body < 2 ^ 32 - 10)"

definition packet_bytes :: "(Header \<times> pb_msg \<times> byte list) list \<Rightarrow> byte list" where
  "packet_bytes pks = concat (map (\<lambda>(hdr, m, body). wire_frame hdr body) pks)"

definition packet_msgs :: "(Header \<times> pb_msg \<times> byte list) list \<Rightarrow> (Header \<times> pb_msg) list" where
  "packet_msgs pks = map (\<lambda>(hdr, m, body). (hdr, m)) pks"

lemma run_bytes_packet:
  assumes "good_packet E (hdr, m, body)"
  shows "run_bytes E h (wire_frame hdr body @ rest) s =
    (case h hdr m s of
       Ok err s1 \<Rightarrow> if err = None then run_bytes E h rest s1 else (Ok ActClose s1, rest)
     | Panic p s1 \<Rightarrow> (Panic p s1, rest)
     | Block s1 \<Rightarrow> (Block s1, rest))"
proof -
  have len: "length body < 2 ^ 32 - 10"
    and m: "unmarshalByURI E (Uri hdr) body = Inr m"
    using assms unmarshalByURI_roundtrip [of E m body "Uri hdr"] by (simp_all add: good_packet_def)
  show ?thesis
    by (subst run_bytes.simps)
      (simp add: frame_ready_wire_frame [OF len] decode_bytes_wire_frame [OF len] m)
qed

lemma run_bytes_packets:
  assumes "list_all (good_packet E) pks" and "\<not> frame_ready rest"
  shows "fst (run_bytes E h (packet_bytes pks @ rest) s) = deliver h (packet_msgs pks) s"
  using assms(1)
proof (induction pks arbitrary: s)
  case Nil
  then show ?case
    using assms(2) by (simp add: packet_bytes_def packet_msgs_def run_bytes_not_ready)
next
  case (Cons pk pks)
  obtain hdr m body where pk: "pk = (hdr, m, body)" by (cases pk) auto
  have good: "good_packet E (hdr, m, body)" using Cons.prems pk by simp
  have split: "packet_bytes (pk # pks) @ rest = wire_frame hdr body @ (packet_bytes pks @ rest)"
    by (simp add: packet_bytes_def pk)
  show ?case
    unfolding split run_bytes_packet [OF good]
    using Cons by (auto simp: pk packet_msgs_def split: res.split)
qed

section \<open>Segmentation of the stream\<close>

text \<open>
  TCP may cut the stream anywhere. \<open>pb_no_short\<close> says that the protobuf runtime never reports
  the very error value \<^verbatim>\<open>io.ErrShortBuffer\<close> that the loop takes for an incomplete frame.
\<close>

definition pb_no_short :: "env \<Rightarrow> bool" where
  "pb_no_short E \<longleftrightarrow> (\<forall>k b. snd (pb_Unmarshal E k b) \<noteq> Some ErrShortBuffer)"

lemma decode_bytes_ready_not_short:
  assumes "pb_no_short E" and "frame_ready bs"
  shows "fst (decode_bytes E bs) \<noteq> Inl ErrShortBuffer"
proof -
  have body: "unmarshal_new E k b \<noteq> Inl (ErrShortBuffer, x)" for k b x
  proof
    assume short: "unmarshal_new E k b = Inl (ErrShortBuffer, x)"
    have "snd (pb_Unmarshal E k b) \<noteq> Some ErrShortBuffer"
      using assms(1) by (simp add: pb_no_short_def)
    with short show False
      by (auto simp: unmarshal_new_def split: prod.splits option.splits)
  qed
  have uri: "unmarshalByURI E u b \<noteq> Inl (ErrShortBuffer, x)" for u b x
    by (auto simp: unmarshalByURI_uri_kind body split: option.split)
  have "10 \<le> length (take (frame_len bs) (drop 4 bs))"
    using assms(2) by (auto simp: frame_ready_def)
  then have "DecodeInnerPayload E (take (frame_len bs) (drop 4 bs)) \<noteq> Inl (ErrShortBuffer, x)" for x
    using uri by (auto simp: DecodeInnerPayload_def Let_def split: sum.splits)
  then show ?thesis
    using assms(2) by (auto simp: decode_bytes_def split: sum.splits)
qed

lemma run_bytes_append:
  assumes ns: "pb_no_short E"
  shows "run_bytes E h (b1 @ b2) s =
    (case run_bytes E h b1 s of
       (Ok ActNone s1, rest) \<Rightarrow> run_bytes E h (rest @ b2) s1
     | (r, rest) \<Rightarrow> (r, rest @ b2))"
proof (induction "length b1" arbitrary: b1 s rule: less_induct)
  case less
  show ?case
  proof (cases "frame_ready b1")
    case False
    then show ?thesis by (simp add: run_bytes_not_ready)
  next
    case ready: True
    obtain d rest where dec: "decode_bytes E b1 = (d, rest)" by (cases "decode_bytes E b1")
    have dec2: "decode_bytes E (b1 @ b2) = (d, rest @ b2)"
      using decode_bytes_append [OF ready, of E b2] dec by simp
    have smaller: "length rest < length b1"
      using decode_bytes_consumes [OF ready, of E] dec by simp
    have not_short: "d \<noteq> Inl ErrShortBuffer"
      using decode_bytes_ready_not_short [OF ns ready] dec by simp
    note unfold1 = run_bytes.simps [of E h b1 s] run_bytes.simps [of E h "b1 @ b2" s]
    show ?thesis
    proof (cases d)
      case (Inl err)
      then show ?thesis
        using ready frame_ready_append [OF ready] dec dec2 not_short by (simp add: unfold1)
    next
      case (Inr hm)
      then show ?thesis
        using ready frame_ready_append [OF ready] dec dec2 less.hyps [OF smaller]
        by (simp add: unfold1 split: res.split)
    qed
  qed
qed

end
