(* ===== verification/Go_Channel.thy ===== *)
theory Go_Channel
  imports Prelude
begin

text \<open>
  Go channels. \<open>cap\<close> is the capacity given to \<^verbatim>\<open>make\<close>, \<open>buf\<close> the values sent and not
  yet received (oldest first), \<open>parked\<close> the number of goroutines waiting in a receive: each of
  them can take one value directly, so a send proceeds as long as
  \<open>length buf < cap + parked\<close>. A nil channel is the \<open>None\<close> of \<open>'a chan option\<close>: a send to
  it or a receive from it never proceeds.
  The locale \<open>bounded_queue\<close> is the contract the components use: a bounded first-in first-out
  queue.
\<close>

record 'a chan =
  cap :: nat
  buf :: "'a list"
  parked :: nat

definition make_chan :: "nat \<Rightarrow> 'a chan" where
  "make_chan n = \<lparr>cap = n, buf = [], parked = 0\<rparr>"

definition chan_len :: "'a chan \<Rightarrow> nat" where
  "chan_len c = length (buf c)"

definition chan_slots :: "'a chan \<Rightarrow> nat" where
  "chan_slots c = cap c + parked c"

text \<open>\<^verbatim>\<open>select { case ch <- x: ... default: ... }\<close>: \<open>None\<close> is the default branch.\<close>

definition try_send :: "'a \<Rightarrow> 'a chan \<Rightarrow> 'a chan option" where
  "try_send x c = (if length (buf c) < cap c + parked c then Some (c\<lparr>buf := buf c @ [x]\<rparr>) else None)"

text \<open>\<^verbatim>\<open>select { case x = <-ch: ... default: ... }\<close>.\<close>

definition try_recv :: "'a chan \<Rightarrow> ('a \<times> 'a chan) option" where
  "try_recv c = (case buf c of [] \<Rightarrow> None | x # xs \<Rightarrow> Some (x, c\<lparr>buf := xs\<rparr>))"

text \<open>A goroutine starts to wait in a receive, and stops waiting with a value or without.\<close>

definition park :: "'a chan \<Rightarrow> 'a chan" where
  "park c = c\<lparr>parked := Suc (parked c)\<rparr>"

definition unpark :: "'a chan \<Rightarrow> 'a chan" where
  "unpark c = c\<lparr>parked := parked c - 1\<rparr>"

text \<open>A send or a receive on a channel that may be nil.\<close>

definition nil_send :: "'a \<Rightarrow> 'a chan option \<Rightarrow> 'a chan option" where
  "nil_send x c = (case c of None \<Rightarrow> None | Some ch \<Rightarrow> try_send x ch)"

definition nil_recv :: "'a chan option \<Rightarrow> ('a \<times> 'a chan) option" where
  "nil_recv c = (case c of None \<Rightarrow> None | Some ch \<Rightarrow> try_recv ch)"

lemma nil_chan_simps [simp]:
  "nil_send x None = None" "nil_send x (Some c) = try_send x c"
  "nil_recv None = None" "nil_recv (Some c) = try_recv c"
  by (simp_all add: nil_send_def nil_recv_def)

lemma make_chan_simps [simp]:
  "buf (make_chan n) = []" "cap (make_chan n) = n" "parked (make_chan n) = 0"
  by (simp_all add: make_chan_def)

locale bounded_queue =
  fixes items :: "'q \<Rightarrow> 'a list"
    and slots :: "'q \<Rightarrow> nat"
    and push :: "'a \<Rightarrow> 'q \<Rightarrow> 'q option"
    and pop :: "'q \<Rightarrow> ('a \<times> 'q) option"
  assumes push_None_iff: "push x q = None \<longleftrightarrow> slots q \<le> length (items q)"
    and push_items: "push x q = Some q' \<Longrightarrow> items q' = items q @ [x]"
    and push_slots: "push x q = Some q' \<Longrightarrow> slots q' = slots q"
    and pop_None_iff: "pop q = None \<longleftrightarrow> items q = []"
    and pop_items: "pop q = Some (x, q') \<Longrightarrow> items q = x # items q'"
    and pop_slots: "pop q = Some (x, q') \<Longrightarrow> slots q' = slots q"
begin

lemma push_within: "push x q = Some q' \<Longrightarrow> length (items q') \<le> slots q'"
proof -
  assume p: "push x q = Some q'"
  have "\<not> slots q \<le> length (items q)"
    using p push_None_iff [of x q] by auto
  then show ?thesis
    using push_items [OF p] push_slots [OF p] by simp
qed

lemma pop_within:
  "pop q = Some (x, q') \<Longrightarrow> length (items q) \<le> slots q \<Longrightarrow> length (items q') \<le> slots q'"
  by (simp add: pop_slots pop_items)

lemma push_Some_room:
  assumes "length (items q) < slots q"
  obtains q' where "push x q = Some q'"
  using assms push_None_iff [of x q] by (cases "push x q") auto

lemma pop_Some_nonempty:
  assumes "items q = x # xs"
  obtains q' where "pop q = Some (x, q')" and "items q' = xs"
proof (cases "pop q")
  case None
  then show ?thesis using assms by (simp add: pop_None_iff)
next
  case (Some r)
  obtain y q' where r: "r = (y, q')" by (cases r)
  with Some have y: "pop q = Some (y, q')" by simp
  from pop_items [OF y] assms have "y = x" "items q' = xs" by auto
  with y that show ?thesis by blast
qed

text \<open>The queue is first-in first-out: a push does not change what the next pop returns.\<close>

lemma push_pop_commute:
  assumes "push x q = Some q'" and "pop q = Some (y, r)"
  obtains r' where "pop q' = Some (y, r')" and "items r' = items r @ [x]"
proof -
  have "items q' = y # (items r @ [x])"
    using push_items [OF assms(1)] pop_items [OF assms(2)] by simp
  then show ?thesis using that by (rule pop_Some_nonempty)
qed

lemma push_pop_empty:
  assumes "push x q = Some q'" and "items q = []"
  obtains r where "pop q' = Some (x, r)" and "items r = []"
  using assms push_items [OF assms(1)] pop_Some_nonempty [of q' x "[]"] by auto

end

interpretation chq: bounded_queue buf chan_slots try_send try_recv
  by unfold_locales
    (auto simp: try_send_def try_recv_def chan_slots_def split: if_splits list.splits)

end
