(* ===== verification/Conn.thy ===== *)
theory Conn
  imports Traffic Go_Channel
begin

text \<open>
  The server side connection object, \<^verbatim>\<open>core/gcs/connection.go\<close> (the scheduler's and the
  worker's files are copies of it; they draw their sequence numbers from \<^verbatim>\<open>nextID\<close> instead of
  \<^verbatim>\<open>nextSeq\<close>, so the counter is an argument here), and what every implementation of the
  interface \<^verbatim>\<open>common.Connection\<close> promises about \<^verbatim>\<open>Send\<close>, as the locale \<open>frame_sender\<close>.
\<close>

record conn =
  conn_id :: uint64
  conn_remote :: string
  gnetC :: "nat option"
  netC :: "nat option"
  established :: bool
  establishChan :: "unit chan"
  conn_io :: "io_event list"

definition newConnection :: "uint64 \<Rightarrow> string \<Rightarrow> nat option \<Rightarrow> conn" where
  "newConnection cid remote gc =
    \<lparr>conn_id = cid, conn_remote = remote, gnetC = gc, netC = None, established = False,
     establishChan = make_chan 1, conn_io = []\<rparr>"

definition connection_SetEstablished :: "conn \<Rightarrow> conn" where
  "connection_SetEstablished c = c\<lparr>established := True\<rparr>"

section \<open>Writing\<close>

text \<open>
  \<open>None\<close> is a loop that does not return: a \<^verbatim>\<open>Write\<close> that takes no byte and reports no error.
  Slicing \<^verbatim>\<open>b[n:]\<close> panics if the transport claims to have taken more than it was given.
\<close>

partial_function (option) writeFull ::
  "env \<Rightarrow> nat \<Rightarrow> byte list \<Rightarrow> io_event list \<Rightarrow> (go_error option, io_event list) res option" where
  "writeFull E w b tr =
    (if b = [] then Some (Ok None tr)
     else case NetWriteRes E (length tr) w b of (n, err) \<Rightarrow>
       (if err \<noteq> None then Some (Ok err (tr @ [NetWrite w b n err]))
        else if length b < n then Some (Panic IndexOutOfRange (tr @ [NetWrite w b n err]))
        else writeFull E w (drop n b) (tr @ [NetWrite w b n err])))"

definition connection_Send ::
  "env \<Rightarrow> byte list \<Rightarrow> conn \<Rightarrow> (go_error option, conn) res" where
  "connection_Send E payload c =
    (let frame = MakeFrame payload in
     case netC c of
       Some w \<Rightarrow>
         (case writeFull E w frame (conn_io c) of
            None \<Rightarrow> Block c
          | Some (Ok err tr) \<Rightarrow> Ok err (c\<lparr>conn_io := tr\<rparr>)
          | Some (Panic p tr) \<Rightarrow> Panic p (c\<lparr>conn_io := tr\<rparr>)
          | Some (Block tr) \<Rightarrow> Block (c\<lparr>conn_io := tr\<rparr>))
     | None \<Rightarrow>
         (case gnetC c of
            Some g \<Rightarrow>
              (let err = AsyncWriteErr E (length (conn_io c)) g frame
               in Ok err (c\<lparr>conn_io := conn_io c @ [AsyncWrite g frame err]\<rparr>))
          | None \<Rightarrow> Ok (Some ErrNoTransport) c))"

definition connection_Close :: "conn \<Rightarrow> conn" where
  "connection_Close c =
    (case gnetC c of
       Some g \<Rightarrow> c\<lparr>conn_io := conn_io c @ [GnetClose g]\<rparr>
     | None \<Rightarrow>
         (case netC c of
            Some w \<Rightarrow> c\<lparr>conn_io := conn_io c @ [NetClose w]\<rparr>
          | None \<Rightarrow> c))"

section \<open>Establish and heartbeat\<close>

text \<open>
  Both draw the next sequence number, encode and send; errors are logged and dropped. The pair
  is the counter after the call and the connection.
\<close>

definition send_logged :: "env \<Rightarrow> Header \<Rightarrow> pb_msg \<Rightarrow> conn \<Rightarrow> (unit, conn) res" where
  "send_logged E h msg c =
    (case EncodePayload E h msg of
       Inl err \<Rightarrow> Ok () c
     | Inr payload \<Rightarrow> bind_res (connection_Send E payload c) (\<lambda>err c1. Ok () c1))"

definition connection_Establish ::
  "env \<Rightarrow> string \<Rightarrow> uint64 \<Rightarrow> conn \<Rightarrow> uint64 \<times> (unit, conn) res" where
  "connection_Establish E advertiseAddr nextSeq c =
    (let seq = nextSeq + 1 in
     (seq, send_logged E \<lparr>Uri = MetaEstablish, SeqId = seq\<rparr>
        (MEstablishReq \<lparr>EstablishReq_Addr = advertiseAddr, EstablishReq_Mode = 0\<rparr>) c))"

definition connection_ShakeHand ::
  "env \<Rightarrow> uint64 \<Rightarrow> conn \<Rightarrow> uint64 \<times> (unit, conn) res" where
  "connection_ShakeHand E nextSeq c =
    (let seq = nextSeq + 1 in
     (seq, send_logged E \<lparr>Uri = MetaShakeHand, SeqId = seq\<rparr> MShakeHandReq c))"

definition connection_Ontick ::
  "env \<Rightarrow> uint64 \<Rightarrow> conn \<Rightarrow> uint64 \<times> (unit, conn) res" where
  "connection_Ontick E nextSeq c =
    (if \<not> established c then (nextSeq, Ok () c) else connection_ShakeHand E nextSeq c)"

definition connection_NotifyEstablish :: "conn \<Rightarrow> conn" where
  "connection_NotifyEstablish c =
    (case try_send () (establishChan c) of
       Some ch \<Rightarrow> c\<lparr>establishChan := ch\<rparr>
     | None \<Rightarrow> c)"

section \<open>What a sender promises\<close>

text \<open>
  \<open>stream c\<close> is what the peer of \<open>c\<close> reads. A send that reports no error has put exactly one
  frame on it; any other outcome has put a prefix of that frame; the identity of the connection
  never changes.
\<close>

locale frame_sender =
  fixes send :: "env \<Rightarrow> byte list \<Rightarrow> 'c \<Rightarrow> (go_error option, 'c) res"
    and stream :: "'c \<Rightarrow> byte list"
    and ident :: "'c \<Rightarrow> uint64 \<times> string"
  assumes send_frame: "send E p c = Ok None c' \<Longrightarrow> stream c' = stream c @ MakeFrame p"
    and send_prefix: "\<exists>k. stream (res_state (send E p c)) = stream c @ take k (MakeFrame p)"
    and send_ident: "ident (res_state (send E p c)) = ident c"
begin

lemma send_grows: "length (stream c) \<le> length (stream (res_state (send E p c)))"
  using send_prefix [of E p c] by auto

text \<open>An encoded packet that was sent without error can be decoded at the other end.\<close>

lemma send_packet:
  assumes enc: "EncodePayload E h m = Inr p" and rt: "pb_roundtrips E m body"
    and sent: "send E p c = Ok None c'"
  shows "stream c' = stream c @ wire_frame h body"
proof -
  have "pb_Marshal E m = Inr body" using rt by (simp add: pb_roundtrips_def)
  then show ?thesis
    using send_frame [OF sent] wire_frame_EncodePayload [OF _ enc] by simp
qed

end

lemma writeFull_written:
  assumes "writeFull E w b tr = Some r"
  shows "(\<exists>k. written (res_state r) = written tr @ take k b)
    \<and> (\<forall>tr'. r = Ok None tr' \<longrightarrow> written tr' = written tr @ b)"
proof (rule writeFull.raw_induct
    [where P = "\<lambda>E w b tr r. (\<exists>k. written (res_state r) = written tr @ take k b)
       \<and> (\<forall>tr'. r = Ok None tr' \<longrightarrow> written tr' = written tr @ b)", OF _ assms])
  fix f E w b tr r
  assume IH: "\<And>E w b tr r. f E w b tr = Some r \<Longrightarrow>
      (\<exists>k. written (res_state r) = written tr @ take k b)
       \<and> (\<forall>tr'. r = Ok None tr' \<longrightarrow> written tr' = written tr @ b)"
    and eq: "(if b = [] then Some (Ok None tr)
     else case NetWriteRes E (length tr) w b of (n, err) \<Rightarrow>
       (if err \<noteq> None then Some (Ok err (tr @ [NetWrite w b n err]))
        else if length b < n then Some (Panic IndexOutOfRange (tr @ [NetWrite w b n err]))
        else f E w (drop n b) (tr @ [NetWrite w b n err]))) = Some r"
  obtain n err where w: "NetWriteRes E (length tr) w b = (n, err)"
    by (cases "NetWriteRes E (length tr) w b")
  let ?ev = "NetWrite w b n err"
  consider "b = []" | "b \<noteq> []" "err \<noteq> None" | "b \<noteq> []" "err = None" "length b < n"
    | "b \<noteq> []" "err = None" "n \<le> length b"
    by fastforce
  then show "(\<exists>k. written (res_state r) = written tr @ take k b)
       \<and> (\<forall>tr'. r = Ok None tr' \<longrightarrow> written tr' = written tr @ b)"
  proof cases
    case 4
    then have "f E w (drop n b) (tr @ [?ev]) = Some r" using eq w by simp
    note ih = IH [OF this]
    then obtain k where "written (res_state r) = written (tr @ [?ev]) @ take k (drop n b)" by blast
    then have "written (res_state r) = written tr @ take (n + k) b"
      by (simp add: take_add)
    moreover have "\<forall>tr'. r = Ok None tr' \<longrightarrow> written tr' = written tr @ b"
      using ih by simp
    ultimately show ?thesis by blast
  qed (use eq w in \<open>auto intro: exI [of _ 0] exI [of _ n]\<close>)
qed

text \<open>
  With a transport that keeps the contract of \<^verbatim>\<open>io.Writer\<close> (fewer bytes taken than given means
  an error) the loop makes one call and returns.
\<close>

definition writer_ok :: "env \<Rightarrow> bool" where
  "writer_ok E \<longleftrightarrow> (\<forall>i w b. fst (NetWriteRes E i w b) \<le> length b
     \<and> (fst (NetWriteRes E i w b) < length b \<longrightarrow> snd (NetWriteRes E i w b) \<noteq> None))"

lemma writeFull_once:
  assumes ok: "writer_ok E" and ne: "b \<noteq> []"
  shows "writeFull E w b tr =
    Some (Ok (snd (NetWriteRes E (length tr) w b))
      (tr @ [NetWrite w b (fst (NetWriteRes E (length tr) w b)) (snd (NetWriteRes E (length tr) w b))]))"
proof -
  obtain n err where w: "NetWriteRes E (length tr) w b = (n, err)"
    by (cases "NetWriteRes E (length tr) w b")
  have "fst (NetWriteRes E (length tr) w b) \<le> length b
      \<and> (fst (NetWriteRes E (length tr) w b) < length b \<longrightarrow> snd (NetWriteRes E (length tr) w b) \<noteq> None)"
    using ok by (simp add: writer_ok_def)
  then have n: "n \<le> length b" "n < length b \<longrightarrow> err \<noteq> None" by (simp_all add: w)
  show ?thesis
  proof (cases "err = None")
    case True
    then have len: "n = length b" using n by auto
    have "writeFull E w [] tr' = Some (Ok None tr')" for tr'
      by (simp add: writeFull.simps [of E w "[]"])
    then show ?thesis
      using True len ne w by (simp add: writeFull.simps [of E w b tr])
  next
    case False
    then show ?thesis using ne w by (simp add: writeFull.simps [of E w b tr])
  qed
qed

interpretation cs: frame_sender connection_Send "\<lambda>c. written (conn_io c)" "\<lambda>c. (conn_id c, conn_remote c)"
proof
  fix E p c c'
  assume sent: "connection_Send E p c = Ok None c'"
  show "written (conn_io c') = written (conn_io c) @ MakeFrame p"
  proof (cases "netC c")
    case None
    then show ?thesis
      using sent by (auto simp: connection_Send_def Let_def split: option.splits)
  next
    case (Some w)
    with sent obtain tr where tr: "writeFull E w (MakeFrame p) (conn_io c) = Some (Ok None tr)"
      and c': "c' = c\<lparr>conn_io := tr\<rparr>"
      by (auto simp: connection_Send_def Let_def split: option.splits res.splits)
    from writeFull_written [OF tr] c' show ?thesis by simp
  qed
next
  fix E p c
  show "\<exists>k. written (conn_io (res_state (connection_Send E p c))) = written (conn_io c) @ take k (MakeFrame p)"
  proof (cases "netC c")
    case None
    then show ?thesis
      by (auto simp: connection_Send_def Let_def intro: exI [of _ 0] exI [of _ "4 + length p"]
          split: option.split)
  next
    case (Some w)
    show ?thesis
    proof (cases "writeFull E w (MakeFrame p) (conn_io c)")
      case None
      with Some show ?thesis
        by (auto simp: connection_Send_def Let_def intro: exI [of _ 0])
    next
      case ret: (Some r)
      then obtain k where "written (res_state r) = written (conn_io c) @ take k (MakeFrame p)"
        using writeFull_written by blast
      with Some ret show ?thesis
        by (cases r) (auto simp: connection_Send_def Let_def)
    qed
  qed
next
  fix E p c
  show "(conn_id (res_state (connection_Send E p c)), conn_remote (res_state (connection_Send E p c)))
      = (conn_id c, conn_remote c)"
    by (simp add: connection_Send_def Let_def split: option.split res.split)
qed

end
