(* ===== verification/Sample_Env.thy ===== *)
theory Sample_Env
  imports Traffic
begin

text \<open>
  A concrete environment for instances of the theorems: a protobuf runtime that knows the messages
  of a table (with the bytes that stand for each), transports that take everything they are given.
  Only witnesses use it; no definition of the model depends on it.
\<close>

text \<open>The zero value of each message type, which \<^verbatim>\<open>new(pb.T)\<close> returns.\<close>

fun zero_msg :: "pb_kind \<Rightarrow> pb_msg" where
  "zero_msg KEstablishReq = MEstablishReq \<lparr>EstablishReq_Addr = [], EstablishReq_Mode = 0\<rparr>"
| "zero_msg KEstablishResponse =
     MEstablishResponse \<lparr>EstablishResponse_Mode = 0, EstablishResponse_Err = []\<rparr>"
| "zero_msg KShakeHandReq = MShakeHandReq"
| "zero_msg KShakeHandResp = MShakeHandResp"
| "zero_msg KDriverSubmitTaskRequest = MDriverSubmitTaskRequest
     \<lparr>DriverSubmitTaskRequest_TaskId = [], DriverSubmitTaskRequest_FuncName = [],
      DriverSubmitTaskRequest_Args = [], DriverSubmitTaskRequest_Dependencies = []\<rparr>"
| "zero_msg KSchedulerSubmitTaskResponse = MSchedulerSubmitTaskResponse
     \<lparr>SchedulerSubmitTaskResponse_Success = False, SchedulerSubmitTaskResponse_TaskId = []\<rparr>"
| "zero_msg KRegisterTaskToGCSRequest = MRegisterTaskToGCSRequest
     \<lparr>RegisterTaskToGCSRequest_TaskId = [], RegisterTaskToGCSRequest_Status = [],
      RegisterTaskToGCSRequest_Dependencies = []\<rparr>"
| "zero_msg KRegisterTaskToGCSResponse = MRegisterTaskToGCSResponse"
| "zero_msg KFetchTaskRequest = MFetchTaskRequest \<lparr>FetchTaskRequest_WorkerId = []\<rparr>"
| "zero_msg KFetchTaskResponse = MFetchTaskResponse
     \<lparr>FetchTaskResponse_TaskId = [], FetchTaskResponse_FuncName = [], FetchTaskResponse_Args = [],
      FetchTaskResponse_HasTask = False\<rparr>"
| "zero_msg KAssignTaskRequest = MAssignTaskRequest
     \<lparr>AssignTaskRequest_TaskId = [], AssignTaskRequest_FuncName = [], AssignTaskRequest_Args = [],
      AssignTaskRequest_Dependencies = [], AssignTaskRequest_ArgsType = []\<rparr>"
| "zero_msg KAssignTaskResponse = MAssignTaskResponse
     \<lparr>AssignTaskResponse_Accepted = False, AssignTaskResponse_WorkerId = [],
      AssignTaskResponse_TaskId = []\<rparr>"
| "zero_msg KGetObjectLocationRequest = MGetObjectLocationRequest
     \<lparr>GetObjectLocationRequest_ObjectId = [], GetObjectLocationRequest_Uuid = []\<rparr>"
| "zero_msg KGetObjectLocationResponse = MGetObjectLocationResponse
     \<lparr>GetObjectLocationResponse_NodeAddr = [], GetObjectLocationResponse_Uuid = []\<rparr>"
| "zero_msg KGetObjectDataRequest = MGetObjectDataRequest
     \<lparr>GetObjectDataRequest_ObjectId = [], GetObjectDataRequest_RequesterId = [],
      GetObjectDataRequest_Uuid = []\<rparr>"
| "zero_msg KGetObjectDataResponse = MGetObjectDataResponse
     \<lparr>GetObjectDataResponse_Found = False, GetObjectDataResponse_Data = [],
      GetObjectDataResponse_Error = [], GetObjectDataResponse_Uuid = []\<rparr>"
| "zero_msg KReportTaskResultRequest = MReportTaskResultRequest
     \<lparr>ReportTaskResultRequest_TaskId = [], ReportTaskResultRequest_Status = [],
      ReportTaskResultRequest_ObjectId = [], ReportTaskResultRequest_ResultData = []\<rparr>"
| "zero_msg KReportTaskResultResponse = MReportTaskResultResponse"
| "zero_msg KGetTaskResultRequest = MGetTaskResultRequest \<lparr>GetTaskResultRequest_TaskId = []\<rparr>"
| "zero_msg KGetTaskResultResponse = MGetTaskResultResponse
     \<lparr>GetTaskResultResponse_Status = [], GetTaskResultResponse_Result = []\<rparr>"

lemma kind_of_zero_msg [simp]: "kind_of (zero_msg k) = k"
  by (cases k) simp_all

fun table_lookup :: "(pb_msg \<times> byte list) list \<Rightarrow> pb_kind \<Rightarrow> byte list \<Rightarrow> pb_msg option" where
  "table_lookup [] k b = None"
| "table_lookup ((m, b') # t) k b = (if kind_of m = k \<and> b' = b then Some m else table_lookup t k b)"

definition table_env :: "(pb_msg \<times> byte list) list \<Rightarrow> env" where
  "table_env t =
    \<lparr>pb_Marshal = (\<lambda>m. case map_of t m of
        Some b \<Rightarrow> Inr b | None \<Rightarrow> Inl (ErrExternal ''marshal'')),
     pb_Unmarshal = (\<lambda>k b. case table_lookup t k b of
        Some m \<Rightarrow> (m, None) | None \<Rightarrow> (zero_msg k, Some (ErrExternal ''unmarshal''))),
     AsyncWriteErr = (\<lambda>i g b. None),
     NetWriteRes = (\<lambda>i w b. (length b, None))\<rparr>"

lemma table_env_simps [simp]:
  "pb_Marshal (table_env t) m =
     (case map_of t m of Some b \<Rightarrow> Inr b | None \<Rightarrow> Inl (ErrExternal ''marshal''))"
  "pb_Unmarshal (table_env t) k b =
     (case table_lookup t k b of
        Some m \<Rightarrow> (m, None) | None \<Rightarrow> (zero_msg k, Some (ErrExternal ''unmarshal'')))"
  "AsyncWriteErr (table_env t) i g b = None"
  "NetWriteRes (table_env t) i w b = (length b, None)"
  by (simp_all add: table_env_def)

lemma table_lookup_kind: "table_lookup t k b = Some m \<Longrightarrow> kind_of m = k"
  by (induction t k b rule: table_lookup.induct) (auto split: if_splits)

lemma pb_typed_table_env: "pb_typed (table_env t)"
  by (auto simp: pb_typed_def table_lookup_kind split: option.split)

lemma pb_no_short_table_env: "pb_no_short (table_env t)"
  by (auto simp: pb_no_short_def split: option.split)

end
