(* ===== verification/ClientConn.thy ===== *)
theory ClientConn
  imports Conn Sample_Env "HOL-Library.Signed_Division"
begin

text \<open>
  The dialling connection of \<^verbatim>\<open>common/client_conn.go\<close>, shared by every node: the back-off, the
  handshake, the heartbeat, the packet filter before establishment, and the reconnect loop as a
  step relation in which the loop goroutine interleaves with the event thread (\<^verbatim>\<open>OnPacket\<close>,
  \<^verbatim>\<open>OnClose\<close>), with callers (\<^verbatim>\<open>Send\<close>, \<^verbatim>\<open>Stop\<close>) and with the parent context.
  Times are nanoseconds (\<open>int\<close>); the result of a dial and the current time are arguments.
  Logging has no effect on the state and is left out.
\<close>

section \<open>State\<close>

text \<open>
  \<open>pc\<close> is where the goroutine of \<^verbatim>\<open>Loop\<close> stands: not submitted, at the head of the outer loop,
  waiting for the dial timer, in the inner \<^verbatim>\<open>select\<close>, inside \<^verbatim>\<open>waitClose\<close> after the flag was
  cleared and before the transport is dropped, or returned. \<open>subCtx\<close> is \<open>None\<close> for a nil
  \<^verbatim>\<open>subCancel\<close>, else whether the sub-context was cancelled by itself; it is derived from
  \<open>ctxDone\<close>. \<open>handlerMode\<close> is \<open>None\<close> for a nil handler, else what its \<^verbatim>\<open>GetMode\<close> returns.
\<close>

datatype loop_pc = PcIdle | PcTop | PcDialWait | PcInner | PcClosing | PcDone

record client =
  cl_id :: uint64
  cl_endpoint :: string
  cl_local :: string
  cl_localAddr :: string
  seqID :: uint64
  failure :: int64
  nextDial :: int
  dialTimeout :: int
  establishTimeout :: int
  recvIdleTimeout :: int
  shakeEvery :: int
  cl_started :: bool
  cl_established :: bool
  lastRecv :: int
  lastSent :: int
  rawConn :: "nat option"
  ctxDone :: bool
  subCtx :: "bool option"
  handlerMode :: "int32 option"
  pc :: loop_pc
  cl_io :: "io_event list"

definition second :: int where [const_defs]: "second = 1000000000"
definition millisecond :: int where [const_defs]: "millisecond = 1000000"
definition hour :: int where [const_defs]: "hour = 3600 * 1000000000"

type_synonym client_option = "client \<Rightarrow> client"

definition WithEstablishTimeout :: "int \<Rightarrow> client_option" where
  "WithEstablishTimeout d = (\<lambda>c. c\<lparr>establishTimeout := d\<rparr>)"

definition WithRecvIdleTimeout :: "int \<Rightarrow> client_option" where
  "WithRecvIdleTimeout d = (\<lambda>c. c\<lparr>recvIdleTimeout := d\<rparr>)"

definition WithShakeInterval :: "int \<Rightarrow> client_option" where
  "WithShakeInterval d = (\<lambda>c. c\<lparr>shakeEvery := d\<rparr>)"

definition WithDialTimeout :: "int \<Rightarrow> client_option" where
  "WithDialTimeout d = (\<lambda>c. c\<lparr>dialTimeout := d\<rparr>)"

text \<open>The zero value of Go's \<^verbatim>\<open>time.Time\<close> lies before every time: \<open>zero_time\<close> stands for it.\<close>

definition zero_time :: int where [const_defs]: "zero_time = - (2 ^ 63)"

definition NewConnection ::
  "bool \<Rightarrow> uint64 \<Rightarrow> string \<Rightarrow> int32 option \<Rightarrow> client_option list \<Rightarrow> client" where
  "NewConnection parentDone cid endpoint handler opts =
    fold (\<lambda>opt c. opt c) opts
      \<lparr>cl_id = cid, cl_endpoint = endpoint, cl_local = [], cl_localAddr = [], seqID = 0, failure = 0,
       nextDial = zero_time, dialTimeout = 30 * second, establishTimeout = 10 * second,
       recvIdleTimeout = 30 * second, shakeEvery = 3 * second, cl_started = False,
       cl_established = False, lastRecv = zero_time, lastSent = zero_time, rawConn = None,
       ctxDone = parentDone, subCtx = None, handlerMode = handler, pc = PcIdle, cl_io = []\<rparr>"

section \<open>Back-off\<close>

text \<open>
  \<^verbatim>\<open>floorToSecond\<close> converts \<^verbatim>\<open>d.Seconds()\<close> to an integer, which truncates towards zero. The
  model truncates the exact quotient; Go goes through a \<^verbatim>\<open>float64\<close>, which gives the same integer
  for every duration shorter than \<open>2 ^ 24\<close> seconds and for every multiple of 10ms (all the
  durations \<^verbatim>\<open>getBackOff\<close> passes).
\<close>

definition floorToSecond :: "int64 \<Rightarrow> int64" where
  "floorToSecond d =
    (let sec = sint d sdiv second in
     if sec = 0 then d else word_of_int sec * word_of_int second)"

definition getBackOff :: "int64 \<Rightarrow> int64" where
  "getBackOff failures =
    (if sint failures < 10 then 0
     else if sint failures < 20 then floorToSecond (word_of_int millisecond * 10 * failures)
     else floorToSecond (word_of_int millisecond * 50 * failures))"

section \<open>Operations\<close>

definition client_SetLocal :: "string \<Rightarrow> client \<Rightarrow> client" where
  "client_SetLocal l c = c\<lparr>cl_local := l\<rparr>"

definition notifyReconnect :: "client \<Rightarrow> client" where
  "notifyReconnect c = (case subCtx c of Some _ \<Rightarrow> c\<lparr>subCtx := Some True\<rparr> | None \<Rightarrow> c)"

definition client_OnClose :: "client \<Rightarrow> client" where
  "client_OnClose c = notifyReconnect c"

text \<open>\<^verbatim>\<open>Start\<close> submits \<^verbatim>\<open>Loop\<close> to the pool once.\<close>

definition client_Start :: "client \<Rightarrow> client" where
  "client_Start c = (if \<not> cl_started c then c\<lparr>cl_started := True, pc := PcTop\<rparr> else c)"

definition client_Stop :: "client \<Rightarrow> client" where
  "client_Stop c =
    (if cl_started c
     then (notifyReconnect (c\<lparr>cl_started := False, ctxDone := True\<rparr>))\<lparr>cl_established := False\<rparr>
     else c)"

text \<open>\<^verbatim>\<open>Close\<close> always returns nil.\<close>

definition client_Close :: "client \<Rightarrow> go_error option \<times> client" where
  "client_Close c = (None, client_Stop c)"

definition client_SetEstablished :: "client \<Rightarrow> client" where
  "client_SetEstablished c = c\<lparr>cl_established := True\<rparr>"

definition client_NotifyEstablish :: "client \<Rightarrow> client" where
  "client_NotifyEstablish c = c\<lparr>cl_established := True\<rparr>"

definition client_write :: "env \<Rightarrow> nat \<Rightarrow> byte list \<Rightarrow> client \<Rightarrow> go_error option \<times> client" where
  "client_write E g frame c =
    (let err = AsyncWriteErr E (length (cl_io c)) g frame
     in (err, c\<lparr>cl_io := cl_io c @ [AsyncWrite g frame err]\<rparr>))"

definition client_Send :: "env \<Rightarrow> byte list \<Rightarrow> client \<Rightarrow> (go_error option, client) res" where
  "client_Send E payload c =
    (case rawConn c of
       None \<Rightarrow> Ok (Some ErrNoRawConn) c
     | Some g \<Rightarrow>
         if \<not> cl_established c then Ok (Some ErrNotEstablished) c
         else let (err, c1) = client_write E g (MakeFrame payload) c in Ok err c1)"

text \<open>The header is a pointer: the sequence number chosen for it is part of the result.\<close>

definition client_EncodeAndSend ::
  "env \<Rightarrow> int \<Rightarrow> Header \<Rightarrow> pb_msg \<Rightarrow> client \<Rightarrow> (go_error option \<times> Header, client) res" where
  "client_EncodeAndSend E now h msg c =
    (let (h1, c1) =
       (if SeqId h = 0 then (h\<lparr>SeqId := seqID c + 1\<rparr>, c\<lparr>seqID := seqID c + 1\<rparr>) else (h, c))
     in case EncodePayload E h1 msg of
          Inl err \<Rightarrow> Ok (Some err, h1) c1
        | Inr inner \<Rightarrow>
            bind_res (client_Send E inner c1) (\<lambda>err c2.
              if err = None then Ok (None, h1) (c2\<lparr>lastSent := now\<rparr>) else Ok (err, h1) c2))"

text \<open>
  \<^verbatim>\<open>sendEstablish\<close> and \<^verbatim>\<open>sendShakeHand\<close> write to \<^verbatim>\<open>rawConn\<close> without a check: a nil
  transport is a nil dereference, and so is a nil handler in \<^verbatim>\<open>sendEstablish\<close>.
\<close>

definition sendEstablish :: "env \<Rightarrow> int \<Rightarrow> client \<Rightarrow> (go_error option, client) res" where
  "sendEstablish E now c =
    (let c1 = c\<lparr>cl_established := False, seqID := seqID c + 1\<rparr> in
     case handlerMode c1 of
       None \<Rightarrow> Panic NilDeref c1
     | Some mode \<Rightarrow>
         (case EncodePayload E \<lparr>Uri = MetaEstablish, SeqId = seqID c1\<rparr>
             (MEstablishReq \<lparr>EstablishReq_Addr = cl_localAddr c1, EstablishReq_Mode = mode\<rparr>) of
            Inl err \<Rightarrow> Ok (Some err) c1
          | Inr inner \<Rightarrow>
              (case rawConn c1 of
                 None \<Rightarrow> Panic NilDeref c1
               | Some g \<Rightarrow>
                   let (err, c2) = client_write E g (MakeFrame inner) c1 in
                   if err \<noteq> None then Ok err c2 else Ok None (c2\<lparr>lastSent := now\<rparr>))))"

definition sendShakeHand :: "env \<Rightarrow> int \<Rightarrow> client \<Rightarrow> (go_error option, client) res" where
  "sendShakeHand E now c =
    (let c1 = c\<lparr>seqID := seqID c + 1\<rparr> in
     case EncodePayload E \<lparr>Uri = MetaShakeHand, SeqId = seqID c1\<rparr> MShakeHandReq of
       Inl err \<Rightarrow> Ok (Some err) c1
     | Inr inner \<Rightarrow>
         (case rawConn c1 of
            None \<Rightarrow> Panic NilDeref c1
          | Some g \<Rightarrow>
              let (err, c2) = client_write E g (MakeFrame inner) c1 in
              if err \<noteq> None then Ok err (notifyReconnect c2) else Ok None (c2\<lparr>lastSent := now\<rparr>)))"

definition onTick :: "int \<Rightarrow> client \<Rightarrow> client" where
  "onTick now c =
    (if \<not> cl_established c then
       (if now - lastSent c > establishTimeout c then notifyReconnect c else c)
     else if now - lastRecv c > recvIdleTimeout c then notifyReconnect c
     else c)"

definition maybeShake :: "env \<Rightarrow> int \<Rightarrow> client \<Rightarrow> (unit, client) res" where
  "maybeShake E now c =
    (if \<not> cl_established c then Ok () c
     else if now - lastSent c < shakeEvery c then Ok () c
     else bind_res (sendShakeHand E now c) (\<lambda>err c1. Ok () c1))"

text \<open>\<open>dialed\<close> is what \<^verbatim>\<open>DialWithTimeout\<close> returned: a transport or an error.\<close>

definition dialOnce :: "int \<Rightarrow> go_error + nat \<Rightarrow> client \<Rightarrow> go_error option \<times> client" where
  "dialOnce now dialed c =
    (case dialed of
       Inl err \<Rightarrow>
         let f = failure c + 1
         in (Some err, c\<lparr>failure := f, nextDial := now + sint (getBackOff f)\<rparr>)
     | Inr g \<Rightarrow>
         (None, c\<lparr>rawConn := Some g, lastRecv := now, lastSent := now, nextDial := now + hour\<rparr>))"


text \<open>
  \<^verbatim>\<open>OnPacket\<close> up to the call of the node's handler: what it decides about a packet, and the
  connection after that. \<open>Forward\<close> hands the packet to \<^verbatim>\<open>HandlePacket\<close>.
\<close>

datatype verdict = Ignored | Rejected go_error | Forward

definition client_receive :: "int \<Rightarrow> Header \<Rightarrow> pb_msg \<Rightarrow> client \<Rightarrow> verdict \<times> client" where
  "client_receive now h msg c =
    (let c1 = c\<lparr>lastRecv := now, nextDial := now + hour\<rparr> in
     if \<not> cl_established c1 \<and> Uri h \<noteq> MetaEstablishAck then (Ignored, c1)
     else if Uri h = MetaEstablishAck then
       (let err = (case as_EstablishResponse msg of Some r \<Rightarrow> EstablishResponse_Err r | None \<Rightarrow> []) in
        if err \<noteq> [] \<and> err \<noteq> ''OK''
        then (Rejected (ErrEstablishRejected err), notifyReconnect c1)
        else (Forward, c1\<lparr>cl_established := True, failure := 0\<rparr>))
     else if Uri h = MetaShakeHand \<or> Uri h = MetaShakeHandResp then (Ignored, c1)
     else (Forward, c1))"

section \<open>The reconnect loop\<close>

text \<open>
  The deferred function of \<^verbatim>\<open>Loop\<close> after a panic: \<^verbatim>\<open>Stop\<close>, then \<^verbatim>\<open>Loop\<close> is submitted again.
\<close>

definition loop_recover :: "client \<Rightarrow> client" where
  "loop_recover c = (client_Stop c)\<lparr>pc := PcTop\<rparr>"

text \<open>The body of the outer loop from \<^verbatim>\<open>dialOnce\<close> to the entry of the inner \<^verbatim>\<open>select\<close>.\<close>

definition loop_dial :: "env \<Rightarrow> int \<Rightarrow> go_error + nat \<Rightarrow> client \<Rightarrow> (unit, client) res" where
  "loop_dial E now dialed c =
    (case dialOnce now dialed c of
       (Some err, c1) \<Rightarrow> Ok () (c1\<lparr>pc := PcDialWait\<rparr>)
     | (None, c1) \<Rightarrow>
         bind_res (sendEstablish E now (c1\<lparr>subCtx := Some False\<rparr>)) (\<lambda>err c2.
           if err \<noteq> None then
             (case rawConn c2 of
                None \<Rightarrow> Panic NilDeref c2
              | Some g \<Rightarrow> Ok () (c2\<lparr>rawConn := None, cl_io := cl_io c2 @ [GnetClose g], pc := PcTop\<rparr>))
           else Ok () (c2\<lparr>pc := PcInner\<rparr>)))"

definition loop_tick :: "env \<Rightarrow> int \<Rightarrow> client \<Rightarrow> (unit, client) res" where
  "loop_tick E now c = maybeShake E now (onTick now c)"

text \<open>\<^verbatim>\<open>waitClose\<close> in two steps: the flag is cleared, then the close has called back.\<close>

definition waitClose_begin :: "client \<Rightarrow> client" where
  "waitClose_begin c =
    (case rawConn c of
       None \<Rightarrow> c\<lparr>cl_established := False, pc := PcTop\<rparr>
     | Some g \<Rightarrow> c\<lparr>cl_established := False, cl_io := cl_io c @ [GnetClose g], pc := PcClosing\<rparr>)"

definition waitClose_end :: "client \<Rightarrow> client" where
  "waitClose_end c = c\<lparr>rawConn := None, pc := PcTop\<rparr>"

definition subDone :: "client \<Rightarrow> bool" where
  "subDone c \<longleftrightarrow> ctxDone c \<or> subCtx c = Some True"

text \<open>Steps of the loop goroutine, other than a tick.\<close>

inductive loop_step :: "env \<Rightarrow> client \<Rightarrow> client \<Rightarrow> bool" for E where
  loop_exit: "pc c = PcTop \<Longrightarrow> \<not> cl_started c \<Longrightarrow> loop_step E c (c\<lparr>pc := PcDone\<rparr>)"
| loop_ctx: "pc c = PcTop \<Longrightarrow> cl_started c \<Longrightarrow> ctxDone c \<Longrightarrow>
    loop_step E c (c\<lparr>cl_started := False, pc := PcDone\<rparr>)"
| loop_dialed: "pc c = PcTop \<Longrightarrow> cl_started c \<Longrightarrow> \<not> ctxDone c \<Longrightarrow>
    loop_dial E now dialed c = Ok () c' \<Longrightarrow> loop_step E c c'"
| loop_dial_panic: "pc c = PcTop \<Longrightarrow> cl_started c \<Longrightarrow> \<not> ctxDone c \<Longrightarrow>
    loop_dial E now dialed c = Panic p c' \<Longrightarrow> loop_step E c (loop_recover c')"
| loop_timer: "pc c = PcDialWait \<Longrightarrow> loop_step E c (c\<lparr>pc := PcTop\<rparr>)"
| loop_timer_ctx: "pc c = PcDialWait \<Longrightarrow> ctxDone c \<Longrightarrow>
    loop_step E c (c\<lparr>cl_started := False, pc := PcDone\<rparr>)"
| loop_sub_done: "pc c = PcInner \<Longrightarrow> subDone c \<Longrightarrow> loop_step E c (waitClose_begin c)"
| loop_closed: "pc c = PcClosing \<Longrightarrow> loop_step E c (waitClose_end c)"

inductive tick_step :: "env \<Rightarrow> client \<Rightarrow> client \<Rightarrow> bool" for E where
  tick_ok: "pc c = PcInner \<Longrightarrow> loop_tick E now c = Ok () c' \<Longrightarrow> tick_step E c c'"
| tick_panic: "pc c = PcInner \<Longrightarrow> loop_tick E now c = Panic p c' \<Longrightarrow> tick_step E c (loop_recover c')"

text \<open>
  Steps of everybody else. \<^verbatim>\<open>Start\<close> may be called on a connection that is started, where it does
  nothing, or whose loop has not begun or has ended. A call between a \<^verbatim>\<open>Stop\<close> and the end of the loop
  would submit a second loop beside the first; the only call, in every \<^verbatim>\<open>AddConnection\<close>, is on a
  connection that was just made. The transport is assumed to call back when it is told to close
  (\<open>loop_closed\<close>), and \<^verbatim>\<open>Stop\<close> and the dial with the assignments after it are one step each.
\<close>

inductive outside_step :: "env \<Rightarrow> client \<Rightarrow> client \<Rightarrow> bool" for E where
  out_start: "pc c = PcIdle \<or> pc c = PcDone \<or> cl_started c \<Longrightarrow> outside_step E c (client_Start c)"
| out_packet: "outside_step E c (snd (client_receive now h msg c))"
| out_notify: "outside_step E c (client_NotifyEstablish c)"
| out_closed: "outside_step E c (client_OnClose c)"
| out_local: "outside_step E c (client_SetLocal l c)"
| out_send: "outside_step E c (res_state (client_Send E payload c))"
| out_encode_send: "outside_step E c (res_state (client_EncodeAndSend E now h msg c))"
| out_stop: "outside_step E c (client_Stop c)"
| out_parent: "outside_step E c (c\<lparr>ctxDone := True\<rparr>)"

definition client_step :: "env \<Rightarrow> client \<Rightarrow> client \<Rightarrow> bool" where
  "client_step E c c' \<longleftrightarrow> loop_step E c c' \<or> tick_step E c c' \<or> outside_step E c c'"

inductive client_reach :: "env \<Rightarrow> client \<Rightarrow> client \<Rightarrow> bool" for E c0 where
  reach_start: "client_reach E c0 c0"
| reach_step: "client_reach E c0 c \<Longrightarrow> client_step E c c' \<Longrightarrow> client_reach E c0 c'"



section \<open>Back-off: exact values\<close>

lemma sint_word_of_int_64:
  "- (2 ^ 63) \<le> x \<Longrightarrow> x < 2 ^ 63 \<Longrightarrow> sint (word_of_int x :: int64) = x"
  by (simp add: signed_of_int signed_take_bit_int_eq_self)

lemma floorToSecond_nonneg:
  assumes "0 \<le> sint d"
  shows "sint (floorToSecond d) =
    (if sint d < second then sint d else sint d div second * second)"
proof -
  have lt: "sint d < 2 ^ 63" using sint_lt [of d] by simp
  define q where "q = sint d div second"
  have q: "0 \<le> q" "q * second \<le> sint d"
    using assms by (simp_all add: q_def const_defs)
  have sdiv: "sint d sdiv second = q"
    using assms by (cases "sint d = 0") (simp_all add: signed_divide_int_def q_def const_defs)
  have prod: "sint (word_of_int q * word_of_int second :: int64) = q * second"
    using q lt sint_word_of_int_64 [of "q * second"] by (simp add: const_defs)
  show ?thesis
  proof (cases "q = 0")
    case True
    then have "sint d < second" using assms by (simp add: q_def const_defs)
    then show ?thesis using True by (simp add: floorToSecond_def sdiv)
  next
    case False
    then have "\<not> sint d < second" using assms by (auto simp: q_def const_defs)
    then show ?thesis
      using False prod by (simp add: floorToSecond_def sdiv Let_def q_def [symmetric])
  qed
qed

lemma sint_mult_word:
  assumes "0 \<le> k" "0 \<le> sint f" "k * sint f < 2 ^ 63"
  shows "sint (word_of_int k * f :: int64) = k * sint f"
proof -
  have "word_of_int k * f = word_of_int k * (word_of_int (sint f) :: int64)"
    by simp
  also have "\<dots> = word_of_int (k * sint f)"
    by (simp only: wi_hom_mult)
  finally have eq: "word_of_int k * f = (word_of_int (k * sint f) :: int64)" .
  have "0 \<le> k * sint f" using assms by simp
  then have "sint (word_of_int (k * sint f) :: int64) = k * sint f"
    by (intro sint_word_of_int_64) (use assms in linarith)+
  then show ?thesis by (simp only: eq)
qed

lemma getBackOff_closed:
  assumes "0 \<le> sint f" "sint f < 184467440737"
  shows "sint (getBackOff f) =
    (if sint f < 10 then 0
     else if sint f < 20 then sint f * 10 * millisecond
     else sint f div 20 * second)"
proof -
  have m10: "sint (word_of_int millisecond * 10 * f :: int64) = 10000000 * sint f"
    if "sint f < 20"
    using sint_mult_word [of 10000000 f] assms(1) that by (simp add: const_defs)
  have m50: "sint (word_of_int millisecond * 50 * f :: int64) = 50000000 * sint f"
    using sint_mult_word [of 50000000 f] assms by (simp add: const_defs)
  have div: "50000000 * sint f div 1000000000 = sint f div 20"
    using div_mult_mult1 [of 50000000 "sint f" "20 :: int"] by simp
  show ?thesis
    using assms m10 m50 div
    by (auto simp: getBackOff_def floorToSecond_nonneg) (simp_all add: const_defs)
qed

section \<open>The sender contract\<close>

interpretation cls: frame_sender client_Send "\<lambda>c. written (cl_io c)" "\<lambda>c. (cl_id c, cl_endpoint c)"
proof
  fix E p c c'
  assume "client_Send E p c = Ok None c'"
  then show "written (cl_io c') = written (cl_io c) @ MakeFrame p"
    by (auto simp: client_Send_def client_write_def Let_def split: option.splits if_splits)
next
  fix E p c
  show "\<exists>k. written (cl_io (res_state (client_Send E p c))) = written (cl_io c) @ take k (MakeFrame p)"
    by (auto simp: client_Send_def client_write_def Let_def intro: exI [of _ 0] exI [of _ "4 + length p"]
        split: option.split)
next
  fix E p c
  show "(cl_id (res_state (client_Send E p c)), cl_endpoint (res_state (client_Send E p c)))
      = (cl_id c, cl_endpoint c)"
    by (simp add: client_Send_def client_write_def Let_def split: option.split)
qed

lemma client_Send_total: "\<exists>err c'. client_Send E p c = Ok err c'"
  by (simp add: client_Send_def client_write_def Let_def split: option.split)

section \<open>Invariant of the loop\<close>

text \<open>
  The transport is present exactly while the loop is in its inner select or closing; a loop that
  has left it has dropped it. Once the loop is not started its context is cancelled.
\<close>

definition client_inv :: "client \<Rightarrow> bool" where
  "client_inv c \<longleftrightarrow>
     handlerMode c \<noteq> None \<and>
     (pc c = PcInner \<or> pc c = PcClosing \<longleftrightarrow> rawConn c \<noteq> None) \<and>
     (rawConn c \<noteq> None \<longrightarrow> subCtx c \<noteq> None) \<and>
     (pc c = PcIdle \<or> pc c = PcDone \<longrightarrow> \<not> cl_started c) \<and>
     (\<not> cl_started c \<longrightarrow> pc c \<noteq> PcIdle \<longrightarrow> ctxDone c)"

text \<open>
  The part of the state the invariant speaks of, and the operations that leave it alone. Each
  operation of the connection changes a few fields; \<open>ctl\<close> is what is left when the others are
  forgotten.
\<close>

definition ctl :: "client \<Rightarrow> int32 option \<times> loop_pc \<times> nat option \<times> bool \<times> bool" where
  "ctl c = (handlerMode c, pc c, rawConn c, cl_started c, ctxDone c)"

lemma ctl_eqD:
  assumes "ctl c = ctl d"
  shows "handlerMode c = handlerMode d" "pc c = pc d" "rawConn c = rawConn d"
    "cl_started c = cl_started d" "ctxDone c = ctxDone d"
  using assms by (simp_all add: ctl_def)

lemma client_inv_ctl:
  assumes "client_inv c" and "ctl c' = ctl c" and "(subCtx c' = None) = (subCtx c = None)"
  shows "client_inv c'"
  using assms by (auto simp: client_inv_def ctl_eqD [OF assms(2)])

lemma notifyReconnect_ctl [simp]:
  "ctl (notifyReconnect c) = ctl c"
  "subCtx (notifyReconnect c) = None \<longleftrightarrow> subCtx c = None"
  by (simp_all add: notifyReconnect_def ctl_def split: option.split)

lemmas notifyReconnect_fields [simp] = ctl_eqD [OF notifyReconnect_ctl(1)]

lemma client_Send_ctl:
  "ctl (res_state (client_Send E p c)) = ctl c"
  "subCtx (res_state (client_Send E p c)) = subCtx c"
  by (simp_all add: client_Send_def client_write_def ctl_def Let_def split: option.split)

lemma client_EncodeAndSend_ctl:
  "ctl (res_state (client_EncodeAndSend E now h msg c)) = ctl c"
  "subCtx (res_state (client_EncodeAndSend E now h msg c)) = subCtx c"
  by (simp_all add: client_EncodeAndSend_def client_Send_def client_write_def ctl_def Let_def
      split: sum.split option.split)

lemma client_receive_ctl:
  "ctl (snd (client_receive now h msg c)) = ctl c"
  "subCtx (snd (client_receive now h msg c)) = None \<longleftrightarrow> subCtx c = None"
  by (simp_all add: client_receive_def Let_def ctl_def)

lemma onTick_ctl [simp]:
  "ctl (onTick now c) = ctl c" "subCtx (onTick now c) = None \<longleftrightarrow> subCtx c = None"
  by (simp_all add: onTick_def)

lemma sendEstablish_Ok:
  assumes "sendEstablish E now c = Ok err c'"
  shows "ctl c' = ctl c" "subCtx c' = subCtx c"
  using assms
  by (auto simp: sendEstablish_def client_write_def Let_def ctl_def split: option.splits sum.splits if_splits)

lemma sendEstablish_panics:
  "sendEstablish E now c = Panic p c' \<Longrightarrow> handlerMode c = None \<or> rawConn c = None"
  "sendEstablish E now c \<noteq> Block c'"
  by (auto simp: sendEstablish_def client_write_def Let_def split: option.splits sum.splits if_splits)

lemma loop_tick_Ok:
  assumes "rawConn c \<noteq> None"
  shows "\<exists>c'. loop_tick E now c = Ok () c' \<and> ctl c' = ctl c \<and> (subCtx c' = None \<longleftrightarrow> subCtx c = None)"
proof -
  define d where "d = onTick now c"
  have d: "ctl d = ctl c" "subCtx d = None \<longleftrightarrow> subCtx c = None" "rawConn d \<noteq> None"
    using assms ctl_eqD(3) [OF onTick_ctl(1)] by (simp_all add: d_def)
  have "\<exists>err c'. sendShakeHand E now d = Ok err c' \<and> ctl c' = ctl d \<and> (subCtx c' = None \<longleftrightarrow> subCtx d = None)"
    using d(3) by (auto simp: sendShakeHand_def client_write_def Let_def ctl_def split: sum.split)
  then show ?thesis
    using d by (auto simp: loop_tick_def maybeShake_def d_def [symmetric])
qed

text \<open>Dialling, with a handler: the loop waits for its timer, starts over or is connected.\<close>

lemma loop_dial_Ok:
  assumes "handlerMode c \<noteq> None"
  shows "\<exists>c'. loop_dial E now dialed c = Ok () c' \<and> handlerMode c' = handlerMode c
    \<and> cl_started c' = cl_started c \<and> ctxDone c' = ctxDone c
    \<and> (pc c' = PcDialWait \<and> rawConn c' = rawConn c \<and> subCtx c' = subCtx c
      \<or> pc c' = PcTop \<and> rawConn c' = None
      \<or> pc c' = PcInner \<and> rawConn c' \<noteq> None \<and> subCtx c' \<noteq> None)"
proof (cases dialed)
  case (Inl err)
  then show ?thesis by (simp add: loop_dial_def dialOnce_def Let_def)
next
  case (Inr g)
  define c1 where "c1 = (snd (dialOnce now (Inr g) c))\<lparr>subCtx := Some False\<rparr>"
  have c1: "handlerMode c1 = handlerMode c" "cl_started c1 = cl_started c" "ctxDone c1 = ctxDone c"
    "rawConn c1 = Some g" "subCtx c1 = Some False"
    by (simp_all add: c1_def dialOnce_def)
  have split: "loop_dial E now dialed c = bind_res (sendEstablish E now c1) (\<lambda>err c2.
           if err \<noteq> None then
             (case rawConn c2 of
                None \<Rightarrow> Panic NilDeref c2
              | Some g \<Rightarrow> Ok () (c2\<lparr>rawConn := None, cl_io := cl_io c2 @ [GnetClose g], pc := PcTop\<rparr>))
           else Ok () (c2\<lparr>pc := PcInner\<rparr>))"
    by (simp add: loop_dial_def Inr c1_def dialOnce_def)
  show ?thesis
  proof (cases "sendEstablish E now c1")
    case (Ok err c2)
    have c2: "ctl c2 = ctl c1" "subCtx c2 = subCtx c1"
      using sendEstablish_Ok [OF Ok] by simp_all
    show ?thesis
      using Ok c1 c2(2) ctl_eqD [OF c2(1)] by (simp add: split) blast
  next
    case (Panic p c2)
    then show ?thesis using sendEstablish_panics(1) [OF Panic] c1 assms by simp
  next
    case (Block c2)
    then show ?thesis using sendEstablish_panics(2) by blast
  qed
qed

lemma NewConnection_inv:
  assumes opts: "\<And>opt c. opt \<in> set opts \<Longrightarrow> ctl (opt c) = ctl c"
    and handler: "handler \<noteq> None"
  shows "client_inv (NewConnection parentDone cid endpoint handler opts)"
proof -
  define c0 where "c0 = NewConnection parentDone cid endpoint handler []"
  have c0: "ctl c0 = (handler, PcIdle, None, False, parentDone)"
    by (simp add: c0_def NewConnection_def ctl_def)
  have "ctl (fold (\<lambda>opt c. opt c) opts c) = ctl c" for c
    using opts by (induction opts arbitrary: c) auto
  moreover have "NewConnection parentDone cid endpoint handler opts = fold (\<lambda>opt c. opt c) opts c0"
    by (simp add: NewConnection_def c0_def)
  ultimately have "ctl (NewConnection parentDone cid endpoint handler opts) = ctl c0" by simp
  then show ?thesis
    using handler c0 by (auto simp: client_inv_def ctl_def)
qed


lemma client_Stop_inv: "client_inv c \<Longrightarrow> client_inv (client_Stop c)"
proof -
  assume inv: "client_inv c"
  show ?thesis
  proof (cases "cl_started c")
    case False
    then show ?thesis using inv by (simp add: client_Stop_def)
  next
    case True
    define c1 where "c1 = notifyReconnect (c\<lparr>cl_started := False, ctxDone := True\<rparr>)"
    have "ctl c1 = (handlerMode c, pc c, rawConn c, False, True)" "subCtx c1 = None \<longleftrightarrow> subCtx c = None"
      by (simp_all add: c1_def) (simp add: ctl_def)
    moreover have "client_Stop c = c1\<lparr>cl_established := False\<rparr>"
      using True by (simp add: client_Stop_def c1_def)
    ultimately show ?thesis
      using inv by (auto simp: client_inv_def ctl_def)
  qed
qed

lemma loop_step_inv:
  assumes step: "loop_step E c c'" and inv: "client_inv c"
  shows "client_inv c'"
  using step
proof cases
  case (loop_dialed now dialed)
  then have "\<exists>c2. c' = c2 \<and> handlerMode c2 = handlerMode c
    \<and> cl_started c2 = cl_started c \<and> ctxDone c2 = ctxDone c
    \<and> (pc c2 = PcDialWait \<and> rawConn c2 = rawConn c \<and> subCtx c2 = subCtx c
      \<or> pc c2 = PcTop \<and> rawConn c2 = None
      \<or> pc c2 = PcInner \<and> rawConn c2 \<noteq> None \<and> subCtx c2 \<noteq> None)"
    using loop_dial_Ok [of c E now dialed] inv by (auto simp: client_inv_def)
  with loop_dialed(1,2) inv show ?thesis by (auto simp: client_inv_def)
next
  case (loop_dial_panic now dialed p c2)
  then show ?thesis
    using loop_dial_Ok [of c E now dialed] inv by (auto simp: client_inv_def)
qed (use inv in \<open>auto simp: client_inv_def waitClose_begin_def waitClose_end_def split: option.split\<close>)

lemma tick_step_inv:
  assumes step: "tick_step E c c'" and inv: "client_inv c"
  shows "client_inv c'"
  using step
proof cases
  case (tick_ok now)
  then show ?thesis
    using loop_tick_Ok [of c E now] inv client_inv_ctl [OF inv, of c'] by (auto simp: client_inv_def)
next
  case (tick_panic now p c2)
  then show ?thesis
    using loop_tick_Ok [of c E now] inv by (auto simp: client_inv_def)
qed

lemma outside_step_inv:
  assumes step: "outside_step E c c'" and inv: "client_inv c"
  shows "client_inv c'"
  using step
proof cases
  case out_start
  then show ?thesis using inv by (auto simp: client_inv_def client_Start_def)
next
  case (out_packet now h msg)
  then show ?thesis using client_inv_ctl [OF inv] by (simp add: client_receive_ctl)
next
  case out_notify
  then show ?thesis
    using client_inv_ctl [OF inv] by (simp add: client_NotifyEstablish_def ctl_def)
next
  case out_closed
  then show ?thesis using client_inv_ctl [OF inv] by (simp add: client_OnClose_def)
next
  case (out_local l)
  then show ?thesis using client_inv_ctl [OF inv] by (simp add: client_SetLocal_def ctl_def)
next
  case (out_send payload)
  then show ?thesis using client_inv_ctl [OF inv] by (simp add: client_Send_ctl)
next
  case (out_encode_send now h msg)
  then show ?thesis using client_inv_ctl [OF inv] by (simp add: client_EncodeAndSend_ctl)
next
  case out_stop
  then show ?thesis using inv by (simp add: client_Stop_inv)
next
  case out_parent
  then show ?thesis using inv by (auto simp: client_inv_def)
qed

lemma client_step_inv: "client_step E c c' \<Longrightarrow> client_inv c \<Longrightarrow> client_inv c'"
  unfolding client_step_def
  by (blast intro: loop_step_inv tick_step_inv outside_step_inv)

lemma client_reach_inv: "client_reach E c0 c \<Longrightarrow> client_inv c0 \<Longrightarrow> client_inv c"
  by (induction rule: client_reach.induct) (auto intro: client_step_inv)


section \<open>Properties\<close>

text \<open>
  C23. The loop of the dialling connection never dereferences a missing transport. In every state
  reachable from \<^verbatim>\<open>NewConnection\<close> (with a handler), whatever the interleaving of dials,
  packets, remote closes, sends, \<^verbatim>\<open>Stop\<close> and cancellations: a transport is present exactly in
  the inner select and while closing, and neither a tick nor a dial panics.
\<close>

theorem client_loop_safe:
  assumes "client_reach E (NewConnection parentDone cid endpoint (Some mode) []) c"
  shows "(rawConn c \<noteq> None) = (pc c = PcInner \<or> pc c = PcClosing)
    \<and> (pc c = PcInner \<longrightarrow> (\<exists>c'. loop_tick E now c = Ok () c'))
    \<and> (\<exists>c'. loop_dial E now dialed c = Ok () c')"
proof -
  have inv: "client_inv c"
    using client_reach_inv [OF assms NewConnection_inv] by simp
  then have "pc c = PcInner \<Longrightarrow> \<exists>c'. loop_tick E now c = Ok () c'"
    using loop_tick_Ok [of c E now] by (auto simp: client_inv_def)
  moreover have "\<exists>c'. loop_dial E now dialed c = Ok () c'"
    using loop_dial_Ok [of c E now dialed] inv by (auto simp: client_inv_def)
  ultimately show ?thesis using inv by (auto simp: client_inv_def)
qed

definition sample_client :: client where
  "sample_client = NewConnection False 7 ''10.0.0.1:9000'' (Some 1) []"

lemmas sample_client_simps = sample_client_def NewConnection_def

lemma client_loop_safe_witness:
  "client_reach (table_env []) sample_client (client_Start sample_client)
    \<and> (\<exists>c'. loop_dial (table_env []) 5 (Inl (ErrExternal ''refused'')) (client_Start sample_client) = Ok () c')"
proof -
  have "client_step (table_env []) sample_client (client_Start sample_client)"
    unfolding client_step_def by (auto intro: out_start simp: sample_client_simps)
  then have r: "client_reach (table_env []) sample_client (client_Start sample_client)"
    by (rule reach_step [OF reach_start])
  from client_loop_safe [OF r [unfolded sample_client_def]] r show ?thesis
    by (simp add: sample_client_def)
qed

text \<open>
  How far a loop whose context is done is from having returned, in steps of its goroutine that are
  not ticks.
\<close>

fun shutdown_distance :: "loop_pc \<Rightarrow> nat" where
  "shutdown_distance PcInner = 3"
| "shutdown_distance PcClosing = 2"
| "shutdown_distance PcDialWait = 2"
| "shutdown_distance PcTop = 1"
| "shutdown_distance PcIdle = 0"
| "shutdown_distance PcDone = 0"

text \<open>
  C24. A connection whose context is done (by \<^verbatim>\<open>Stop\<close> or by its parent) shuts down: as long as
  its loop has not returned a step of the loop is possible, every such step brings it nearer to
  its end, three at most are needed, and where it ends the connection is not started and has no
  transport.
\<close>

theorem client_shutdown:
  assumes reach: "client_reach E (NewConnection parentDone cid endpoint (Some mode) []) c"
    and done_ctx: "ctxDone c"
  shows "(pc c \<noteq> PcIdle \<and> pc c \<noteq> PcDone \<longrightarrow> (\<exists>c'. loop_step E c c'))
    \<and> (\<forall>c'. loop_step E c c' \<longrightarrow> ctxDone c' \<and> shutdown_distance (pc c') < shutdown_distance (pc c))
    \<and> shutdown_distance (pc c) \<le> 3
    \<and> (pc c = PcDone \<longrightarrow> \<not> cl_started c \<and> rawConn c = None)"
proof -
  have inv: "client_inv c"
    using client_reach_inv [OF reach NewConnection_inv] by simp
  have "\<exists>c'. loop_step E c c'" if "pc c \<noteq> PcIdle" "pc c \<noteq> PcDone"
  proof (cases "pc c")
    case PcTop
    then show ?thesis
      using done_ctx loop_exit [of c E] loop_ctx [of c E] by (cases "cl_started c") auto
  next
    case PcDialWait
    then show ?thesis using loop_timer [of c E] by auto
  next
    case PcInner
    then show ?thesis using done_ctx loop_sub_done [of c E] by (auto simp: subDone_def)
  next
    case PcClosing
    then show ?thesis using loop_closed [of c E] by auto
  qed (use that in simp_all)
  moreover have "ctxDone c' \<and> shutdown_distance (pc c') < shutdown_distance (pc c)"
    if "loop_step E c c'" for c'
    using that
    by cases (use inv done_ctx in
        \<open>auto simp: waitClose_begin_def waitClose_end_def split: option.split\<close>)
  moreover have "shutdown_distance (pc c) \<le> 3" by (cases "pc c") simp_all
  ultimately show ?thesis using inv by (auto simp: client_inv_def)
qed

lemma client_shutdown_witness:
  "\<exists>c. ctxDone c \<and> pc c = PcTop \<and> (\<exists>c'. loop_step (table_env []) c c')"
proof -
  define c where "c = client_Stop (client_Start sample_client)"
  have "client_step (table_env []) sample_client (client_Start sample_client)"
    unfolding client_step_def by (auto intro: out_start simp: sample_client_simps)
  moreover have "client_step (table_env []) (client_Start sample_client) c"
    unfolding client_step_def c_def by (auto intro: out_stop)
  ultimately have r: "client_reach (table_env []) sample_client c"
    by (blast intro: client_reach.intros)
  have c: "ctxDone c" "pc c = PcTop"
    by (simp_all add: c_def client_Stop_def client_Start_def notifyReconnect_def sample_client_simps)
  from client_shutdown [OF r [unfolded sample_client_def] c(1)] c show ?thesis by auto
qed

lemma client_Send_spec:
  "client_Send E payload c =
    (if rawConn c = None then Ok (Some ErrNoRawConn) c
     else if \<not> cl_established c then Ok (Some ErrNotEstablished) c
     else let err = AsyncWriteErr E (length (cl_io c)) (the (rawConn c)) (MakeFrame payload)
       in Ok err (c\<lparr>cl_io := cl_io c @ [AsyncWrite (the (rawConn c)) (MakeFrame payload) err]\<rparr>))"
  by (auto simp: client_Send_def client_write_def Let_def split: option.split)

text \<open>\<open>grows c c'\<close>: from \<open>c\<close> to \<open>c'\<close> only whole frames were put on the wire.\<close>

definition grows :: "client \<Rightarrow> client \<Rightarrow> bool" where
  "grows c c' \<longleftrightarrow> (\<exists>ps. written (cl_io c') = written (cl_io c) @ concat (map MakeFrame ps))"

lemma grows_refl: "cl_io c' = cl_io c \<Longrightarrow> grows c c'"
  by (auto simp: grows_def intro: exI [of _ "[]"])

lemma grows_trans: "grows c d \<Longrightarrow> grows d e \<Longrightarrow> grows c e"
  unfolding grows_def by (metis append.assoc concat_append map_append)

lemma grows_quiet: "grows c d \<Longrightarrow> written (cl_io e) = written (cl_io d) \<Longrightarrow> grows c e"
  by (simp add: grows_def)

lemma grows_write: "cl_io d = cl_io c \<Longrightarrow> grows c (snd (client_write E g (MakeFrame p) d))"
  by (auto simp: grows_def client_write_def Let_def
      intro: exI [of _ "[p]"] exI [of _ "[]"] split: if_splits)

lemma cl_io_ops [simp]:
  "cl_io (notifyReconnect c) = cl_io c" "cl_io (client_Stop c) = cl_io c"
  "cl_io (client_Start c) = cl_io c" "cl_io (onTick now c) = cl_io c"
  "cl_io (snd (client_receive now h m c)) = cl_io c" "cl_io (snd (dialOnce now dialed c)) = cl_io c"
  by (auto simp: notifyReconnect_def client_Stop_def client_Start_def onTick_def client_receive_def
      dialOnce_def Let_def split: option.splits sum.splits)

lemma grows_upd [simp]:
  "grows c (d\<lparr>lastSent := x\<rparr>) = grows c d" "grows c (notifyReconnect d) = grows c d"
  by (simp_all add: grows_def)

lemma client_Send_grows: "cl_io d = cl_io c \<Longrightarrow> grows c (res_state (client_Send E p d))"
  using grows_write [of d c E _ p]
  by (auto simp: client_Send_def grows_refl split: option.split prod.split)
    (metis snd_conv)

lemma sendEstablish_grows: "cl_io d = cl_io c \<Longrightarrow> grows c (res_state (sendEstablish E now d))"
proof -
  assume io: "cl_io d = cl_io c"
  have w: "grows c (snd (client_write E g (MakeFrame p) (d\<lparr>cl_established := False, seqID := i\<rparr>)))" for g p i
    by (rule grows_write) (simp add: io)
  have "grows c e" if "client_write E g (MakeFrame p) (d\<lparr>cl_established := False, seqID := i\<rparr>) = (err, e)"
    for g p i err e
    using w [of g p i] that by simp
  then show ?thesis
    by (auto simp: sendEstablish_def Let_def io grows_refl split: option.split sum.split prod.split)
qed

lemma sendShakeHand_grows: "cl_io d = cl_io c \<Longrightarrow> grows c (res_state (sendShakeHand E now d))"
proof -
  assume io: "cl_io d = cl_io c"
  have w: "grows c (snd (client_write E g (MakeFrame p) (d\<lparr>seqID := i\<rparr>)))" for g p i
    by (rule grows_write) (simp add: io)
  have "grows c e" if "client_write E g (MakeFrame p) (d\<lparr>seqID := i\<rparr>) = (err, e)" for g p i err e
    using w [of g p i] that by simp
  then show ?thesis
    by (auto simp: sendShakeHand_def Let_def io grows_refl split: option.split sum.split prod.split)
qed

lemma loop_tick_grows: "grows c (res_state (loop_tick E now c))"
proof -
  have "grows c (res_state (sendShakeHand E now (onTick now c)))"
    by (rule sendShakeHand_grows) simp
  then show ?thesis
    by (cases "sendShakeHand E now (onTick now c)")
      (auto simp: loop_tick_def maybeShake_def grows_refl)
qed

lemma loop_dial_grows: "grows c (res_state (loop_dial E now dialed c))"
proof (cases "dialOnce now dialed c")
  case (Pair err c1)
  then have io: "cl_io c1 = cl_io c" using cl_io_ops(6) [of now dialed c] by simp
  have "grows c (res_state (sendEstablish E now (c1\<lparr>subCtx := Some False\<rparr>)))"
    by (rule sendEstablish_grows) (simp add: io)
  then show ?thesis
    using Pair io
    by (cases "sendEstablish E now (c1\<lparr>subCtx := Some False\<rparr>)")
      (auto simp: loop_dial_def intro: grows_refl grows_quiet split: option.split)
qed

lemma client_EncodeAndSend_grows: "grows c (res_state (client_EncodeAndSend E now h m c))"
proof -
  have "grows c (res_state (bind_res (client_Send E p d) (\<lambda>err c2.
      if err = None then Ok (None, h1) (c2\<lparr>lastSent := now\<rparr>) else Ok (err, h1) c2)))"
    if "cl_io d = cl_io c" for p d and h1 :: Header
    using client_Send_grows [OF that, of E p]
    by (cases "client_Send E p d") (auto intro: grows_quiet)
  then show ?thesis
    by (auto simp: client_EncodeAndSend_def Let_def grows_refl split: prod.split sum.split)
qed

lemma client_step_grows:
  assumes "client_step E c c'"
  shows "grows c c'"
  using assms unfolding client_step_def
proof (elim disjE)
  assume "loop_step E c c'"
  then show ?thesis
  proof cases
    case (loop_dialed now dialed)
    then show ?thesis using loop_dial_grows [of c E now dialed] by simp
  next
    case (loop_dial_panic now dialed p d)
    then show ?thesis
      using loop_dial_grows [of c E now dialed] by (auto simp: loop_recover_def intro: grows_quiet)
  qed (auto simp: waitClose_begin_def waitClose_end_def grows_def intro!: exI [of _ "[]"] split: option.split)
next
  assume "tick_step E c c'"
  then show ?thesis
  proof cases
    case (tick_ok now)
    then show ?thesis using loop_tick_grows [of c E now] by simp
  next
    case (tick_panic now p d)
    then show ?thesis
      using loop_tick_grows [of c E now] by (auto simp: loop_recover_def intro: grows_quiet)
  qed
next
  assume "outside_step E c c'"
  then show ?thesis
    by cases
      (auto simp: client_NotifyEstablish_def client_OnClose_def client_SetLocal_def
        client_EncodeAndSend_grows client_Send_grows intro: grows_refl)
qed

text \<open>
  The wire carries whole frames: whatever the interleaving of the loop, its heartbeats, concurrent
  calls of \<^verbatim>\<open>Send\<close>, failing writes and reconnects, the bytes that a dialling connection has put on
  its transports are at every moment a sequence of complete frames.
\<close>

theorem client_stream_frames:
  assumes "client_reach E (NewConnection parentDone cid endpoint handler []) c"
  shows "\<exists>ps. written (cl_io c) = concat (map MakeFrame ps)"
proof -
  have "grows (NewConnection parentDone cid endpoint handler []) c"
    using assms
    by (induction rule: client_reach.induct) (auto intro: grows_refl grows_trans client_step_grows)
  then show ?thesis by (simp add: grows_def NewConnection_def)
qed

lemma client_stream_frames_witness:
  "\<exists>ps. written (cl_io (client_Start sample_client)) = concat (map MakeFrame ps)"
proof -
  have "client_step (table_env []) sample_client (client_Start sample_client)"
    unfolding client_step_def by (auto intro: out_start simp: sample_client_simps)
  then have "client_reach (table_env []) sample_client (client_Start sample_client)"
    by (rule reach_step [OF reach_start])
  from client_stream_frames [OF this [unfolded sample_client_def]] show ?thesis
    by (simp add: sample_client_def)
qed

text \<open>
  Before the handshake is complete nothing but the handshake's answer reaches the node: a packet
  is forwarded to the handler only on an established connection, or as an \<^verbatim>\<open>EstablishAck\<close> that
  does not carry a rejection, and then the connection is established afterwards. A rejection
  never establishes and schedules a reconnect.
\<close>

theorem client_receive_gate:
  assumes "client_receive now h msg c = (v, c')"
  shows "(v = Forward \<longrightarrow> cl_established c' \<and>
      (cl_established c \<or> Uri h = MetaEstablishAck \<and>
        (\<forall>r. as_EstablishResponse msg = Some r \<longrightarrow> EstablishResponse_Err r \<in> {[], ''OK''})))
    \<and> (v \<noteq> Forward \<longrightarrow> cl_established c' = cl_established c)
    \<and> (\<forall>e. v = Rejected e \<longrightarrow> subCtx c \<noteq> None \<longrightarrow> subDone c')
    \<and> lastRecv c' = now"
  using assms
  by (auto simp: client_receive_def Let_def const_defs notifyReconnect_def subDone_def
      split: if_splits option.splits)

lemma client_receive_gate_witness:
  "client_receive 5 \<lparr>Uri = 100, SeqId = 1\<rparr> MShakeHandReq sample_client
     = (Ignored, sample_client\<lparr>lastRecv := 5, nextDial := 5 + hour\<rparr>)
   \<and> lastRecv (sample_client\<lparr>lastRecv := 5, nextDial := 5 + hour\<rparr>) = 5"
proof -
  have eq: "client_receive 5 \<lparr>Uri = 100, SeqId = 1\<rparr> MShakeHandReq sample_client
     = (Ignored, sample_client\<lparr>lastRecv := 5, nextDial := 5 + hour\<rparr>)"
    by (simp add: client_receive_def sample_client_simps const_defs)
  then show ?thesis using client_receive_gate [OF eq] by blast
qed

text \<open>
  C35. The back-off after the \<open>f\<close>-th consecutive dial failure, for every \<open>f\<close> whose product with
  50ms fits the 64-bit duration: none below ten failures, \<open>f\<close> times 10ms below twenty, and then
  \<open>f div 20\<close> whole seconds. It never decreases and never is negative.
\<close>

theorem getBackOff_spec:
  assumes "0 \<le> sint f" "sint f \<le> sint g" "sint g < 184467440737"
  shows "sint (getBackOff f) =
      (if sint f < 10 then 0
       else if sint f < 20 then sint f * 10 * millisecond
       else sint f div 20 * second)
    \<and> 0 \<le> sint (getBackOff f) \<and> sint (getBackOff f) \<le> sint (getBackOff g)"
proof -
  have f: "sint (getBackOff f) = (if sint f < 10 then 0
       else if sint f < 20 then sint f * 10 * millisecond else sint f div 20 * second)"
    by (rule getBackOff_closed) (use assms in auto)
  have g: "sint (getBackOff g) = (if sint g < 10 then 0
       else if sint g < 20 then sint g * 10 * millisecond else sint g div 20 * second)"
    by (rule getBackOff_closed) (use assms in auto)
  have "sint f div 20 \<le> sint g div 20" by (rule zdiv_mono1) (use assms in auto)
  moreover have "1 \<le> sint g div 20" if "20 \<le> sint g" using that by linarith
  moreover have "0 \<le> sint f div 20" using assms(1) by simp
  ultimately show ?thesis using assms(1,2) unfolding f g by (auto simp: const_defs)
qed

lemma getBackOff_spec_witness:
  "sint (getBackOff 45) = 2 * second \<and> sint (getBackOff 45) \<le> sint (getBackOff 100)"
  using getBackOff_spec [of 45 100] by (simp add: const_defs)

text \<open>
  The product in \<^verbatim>\<open>getBackOff\<close> is a wrapping 64-bit one: from 184467440738 failures on the
  back-off can be negative, that is, no back-off at all.
\<close>

theorem getBackOff_wraps: "sint (getBackOff 184467440738) < 0"
  by (simp add: getBackOff_def floorToSecond_def const_defs Let_def signed_divide_int_def)

text \<open>
  A panic in the loop ends the connection for good: the deferred function clears \<^verbatim>\<open>started\<close>
  before it submits \<^verbatim>\<open>Loop\<close> again, so the only step of the new loop is to return.
\<close>

theorem loop_recover_ends:
  "\<not> cl_started c \<longrightarrow> ctxDone c \<Longrightarrow>
    \<not> cl_started (loop_recover c) \<and> ctxDone (loop_recover c)
    \<and> (loop_step E (loop_recover c) c' \<longleftrightarrow> c' = (loop_recover c)\<lparr>pc := PcDone\<rparr>)"
proof -
  assume stopped: "\<not> cl_started c \<longrightarrow> ctxDone c"
  have r: "\<not> cl_started (loop_recover c)" "pc (loop_recover c) = PcTop" "ctxDone (loop_recover c)"
    using stopped by (simp_all add: loop_recover_def client_Stop_def)
  have "c' = (loop_recover c)\<lparr>pc := PcDone\<rparr>" if "loop_step E (loop_recover c) c'"
    using that by cases (use r in auto)
  moreover have "loop_step E (loop_recover c) ((loop_recover c)\<lparr>pc := PcDone\<rparr>)"
    using r by (intro loop_exit)
  ultimately show ?thesis using r by blast
qed

lemma loop_recover_ends_witness:
  "\<not> cl_started (loop_recover (client_Start sample_client))
   \<and> loop_step (table_env []) (loop_recover (client_Start sample_client))
       ((loop_recover (client_Start sample_client))\<lparr>pc := PcDone\<rparr>)"
proof -
  have "\<not> cl_started (client_Start sample_client) \<longrightarrow> ctxDone (client_Start sample_client)"
    by (simp add: client_Start_def sample_client_simps)
  from loop_recover_ends [OF this] show ?thesis by blast
qed

end
