(* ===== verification/Node.thy ===== *)
theory Node
  imports ClientConn
begin

text \<open>
  What the four node types share: the options, the connection manager's tables, and the
  operations every \<^verbatim>\<open>connectionManager\<close> has (\<^verbatim>\<open>OnOpen\<close>, \<^verbatim>\<open>OnClose\<close>, \<^verbatim>\<open>OnTraffic\<close>,
  \<^verbatim>\<open>AddConnection\<close>); each node theory extends the record with its own fields.
  Connection objects are shared by reference, so they live in two heaps: \<open>inb\<close> for the accepted
  ones (\<^verbatim>\<open>*connection\<close> of the node's package) and \<open>outb\<close> for the dialling ones
  (\<^verbatim>\<open>*common.connection\<close>). A value of the interface \<^verbatim>\<open>common.Connection\<close> is a \<open>conn_ref\<close>.
\<close>

section \<open>Constants and options\<close>

definition ModeWorker :: int32 where [const_defs]: "ModeWorker = 1"
definition ModeScheduler :: int32 where [const_defs]: "ModeScheduler = 2"
definition ModeDriver :: int32 where [const_defs]: "ModeDriver = 3"
definition ModeGCS :: int32 where [const_defs]: "ModeGCS = 4"

definition ShakeHandTimeout :: int where [const_defs]: "ShakeHandTimeout = 5 * 1000000000"

record Options =
  maxConnections :: int
  ReuseAddr :: bool
  ReusePort :: bool
  TaskChanSize :: int
  RegisterObjectChanSize :: int

type_synonym option_fun = "Options \<Rightarrow> Options"

definition zero_options :: Options where
  "zero_options = \<lparr>maxConnections = 0, ReuseAddr = False, ReusePort = False, TaskChanSize = 0,
     RegisterObjectChanSize = 0\<rparr>"

definition WithMaxConnections :: "int \<Rightarrow> option_fun" where
  "WithMaxConnections n = (\<lambda>opts. opts\<lparr>maxConnections := n\<rparr>)"

definition WithReuseAddr :: "bool \<Rightarrow> option_fun" where
  "WithReuseAddr b = (\<lambda>opts. opts\<lparr>ReuseAddr := b\<rparr>)"

definition WithReusePort :: "bool \<Rightarrow> option_fun" where
  "WithReusePort b = (\<lambda>opts. opts\<lparr>ReusePort := b\<rparr>)"

definition WithTaskChanSize :: "int \<Rightarrow> option_fun" where
  "WithTaskChanSize n = (\<lambda>opts. opts\<lparr>TaskChanSize := n\<rparr>)"

definition WithRegisterObjectChanSize :: "int \<Rightarrow> option_fun" where
  "WithRegisterObjectChanSize n = (\<lambda>opts. opts\<lparr>RegisterObjectChanSize := n\<rparr>)"

definition apply_options :: "option_fun list \<Rightarrow> Options" where
  "apply_options opts = fold (\<lambda>opt acc. opt acc) opts zero_options"

section \<open>State\<close>

text \<open>Keys of a \<^verbatim>\<open>sync.Map\<close> are interface values: a key of one type never equals one of another.\<close>

datatype any_key = KUint64 uint64 | KInt32 int32 | KString string

datatype conn_ref = InConn nat | OutConn nat

record node =
  started :: bool
  listenAddr :: string
  advertiseAddr :: string
  options :: Options
  nextID :: uint64
  conns :: "any_key \<Rightarrow> nat option"
  inb :: "nat \<Rightarrow> conn"
  outb :: "nat \<Rightarrow> client"
  fresh :: nat

section \<open>The interface \<^verbatim>\<open>common.Connection\<close>\<close>

fun ref_ID :: "conn_ref \<Rightarrow> 'a node_scheme \<Rightarrow> uint64" where
  "ref_ID (InConn a) s = conn_id (inb s a)"
| "ref_ID (OutConn a) s = cl_id (outb s a)"

fun ref_Remote :: "conn_ref \<Rightarrow> 'a node_scheme \<Rightarrow> string" where
  "ref_Remote (InConn a) s = conn_remote (inb s a)"
| "ref_Remote (OutConn a) s = cl_endpoint (outb s a)"

fun ref_stream :: "conn_ref \<Rightarrow> 'a node_scheme \<Rightarrow> byte list" where
  "ref_stream (InConn a) s = written (conn_io (inb s a))"
| "ref_stream (OutConn a) s = written (cl_io (outb s a))"

definition set_inb :: "nat \<Rightarrow> 'a node_scheme \<Rightarrow> conn \<Rightarrow> 'a node_scheme" where
  "set_inb a s c = s\<lparr>inb := (inb s)(a := c)\<rparr>"

definition set_outb :: "nat \<Rightarrow> 'a node_scheme \<Rightarrow> client \<Rightarrow> 'a node_scheme" where
  "set_outb a s c = s\<lparr>outb := (outb s)(a := c)\<rparr>"

fun ref_Send :: "env \<Rightarrow> conn_ref \<Rightarrow> byte list \<Rightarrow> 'a node_scheme
    \<Rightarrow> (go_error option, 'a node_scheme) res" where
  "ref_Send E (InConn a) payload s = map_state (set_inb a s) (connection_Send E payload (inb s a))"
| "ref_Send E (OutConn a) payload s = map_state (set_outb a s) (client_Send E payload (outb s a))"

fun ref_SetEstablished :: "conn_ref \<Rightarrow> 'a node_scheme \<Rightarrow> 'a node_scheme" where
  "ref_SetEstablished (InConn a) s = set_inb a s (connection_SetEstablished (inb s a))"
| "ref_SetEstablished (OutConn a) s = set_outb a s (client_SetEstablished (outb s a))"

fun ref_NotifyEstablish :: "conn_ref \<Rightarrow> 'a node_scheme \<Rightarrow> 'a node_scheme" where
  "ref_NotifyEstablish (InConn a) s = set_inb a s (connection_NotifyEstablish (inb s a))"
| "ref_NotifyEstablish (OutConn a) s = set_outb a s (client_NotifyEstablish (outb s a))"

text \<open>
  \<^verbatim>\<open>payload, err := codec.EncodePayload(h, msg); if err != nil { return err };
  return conn.Send(payload)\<close>, the end of most handlers.
\<close>

definition reply :: "env \<Rightarrow> conn_ref \<Rightarrow> Header \<Rightarrow> pb_msg \<Rightarrow> 'a node_scheme
    \<Rightarrow> (go_error option, 'a node_scheme) res" where
  "reply E ref h msg s =
    (case EncodePayload E h msg of
       Inl err \<Rightarrow> Ok (Some err) s
     | Inr payload \<Rightarrow> ref_Send E ref payload s)"

section \<open>The connection manager\<close>

text \<open>\<open>cm_OnOpen\<close> also returns the reference it stores as the connection's gnet context.\<close>

definition cm_OnOpen :: "nat \<Rightarrow> string option \<Rightarrow> 'a node_scheme \<Rightarrow> conn_ref \<times> 'a node_scheme" where
  "cm_OnOpen g remoteAddr s =
    (let i = nextID s + 1;
         remote = (case remoteAddr of Some r \<Rightarrow> r | None \<Rightarrow> []);
         a = fresh s;
         s1 = s\<lparr>nextID := i, fresh := a + 1, inb := (inb s)(a := newConnection i remote (Some g))\<rparr>
     in (InConn a, s1\<lparr>conns := (conns s1)(KUint64 i := Some a)\<rparr>))"

definition cm_OnClose :: "conn_ref gnet_ctx \<Rightarrow> 'a node_scheme \<Rightarrow> 'a node_scheme" where
  "cm_OnClose ctx s =
    (case ctx of
       CtxConn ref \<Rightarrow> s\<lparr>conns := (conns s)(KUint64 (ref_ID ref s) := None)\<rparr>
     | _ \<Rightarrow> s)"

definition cm_OnTraffic ::
  "'c gnet_ops \<Rightarrow> env \<Rightarrow> (conn_ref \<Rightarrow> 'a node_scheme handler) \<Rightarrow> conn_ref gnet_ctx \<Rightarrow> 'c
     \<Rightarrow> 'a node_scheme \<Rightarrow> ((gnet_action, 'a node_scheme) res \<times> 'c) option" where
  "cm_OnTraffic ops E onPacket ctx c s =
    (if \<not> started s then Some (Ok ActShutdown s, c)
     else case ctx of
       CtxConn ref \<Rightarrow> traffic_loop ops E (onPacket ref) c s
     | CtxNil \<Rightarrow> Some (Ok ActClose s, c)
     | CtxOther \<Rightarrow> Some (Ok ActClose s, c))"

text \<open>\<open>mode\<close> is the node's \<^verbatim>\<open>GetMode\<close>: the manager hands itself to the connection as handler.\<close>

definition cm_AddConnection ::
  "int32 \<Rightarrow> bool \<Rightarrow> string \<Rightarrow> 'a node_scheme \<Rightarrow> conn_ref \<times> 'a node_scheme" where
  "cm_AddConnection mode parentDone addr s =
    (let i = nextID s + 1; a = fresh s;
         c = client_Start (NewConnection parentDone i addr (Some mode) [WithDialTimeout ShakeHandTimeout])
     in (OutConn a, s\<lparr>nextID := i, fresh := a + 1, outb := (outb s)(a := c)\<rparr>))"

text \<open>\<^verbatim>\<open>Start\<close> of a server: its gnet engine is run once.\<close>

definition node_Start :: "'a node_scheme \<Rightarrow> 'a node_scheme" where
  "node_Start s = (if \<not> started s then s\<lparr>started := True\<rparr> else s)"

text \<open>
  \<^verbatim>\<open>Ontick\<close> ranges over the connection table; \<open>order\<close> is the order in which \<^verbatim>\<open>Range\<close> visits
  the keys. The heartbeats of the scheduler's and the worker's connections are numbered by
  \<^verbatim>\<open>nextID\<close>.
\<close>

fun node_Ontick :: "env \<Rightarrow> any_key list \<Rightarrow> 'a node_scheme \<Rightarrow> (unit, 'a node_scheme) res" where
  "node_Ontick E [] s = Ok () s"
| "node_Ontick E (k # order) s =
    (case conns s k of
       None \<Rightarrow> node_Ontick E order s
     | Some a \<Rightarrow>
         (case connection_Ontick E (nextID s) (inb s a) of
            (seq, r) \<Rightarrow>
              bind_res (map_state (set_inb a (s\<lparr>nextID := seq\<rparr>)) r) (\<lambda>_ s1. node_Ontick E order s1)))"

text \<open>
  \<^verbatim>\<open>OnPacket\<close> of a dialling connection at the node: the gate of \<open>client_receive\<close>, then the
  node's \<^verbatim>\<open>HandlePacket\<close>; a panic of the handler is recovered into an error.
\<close>

definition client_OnPacket ::
  "int \<Rightarrow> (conn_ref \<Rightarrow> 'a node_scheme handler) \<Rightarrow> nat \<Rightarrow> 'a node_scheme handler" where
  "client_OnPacket now handlePacket a h msg s =
    (let (v, c1) = client_receive now h msg (outb s a); s1 = set_outb a s c1 in
     case v of
       Ignored \<Rightarrow> Ok None s1
     | Rejected err \<Rightarrow> Ok (Some err) s1
     | Forward \<Rightarrow>
         if handlerMode c1 = None then Ok None s1
         else (case handlePacket (OutConn a) h msg s1 of
                 Panic p s2 \<Rightarrow> Ok (Some ErrHandlerPanic) s2
               | r \<Rightarrow> r))"

text \<open>
  The global client's \<^verbatim>\<open>OnOpen\<close> and \<^verbatim>\<open>OnClose\<close>. Only a dialling connection has the method
  \<^verbatim>\<open>SetLocal\<close> that the interface \<^verbatim>\<open>GnetContextConn\<close> asks for.
\<close>

definition eventHandler_OnOpen :: "conn_ref gnet_ctx \<Rightarrow> string \<Rightarrow> 'a node_scheme \<Rightarrow> 'a node_scheme" where
  "eventHandler_OnOpen ctx localAddr s =
    (case ctx of CtxConn (OutConn a) \<Rightarrow> set_outb a s (client_SetLocal localAddr (outb s a)) | _ \<Rightarrow> s)"

definition eventHandler_OnClose :: "conn_ref gnet_ctx \<Rightarrow> 'a node_scheme \<Rightarrow> 'a node_scheme" where
  "eventHandler_OnClose ctx s =
    (case ctx of CtxConn (OutConn a) \<Rightarrow> set_outb a s (client_OnClose (outb s a)) | _ \<Rightarrow> s)"

section \<open>Invariant of the tables\<close>

text \<open>
  The table of accepted connections is keyed by \<^verbatim>\<open>uint64\<close> only, and what it holds under an id
  is an allocated connection that carries this id.
\<close>

definition node_inv :: "'a node_scheme \<Rightarrow> bool" where
  "node_inv s \<longleftrightarrow>
    (\<forall>k a. conns s k = Some a \<longrightarrow> a < fresh s \<and> k = KUint64 (conn_id (inb s a)))"

lemma set_inb_simps [simp]:
  "inb (set_inb a s c) = (inb s)(a := c)" "outb (set_inb a s c) = outb s"
  "conns (set_inb a s c) = conns s" "fresh (set_inb a s c) = fresh s"
  "started (set_inb a s c) = started s" "nextID (set_inb a s c) = nextID s"
  by (simp_all add: set_inb_def)

lemma set_outb_simps [simp]:
  "outb (set_outb a s c) = (outb s)(a := c)" "inb (set_outb a s c) = inb s"
  "conns (set_outb a s c) = conns s" "fresh (set_outb a s c) = fresh s"
  "started (set_outb a s c) = started s" "nextID (set_outb a s c) = nextID s"
  by (simp_all add: set_outb_def)

lemma res_state_map_state [simp]: "res_state (map_state f r) = f (res_state r)"
  by (cases r) simp_all

lemma map_state_iff [res_iff]:
  "map_state f r = Ok a s \<longleftrightarrow> (\<exists>t. r = Ok a t \<and> s = f t)"
  "map_state f r = Panic p s \<longleftrightarrow> (\<exists>t. r = Panic p t \<and> s = f t)"
  "map_state f r = Block s \<longleftrightarrow> (\<exists>t. r = Block t \<and> s = f t)"
  by (cases r; auto)+

lemma node_inv_cong:
  assumes "node_inv s" and "conns s' = conns s" and "fresh s' = fresh s"
    and "\<And>a. conn_id (inb s' a) = conn_id (inb s a)"
  shows "node_inv s'"
  using assms by (simp add: node_inv_def)

text \<open>Sending keeps identities, on both kinds of connection.\<close>

lemma Send_ids [simp]:
  "conn_id (res_state (connection_Send E p c)) = conn_id c"
  "conn_remote (res_state (connection_Send E p c)) = conn_remote c"
  "cl_id (res_state (client_Send E p d)) = cl_id d"
  "cl_endpoint (res_state (client_Send E p d)) = cl_endpoint d"
  using cs.send_ident [of E p c] cls.send_ident [of E p d] by simp_all

lemma ref_Send_ident:
  "conn_id (inb (res_state (ref_Send E ref p s)) a) = conn_id (inb s a)"
  "conn_remote (inb (res_state (ref_Send E ref p s)) a) = conn_remote (inb s a)"
  "cl_endpoint (outb (res_state (ref_Send E ref p s)) a) = cl_endpoint (outb s a)"
  "cl_id (outb (res_state (ref_Send E ref p s)) a) = cl_id (outb s a)"
  by (cases ref; simp)+

lemma ref_Send_frame:
  "conns (res_state (ref_Send E ref p s)) = conns s"
  "fresh (res_state (ref_Send E ref p s)) = fresh s"
  "started (res_state (ref_Send E ref p s)) = started s"
  "nextID (res_state (ref_Send E ref p s)) = nextID s"
  by (cases ref; simp)+

lemma reply_frame:
  "conns (res_state (reply E ref h m s)) = conns s"
  "fresh (res_state (reply E ref h m s)) = fresh s"
  "started (res_state (reply E ref h m s)) = started s"
  "nextID (res_state (reply E ref h m s)) = nextID s"
  by (simp_all add: reply_def ref_Send_frame split: sum.split)

lemma ref_Send_inv: "node_inv s \<Longrightarrow> node_inv (res_state (ref_Send E ref p s))"
  by (erule node_inv_cong) (simp_all add: ref_Send_frame ref_Send_ident)

lemma reply_inv: "node_inv s \<Longrightarrow> node_inv (res_state (reply E ref h m s))"
  by (simp add: reply_def ref_Send_inv split: sum.split)

lemma ref_SetEstablished_inv: "node_inv s \<Longrightarrow> node_inv (ref_SetEstablished ref s)"
  by (cases ref) (auto elim!: node_inv_cong simp: connection_SetEstablished_def)

lemma ref_NotifyEstablish_inv: "node_inv s \<Longrightarrow> node_inv (ref_NotifyEstablish ref s)"
  by (cases ref)
    (auto elim!: node_inv_cong simp: connection_NotifyEstablish_def split: option.split)

lemma set_outb_inv: "node_inv s \<Longrightarrow> node_inv (set_outb a s c)"
  by (erule node_inv_cong) simp_all

lemma cm_OnClose_inv: "node_inv s \<Longrightarrow> node_inv (cm_OnClose ctx s)"
  by (auto simp: cm_OnClose_def node_inv_def split: gnet_ctx.split if_splits)

lemma cm_OnOpen_inv: "node_inv s \<Longrightarrow> node_inv (snd (cm_OnOpen g r s))"
  by (fastforce simp: cm_OnOpen_def node_inv_def Let_def newConnection_def)

lemma cm_AddConnection_inv: "node_inv s \<Longrightarrow> node_inv (snd (cm_AddConnection m d addr s))"
  by (auto simp: cm_AddConnection_def node_inv_def Let_def less_Suc_eq)

text \<open>
  A packet that a send put on a stream without error: whichever kind of connection it was.
\<close>

lemma ref_Send_stream:
  assumes "ref_Send E ref p s = Ok None s'"
  shows "ref_stream ref s' = ref_stream ref s @ MakeFrame p"
  using assms cs.send_frame cls.send_frame by (cases ref) (auto simp: res_iff)

lemma reply_stream:
  assumes sent: "reply E ref h m s = Ok None s'" and rt: "pb_roundtrips E m body"
  shows "ref_stream ref s' = ref_stream ref s @ wire_frame h body"
proof -
  obtain p where p: "EncodePayload E h m = Inr p" "ref_Send E ref p s = Ok None s'"
    using sent by (auto simp: reply_def split: sum.splits)
  have "pb_Marshal E m = Inr body" using rt by (simp add: pb_roundtrips_def)
  then show ?thesis
    using ref_Send_stream [OF p(2)] wire_frame_EncodePayload [OF _ p(1)] by simp
qed

section \<open>Sending over transports that work\<close>

text \<open>
  \<open>transports_ok\<close>: no transport reports an error and \<^verbatim>\<open>Write\<close> takes all it is given.
  \<open>ref_live\<close>: the connection has a transport, and is established if it is a dialling one.
\<close>

definition transports_ok :: "env \<Rightarrow> bool" where
  "transports_ok E \<longleftrightarrow> writer_ok E \<and> (\<forall>i w b. snd (NetWriteRes E i w b) = None)
     \<and> (\<forall>i g b. AsyncWriteErr E i g b = None)"

fun ref_live :: "conn_ref \<Rightarrow> 'a node_scheme \<Rightarrow> bool" where
  "ref_live (InConn a) s = (gnetC (inb s a) \<noteq> None \<or> netC (inb s a) \<noteq> None)"
| "ref_live (OutConn a) s = (rawConn (outb s a) \<noteq> None \<and> cl_established (outb s a))"

lemma connection_Send_live:
  assumes "transports_ok E" and "gnetC c \<noteq> None \<or> netC c \<noteq> None"
  shows "\<exists>c'. connection_Send E p c = Ok None c' \<and> gnetC c' = gnetC c \<and> netC c' = netC c"
proof (cases "netC c")
  case None
  then show ?thesis
    using assms by (auto simp: connection_Send_def Let_def transports_ok_def)
next
  case (Some w)
  have "MakeFrame p \<noteq> []" using length_MakeFrame [of p] by force
  then show ?thesis
    using assms(1) Some writeFull_once [of E "MakeFrame p" w "conn_io c"]
    by (auto simp: connection_Send_def Let_def transports_ok_def)
qed

lemma client_Send_live:
  assumes "transports_ok E" and "rawConn c \<noteq> None" and "cl_established c"
  shows "\<exists>c'. client_Send E p c = Ok None c' \<and> rawConn c' = rawConn c
    \<and> cl_established c' = cl_established c"
  using assms by (auto simp: client_Send_def client_write_def Let_def transports_ok_def)

lemma ref_Send_live:
  assumes ok: "transports_ok E" and live: "ref_live ref s"
  obtains s' where "ref_Send E ref p s = Ok None s'"
    and "ref_stream ref s' = ref_stream ref s @ MakeFrame p"
    and "\<And>r. ref_live r s' = ref_live r s"
    and "\<And>r. r \<noteq> ref \<Longrightarrow> ref_stream r s' = ref_stream r s"
proof (cases ref)
  case (InConn a)
  with live obtain c where c: "connection_Send E p (inb s a) = Ok None c"
    "gnetC c = gnetC (inb s a)" "netC c = netC (inb s a)"
    using connection_Send_live [OF ok] by (metis ref_live.simps(1))
  have sent: "ref_Send E ref p s = Ok None (set_inb a s c)" using InConn c by simp
  have "ref_live r (set_inb a s c) = ref_live r s" for r using c by (cases r) auto
  moreover have "ref_stream r (set_inb a s c) = ref_stream r s" if "r \<noteq> ref" for r
    using that InConn by (cases r) auto
  ultimately show ?thesis using sent ref_Send_stream [OF sent] by (intro that [of "set_inb a s c"])
next
  case (OutConn a)
  with live obtain c where c: "client_Send E p (outb s a) = Ok None c"
    "rawConn c = rawConn (outb s a)" "cl_established c = cl_established (outb s a)"
    using client_Send_live [OF ok] by (metis ref_live.simps(2))
  have sent: "ref_Send E ref p s = Ok None (set_outb a s c)" using OutConn c by simp
  have "ref_live r (set_outb a s c) = ref_live r s" for r using c by (cases r) auto
  moreover have "ref_stream r (set_outb a s c) = ref_stream r s" if "r \<noteq> ref" for r
    using that OutConn by (cases r) auto
  ultimately show ?thesis using sent ref_Send_stream [OF sent] by (intro that [of "set_outb a s c"])
qed

lemma reply_live:
  assumes ok: "transports_ok E" and live: "ref_live ref s" and rt: "pb_roundtrips E m body"
  obtains s' where "reply E ref h m s = Ok None s'"
    and "ref_stream ref s' = ref_stream ref s @ wire_frame h body"
    and "\<And>r. ref_live r s' = ref_live r s"
    and "\<And>r. r \<noteq> ref \<Longrightarrow> ref_stream r s' = ref_stream r s"
proof -
  let ?p = "PutUint16 (Uri h) @ PutUint64 (SeqId h) @ body"
  have enc: "EncodePayload E h m = Inr ?p"
    using rt by (simp add: EncodePayload_def pb_roundtrips_def)
  obtain s' where s': "ref_Send E ref ?p s = Ok None s'"
    "\<And>r. ref_live r s' = ref_live r s" "\<And>r. r \<noteq> ref \<Longrightarrow> ref_stream r s' = ref_stream r s"
    by (rule ref_Send_live [OF ok live, of ?p]) (rule that)
  have "reply E ref h m s = Ok None s'" using s' enc by (simp add: reply_def)
  from that [OF this reply_stream [OF this rt] s'(2,3)] show thesis .
qed

end
