(* ===== verification/Scheduler.thy ===== *)
theory Scheduler
  imports Node
begin

text \<open>
  The scheduler, \<^verbatim>\<open>core/scheduler/scheduler.go\<close> and
  \<^verbatim>\<open>core/scheduler/connection_manger.go\<close>, with the task of \<^verbatim>\<open>common/task.go\<close>: a bounded queue
  of tasks, the worker connections learnt from handshakes, the tasks sent and not yet answered.
\<close>

record Task =
  ID :: string
  FuncName :: string
  Args :: "byte list list"
  ArgsType :: "string list"
  Dependencies :: "string list"

definition TaskFuncAddTowInt :: string where [const_defs]: "TaskFuncAddTowInt = ''addTowInt''"

record scheduler = node +
  workerConns :: "string \<Rightarrow> conn_ref option"
  gcsConns :: "string \<Rightarrow> conn_ref option"
  taskChan :: "Task chan"
  pendingTasks :: "string \<Rightarrow> Task option"

text \<open>\<^verbatim>\<open>make(chan T, n)\<close> panics for a negative \<open>n\<close>: \<open>None\<close>.\<close>

definition NewScheduler :: "string \<Rightarrow> string \<Rightarrow> option_fun list \<Rightarrow> scheduler option" where
  "NewScheduler listen advertise opts =
    (if TaskChanSize (apply_options opts) < 0 then None
     else Some
       \<lparr>started = False, listenAddr = listen, advertiseAddr = advertise, options = apply_options opts,
        nextID = 0, conns = (\<lambda>_. None), inb = (\<lambda>_. newConnection 0 [] None),
        outb = (\<lambda>_. NewConnection True 0 [] None []), fresh = 0,
        workerConns = (\<lambda>_. None), gcsConns = (\<lambda>_. None),
        taskChan = make_chan (nat (TaskChanSize (apply_options opts))), pendingTasks = (\<lambda>_. None)\<rparr>)"

text \<open>The manager that \<^verbatim>\<open>NewScheduler\<close> makes: a fresh counter and an empty table.\<close>

definition scheduler_NewConnectionManager :: "string \<Rightarrow> scheduler \<Rightarrow> scheduler" where
  "scheduler_NewConnectionManager advertise s =
    s\<lparr>advertiseAddr := advertise, nextID := 0, conns := (\<lambda>_. None)\<rparr>"

lemma NewScheduler_manager:
  "NewScheduler listen advertise opts = Some s \<Longrightarrow> scheduler_NewConnectionManager advertise s = s"
  by (auto simp: scheduler_NewConnectionManager_def NewScheduler_def split: if_splits)

definition scheduler_GetMode :: int32 where [const_defs]: "scheduler_GetMode = ModeScheduler"

definition PushTask :: "Task \<Rightarrow> scheduler \<Rightarrow> go_error option \<times> scheduler" where
  "PushTask task s =
    (case try_send task (taskChan s) of
       Some ch \<Rightarrow> (None, s\<lparr>taskChan := ch\<rparr>)
     | None \<Rightarrow> (Some ErrChanFull, s))"

definition handleServerReq ::
  "env \<Rightarrow> conn_ref \<Rightarrow> pb_msg \<Rightarrow> scheduler \<Rightarrow> (go_error option, scheduler) res" where
  "handleServerReq E ref req s =
    (let seqId = nextID s + 1; s1 = s\<lparr>nextID := seqId\<rparr> in
     case req of
       MAssignTaskRequest r \<Rightarrow> reply E ref \<lparr>Uri = RayAssignTask, SeqId = seqId\<rparr> (MAssignTaskRequest r) s1
     | _ \<Rightarrow> Ok None s1)"

text \<open>The request \<^verbatim>\<open>AssignTask\<close> builds: it copies the id, the function and the arguments only.\<close>

definition assign_request :: "Task \<Rightarrow> AssignTaskRequest" where
  "assign_request task =
    \<lparr>AssignTaskRequest_TaskId = ID task, AssignTaskRequest_FuncName = FuncName task,
     AssignTaskRequest_Args = Args task, AssignTaskRequest_Dependencies = [],
     AssignTaskRequest_ArgsType = []\<rparr>"

text \<open>\<open>order\<close> is the order in which \<^verbatim>\<open>range s.workerConns\<close> visits the keys of the map.\<close>

fun assign_loop :: "env \<Rightarrow> Task \<Rightarrow> string list \<Rightarrow> scheduler \<Rightarrow> (go_error option, scheduler) res" where
  "assign_loop E task [] s = Ok None s"
| "assign_loop E task (k # order) s =
    (case workerConns s k of
       None \<Rightarrow> assign_loop E task order s
     | Some ref \<Rightarrow>
         bind_res
           (handleServerReq E ref (MAssignTaskRequest (assign_request task))
              (s\<lparr>pendingTasks := (pendingTasks s)(ID task \<mapsto> task)\<rparr>))
           (\<lambda>err s1. assign_loop E task order s1))"

definition AssignTask :: "env \<Rightarrow> string list \<Rightarrow> scheduler \<Rightarrow> (go_error option, scheduler) res" where
  "AssignTask E order s =
    (case try_recv (taskChan s) of
       None \<Rightarrow> Ok (Some ErrChanEmpty) s
     | Some (task, ch) \<Rightarrow> assign_loop E task order (s\<lparr>taskChan := ch\<rparr>))"

text \<open>One round of \<^verbatim>\<open>Loop\<close>, before its sleep.\<close>

definition scheduler_Loop_round :: "env \<Rightarrow> string list \<Rightarrow> scheduler \<Rightarrow> (unit, scheduler) res" where
  "scheduler_Loop_round E order s =
    (if 0 < chan_len (taskChan s)
     then bind_res (AssignTask E order s) (\<lambda>err s1. Ok () s1)
     else Ok () s)"

definition scheduler_onEstablish ::
  "env \<Rightarrow> conn_ref \<Rightarrow> Header \<Rightarrow> EstablishReq \<Rightarrow> scheduler \<Rightarrow> (go_error option, scheduler) res" where
  "scheduler_onEstablish E ref h req s =
    (let s1 = ref_SetEstablished ref s;
         resp = \<lparr>EstablishResponse_Mode = ModeScheduler, EstablishResponse_Err = ''OK''\<rparr>;
         ack = \<lparr>Uri = MetaEstablishAck, SeqId = SeqId h\<rparr>
     in reply E ref ack (MEstablishResponse resp) s1)"

definition scheduler_onEstablishAck ::
  "conn_ref \<Rightarrow> EstablishResponse \<Rightarrow> scheduler \<Rightarrow> (go_error option, scheduler) res" where
  "scheduler_onEstablishAck ref resp s =
    (let s1 =
       (if EstablishResponse_Mode resp = ModeWorker
        then s\<lparr>workerConns := (workerConns s)(ref_Remote ref s \<mapsto> ref)\<rparr>
        else if EstablishResponse_Mode resp = ModeGCS
        then s\<lparr>gcsConns := (gcsConns s)(ref_Remote ref s \<mapsto> ref)\<rparr>
        else s)
     in Ok None (ref_NotifyEstablish ref s1))"

definition onAssignTaskResp ::
  "AssignTaskResponse \<Rightarrow> scheduler \<Rightarrow> (go_error option, scheduler) res" where
  "onAssignTaskResp resp s =
    (let k = AssignTaskResponse_TaskId resp in
     if AssignTaskResponse_Accepted resp then Ok None (s\<lparr>pendingTasks := (pendingTasks s)(k := None)\<rparr>)
     else case pendingTasks s k of
       None \<Rightarrow> Ok (Some ErrTaskNotFound) s
     | Some task \<Rightarrow> Ok None (snd (PushTask task (s\<lparr>pendingTasks := (pendingTasks s)(k := None)\<rparr>))))"

definition scheduler_OnPacket :: "env \<Rightarrow> conn_ref \<Rightarrow> scheduler handler" where
  "scheduler_OnPacket E ref h msg s =
    (if Uri h = MetaEstablish then
       (case as_EstablishReq msg of
          None \<Rightarrow> Panic NilDeref s | Some req \<Rightarrow> scheduler_onEstablish E ref h req s)
     else if Uri h = MetaEstablishAck then
       (case as_EstablishResponse msg of
          None \<Rightarrow> Panic NilDeref s | Some resp \<Rightarrow> scheduler_onEstablishAck ref resp s)
     else if Uri h = MetaShakeHand then Ok None s
     else if Uri h = RayAssignTaskResp then
       (case as_AssignTaskResponse msg of
          None \<Rightarrow> Panic NilDeref s | Some resp \<Rightarrow> onAssignTaskResp resp s)
     else Ok None s)"

definition scheduler_HandlePacket :: "env \<Rightarrow> conn_ref \<Rightarrow> scheduler handler" where
  "scheduler_HandlePacket E ref h msg s = scheduler_OnPacket E ref h msg s"

definition scheduler_OnOpen :: "nat \<Rightarrow> string option \<Rightarrow> scheduler \<Rightarrow> conn_ref \<times> scheduler" where
  "scheduler_OnOpen g remoteAddr s = cm_OnOpen g remoteAddr s"

definition scheduler_OnClose :: "conn_ref gnet_ctx \<Rightarrow> scheduler \<Rightarrow> scheduler" where
  "scheduler_OnClose ctx s = cm_OnClose ctx s"

definition scheduler_OnTraffic ::
  "'c gnet_ops \<Rightarrow> env \<Rightarrow> conn_ref gnet_ctx \<Rightarrow> 'c \<Rightarrow> scheduler
     \<Rightarrow> ((gnet_action, scheduler) res \<times> 'c) option" where
  "scheduler_OnTraffic ops E ctx c s = cm_OnTraffic ops E (scheduler_OnPacket E) ctx c s"

definition scheduler_AddConnection :: "bool \<Rightarrow> string \<Rightarrow> scheduler \<Rightarrow> conn_ref \<times> scheduler" where
  "scheduler_AddConnection ctx_done addr s =
    (let i = nextID s + 1; a = fresh s;
         conn = client_Start (NewConnection ctx_done i addr (Some scheduler_GetMode) [WithDialTimeout ShakeHandTimeout])
     in (OutConn a, s\<lparr>nextID := i, fresh := a + 1, outb := (outb s)(a := conn)\<rparr>))"

lemma scheduler_AddConnection_eq [simp]: "scheduler_AddConnection ctx_done addr s = cm_AddConnection scheduler_GetMode ctx_done addr s"
  by (simp add: scheduler_AddConnection_def cm_AddConnection_def)

definition scheduler_Connect :: "bool \<Rightarrow> string \<Rightarrow> scheduler \<Rightarrow> conn_ref \<times> scheduler" where
  "scheduler_Connect ctx_done addr s = scheduler_AddConnection ctx_done addr s"

definition scheduler_Ontick :: "env \<Rightarrow> any_key list \<Rightarrow> scheduler \<Rightarrow> (unit, scheduler) res" where
  "scheduler_Ontick E order s = node_Ontick E order s"

text \<open>\<^verbatim>\<open>OnBoot\<close> only logs.\<close>

definition scheduler_OnBoot :: "scheduler \<Rightarrow> gnet_action \<times> scheduler" where
  "scheduler_OnBoot s = (ActNone, s)"

definition scheduler_Start :: "scheduler \<Rightarrow> scheduler" where
  "scheduler_Start s = node_Start s"

section \<open>Invariant\<close>

text \<open>
  The connection table is well-formed, the queue is within its capacity, a pending task is filed
  under its own id, and a worker connection is an allocated one filed under its remote address.
\<close>

fun ref_alloc :: "conn_ref \<Rightarrow> 'a node_scheme \<Rightarrow> bool" where
  "ref_alloc (InConn a) s = (a < fresh s)"
| "ref_alloc (OutConn a) s = (a < fresh s)"

definition scheduler_inv :: "scheduler \<Rightarrow> bool" where
  "scheduler_inv s \<longleftrightarrow>
     node_inv s \<and>
     length (buf (taskChan s)) \<le> chan_slots (taskChan s) \<and>
     (\<forall>k t. pendingTasks s k = Some t \<longrightarrow> ID t = k) \<and>
     (\<forall>k ref. workerConns s k = Some ref \<longrightarrow> ref_Remote ref s = k \<and> ref_alloc ref s)"

lemma ref_Send_scheduler [simp]:
  "workerConns (res_state (ref_Send E ref p (s :: scheduler))) = workerConns s"
  "gcsConns (res_state (ref_Send E ref p s)) = gcsConns s"
  "taskChan (res_state (ref_Send E ref p s)) = taskChan s"
  "pendingTasks (res_state (ref_Send E ref p s)) = pendingTasks s"
  by (cases ref; simp add: set_inb_def set_outb_def)+

lemma reply_scheduler [simp]:
  "workerConns (res_state (reply E ref h m (s :: scheduler))) = workerConns s"
  "gcsConns (res_state (reply E ref h m s)) = gcsConns s"
  "taskChan (res_state (reply E ref h m s)) = taskChan s"
  "pendingTasks (res_state (reply E ref h m s)) = pendingTasks s"
  by (simp_all add: reply_def split: sum.split)

lemma ref_Remote_Send [simp]:
  "ref_Remote ref' (res_state (ref_Send E ref p s)) = ref_Remote ref' s"
  "ref_alloc ref' (res_state (ref_Send E ref p s)) = ref_alloc ref' s"
  by (cases ref'; simp add: ref_Send_ident ref_Send_frame)+

lemma ref_Remote_reply [simp]:
  "ref_Remote ref' (res_state (reply E ref h m s)) = ref_Remote ref' s"
  "ref_alloc ref' (res_state (reply E ref h m s)) = ref_alloc ref' s"
  by (simp_all add: reply_def split: sum.split)

lemma ref_flags_scheduler [simp]:
  "workerConns (ref_SetEstablished ref (s :: scheduler)) = workerConns s"
  "taskChan (ref_SetEstablished ref s) = taskChan s"
  "pendingTasks (ref_SetEstablished ref s) = pendingTasks s"
  "workerConns (ref_NotifyEstablish ref s) = workerConns s"
  "taskChan (ref_NotifyEstablish ref s) = taskChan s"
  "pendingTasks (ref_NotifyEstablish ref s) = pendingTasks s"
  by (cases ref; simp add: set_inb_def set_outb_def)+

lemma ref_Remote_flags [simp]:
  "ref_Remote ref' (ref_SetEstablished ref s) = ref_Remote ref' s"
  "ref_Remote ref' (ref_NotifyEstablish ref s) = ref_Remote ref' s"
  "ref_alloc ref' (ref_SetEstablished ref s) = ref_alloc ref' s"
  "ref_alloc ref' (ref_NotifyEstablish ref s) = ref_alloc ref' s"
  by (cases ref; cases ref'; simp add: connection_SetEstablished_def client_SetEstablished_def
      connection_NotifyEstablish_def client_NotifyEstablish_def split: option.split)+

lemma ref_Remote_fields [simp]:
  "ref_Remote ref (s\<lparr>nextID := i\<rparr>) = ref_Remote ref s"
  "ref_Remote ref ((t :: scheduler)\<lparr>workerConns := w\<rparr>) = ref_Remote ref t"
  "ref_Remote ref (t\<lparr>gcsConns := w\<rparr>) = ref_Remote ref t"
  "ref_Remote ref (t\<lparr>taskChan := ch\<rparr>) = ref_Remote ref t"
  "ref_Remote ref (t\<lparr>pendingTasks := p\<rparr>) = ref_Remote ref t"
  "ref_alloc ref (s\<lparr>nextID := i\<rparr>) = ref_alloc ref s"
  "ref_alloc ref (t\<lparr>workerConns := w\<rparr>) = ref_alloc ref t"
  "ref_alloc ref (t\<lparr>gcsConns := w\<rparr>) = ref_alloc ref t"
  "ref_alloc ref (t\<lparr>taskChan := ch\<rparr>) = ref_alloc ref t"
  "ref_alloc ref (t\<lparr>pendingTasks := p\<rparr>) = ref_alloc ref t"
  by (cases ref; simp)+

lemma node_inv_fields [simp]:
  "node_inv (s\<lparr>nextID := i\<rparr>) = node_inv s"
  "node_inv ((t :: scheduler)\<lparr>workerConns := w\<rparr>) = node_inv t"
  "node_inv (t\<lparr>gcsConns := w\<rparr>) = node_inv t"
  "node_inv (t\<lparr>taskChan := ch\<rparr>) = node_inv t"
  "node_inv (t\<lparr>pendingTasks := p\<rparr>) = node_inv t"
  by (simp_all add: node_inv_def)

lemma scheduler_inv_reply:
  "scheduler_inv s \<Longrightarrow> scheduler_inv (res_state (reply E ref h m s))"
  by (simp add: scheduler_inv_def reply_inv)

lemma PushTask_inv: "scheduler_inv s \<Longrightarrow> scheduler_inv (snd (PushTask task s))"
  using chq.push_within [of task "taskChan s"]
  by (auto simp: scheduler_inv_def PushTask_def split: option.split)

lemma handleServerReq_inv:
  "scheduler_inv s \<Longrightarrow> scheduler_inv (res_state (handleServerReq E ref req s))"
proof -
  assume "scheduler_inv s"
  then have s1: "scheduler_inv (s\<lparr>nextID := nextID s + 1\<rparr>)" by (simp add: scheduler_inv_def)
  show ?thesis
    by (cases req) (simp_all add: handleServerReq_def Let_def s1 scheduler_inv_reply [OF s1])
qed

lemma assign_loop_inv:
  "scheduler_inv s \<Longrightarrow> scheduler_inv (res_state (assign_loop E task order s))"
proof (induction order arbitrary: s)
  case Nil
  then show ?case by simp
next
  case (Cons k order)
  show ?case
  proof (cases "workerConns s k")
    case None
    then show ?thesis using Cons by simp
  next
    case (Some ref)
    have s1: "scheduler_inv (s\<lparr>pendingTasks := (pendingTasks s)(ID task \<mapsto> task)\<rparr>)"
      using Cons.prems by (auto simp: scheduler_inv_def)
    let ?r = "handleServerReq E ref (MAssignTaskRequest (assign_request task))
      (s\<lparr>pendingTasks := (pendingTasks s)(ID task \<mapsto> task)\<rparr>)"
    have "scheduler_inv (res_state ?r)" by (rule handleServerReq_inv [OF s1])
    then show ?thesis
      using Cons.IH Some by (cases ?r) simp_all
  qed
qed

lemma AssignTask_inv: "scheduler_inv s \<Longrightarrow> scheduler_inv (res_state (AssignTask E order s))"
proof -
  assume inv: "scheduler_inv s"
  have "scheduler_inv (s\<lparr>taskChan := ch\<rparr>)" if "try_recv (taskChan s) = Some (task, ch)" for task ch
    using inv chq.pop_within [OF that] by (simp add: scheduler_inv_def)
  then show ?thesis
    using inv by (auto simp: AssignTask_def assign_loop_inv split: option.split)
qed

lemma scheduler_OnPacket_inv:
  assumes inv: "scheduler_inv s" and ref: "ref_alloc ref s"
  shows "scheduler_inv (res_state (scheduler_OnPacket E ref h m s))
    \<and> ref_alloc ref (res_state (scheduler_OnPacket E ref h m s))"
proof -
  have "scheduler_inv (res_state (scheduler_onEstablish E ref h req s))
      \<and> ref_alloc ref (res_state (scheduler_onEstablish E ref h req s))" for req
  proof -
    have "scheduler_inv (ref_SetEstablished ref s)"
      using inv by (simp add: scheduler_inv_def ref_SetEstablished_inv)
    then show ?thesis
      using ref by (simp add: scheduler_onEstablish_def Let_def scheduler_inv_reply)
  qed
  moreover have "scheduler_inv (res_state (scheduler_onEstablishAck ref resp s))
      \<and> ref_alloc ref (res_state (scheduler_onEstablishAck ref resp s))" for resp
    using inv ref
    by (auto simp: scheduler_onEstablishAck_def Let_def scheduler_inv_def ref_NotifyEstablish_inv)
  moreover have "scheduler_inv (res_state (onAssignTaskResp resp s))
      \<and> ref_alloc ref (res_state (onAssignTaskResp resp s))" for resp
  proof -
    have p: "scheduler_inv (s\<lparr>pendingTasks := (pendingTasks s)(k := None)\<rparr>)" for k
      using inv by (auto simp: scheduler_inv_def)
    have q: "ref_alloc ref (snd (PushTask t s')) = ref_alloc ref s'" for t s'
      by (simp add: PushTask_def split: option.split)
    show ?thesis
      using inv ref p PushTask_inv [OF p]
      by (simp add: onAssignTaskResp_def Let_def q split: option.split)
  qed
  ultimately show ?thesis
    using inv ref by (simp add: scheduler_OnPacket_def split: option.split)
qed

interpretation schedh: packet_handler "scheduler_OnPacket E ref" "\<lambda>s. scheduler_inv s \<and> ref_alloc ref s"
  for E ref
  by unfold_locales (use scheduler_OnPacket_inv in blast)

section \<open>The queue\<close>

fun PushTasks :: "Task list \<Rightarrow> scheduler \<Rightarrow> go_error option list \<times> scheduler" where
  "PushTasks [] s = ([], s)"
| "PushTasks (t # ts) s =
    (case PushTask t s of (err, s1) \<Rightarrow> case PushTasks ts s1 of (errs, s2) \<Rightarrow> (err # errs, s2))"

text \<open>
  The task queue is a bounded first-in first-out buffer that never blocks. A burst of
  \<^verbatim>\<open>PushTask\<close> calls appends, in order, exactly as many tasks as there are free slots; every
  later call is refused with "task channel is full" and changes nothing.
\<close>

theorem PushTasks_bounded:
  "PushTasks ts s =
    (let room = chan_slots (taskChan s) - length (buf (taskChan s)) in
     (replicate (min (length ts) room) None @ replicate (length ts - room) (Some ErrChanFull),
      s\<lparr>taskChan := (taskChan s)\<lparr>buf := buf (taskChan s) @ take room ts\<rparr>\<rparr>))"
proof (induction ts arbitrary: s)
  case Nil
  then show ?case by simp
next
  case (Cons t ts)
  show ?case
  proof (cases "length (buf (taskChan s)) < chan_slots (taskChan s)")
    case True
    then obtain n where n: "chan_slots (taskChan s) - length (buf (taskChan s)) = Suc n"
      "chan_slots (taskChan s) - Suc (length (buf (taskChan s))) = n"
      by (metis Suc_diff_Suc)
    with True show ?thesis
      by (simp add: PushTask_def try_send_def chan_slots_def Cons Let_def)
  next
    case False
    then have z: "chan_slots (taskChan s) - length (buf (taskChan s)) = 0" by simp
    have "PushTask t s = (Some ErrChanFull, s)"
      using False by (simp add: PushTask_def try_send_def chan_slots_def)
    then show ?thesis using z by (simp add: Cons Let_def)
  qed
qed

section \<open>Assignment\<close>

lemma handleServerReq_live:
  assumes ok: "transports_ok E" and live: "ref_live ref s"
    and rt: "pb_roundtrips E (MAssignTaskRequest r) body"
  obtains s' where "handleServerReq E ref (MAssignTaskRequest r) s = Ok None s'"
    and "ref_stream ref s' = ref_stream ref s
      @ wire_frame \<lparr>Uri = RayAssignTask, SeqId = nextID s + 1\<rparr> body"
    and "\<And>r. ref_live r s' = ref_live r s"
    and "\<And>r. r \<noteq> ref \<Longrightarrow> ref_stream r s' = ref_stream r s"
    and "nextID s' = nextID s + 1" and "workerConns s' = workerConns s"
    and "taskChan s' = taskChan s" and "pendingTasks s' = pendingTasks s"
proof -
  let ?s1 = "s\<lparr>nextID := nextID s + 1\<rparr>"
  have same: "ref_live r ?s1 = ref_live r s" "ref_stream r ?s1 = ref_stream r s" for r
    by (cases r; simp)+
  from reply_live [OF ok, of ref ?s1 "MAssignTaskRequest r" body "\<lparr>Uri = RayAssignTask, SeqId = nextID s + 1\<rparr>"]
  obtain s' where s': "reply E ref \<lparr>Uri = RayAssignTask, SeqId = nextID s + 1\<rparr> (MAssignTaskRequest r) ?s1 = Ok None s'"
    "ref_stream ref s' = ref_stream ref s @ wire_frame \<lparr>Uri = RayAssignTask, SeqId = nextID s + 1\<rparr> body"
    "\<And>r. ref_live r s' = ref_live r s" "\<And>r. r \<noteq> ref \<Longrightarrow> ref_stream r s' = ref_stream r s"
    using live rt same by metis
  have "workerConns s' = workerConns s" "taskChan s' = taskChan s" "pendingTasks s' = pendingTasks s"
    using reply_scheduler [of E ref "\<lparr>Uri = RayAssignTask, SeqId = nextID s + 1\<rparr>" "MAssignTaskRequest r" ?s1] s'(1)
    by simp_all
  moreover have "nextID s' = nextID s + 1"
    using reply_frame(4) [of E ref "\<lparr>Uri = RayAssignTask, SeqId = nextID s + 1\<rparr>" "MAssignTaskRequest r" ?s1] s'(1)
    by simp
  ultimately show thesis
    using s' that by (simp add: handleServerReq_def Let_def)
qed

lemma pending_upd_live [simp]:
  "ref_live r ((s :: scheduler)\<lparr>pendingTasks := p\<rparr>) = ref_live r s"
  "ref_stream r (s\<lparr>pendingTasks := p\<rparr>) = ref_stream r s"
  "ref_live r (s\<lparr>taskChan := ch\<rparr>) = ref_live r s"
  "ref_stream r (s\<lparr>taskChan := ch\<rparr>) = ref_stream r s"
  by (cases r; simp)+

lemma assign_loop_broadcast:
  assumes ok: "transports_ok E" and rt: "pb_roundtrips E (MAssignTaskRequest (assign_request task)) body"
    and dist: "distinct (map (workerConns s) order)" and dom: "set order \<subseteq> dom (workerConns s)"
    and live: "\<And>k ref. workerConns s k = Some ref \<Longrightarrow> ref_live ref s"
  shows "\<exists>s'. assign_loop E task order s = Ok None s' \<and> taskChan s' = taskChan s
    \<and> workerConns s' = workerConns s
    \<and> pendingTasks s' = (if order = [] then pendingTasks s else (pendingTasks s)(ID task \<mapsto> task))
    \<and> (\<forall>i ref. i < length order \<longrightarrow> workerConns s (order ! i) = Some ref \<longrightarrow>
         ref_stream ref s' = ref_stream ref s
           @ wire_frame \<lparr>Uri = RayAssignTask, SeqId = nextID s + 1 + word_of_nat i\<rparr> body)
    \<and> (\<forall>r. Some r \<notin> workerConns s ` set order \<longrightarrow> ref_stream r s' = ref_stream r s)"
  using dist dom live
proof (induction order arbitrary: s)
  case Nil
  then show ?case by simp
next
  case (Cons k order)
  then obtain ref where ref: "workerConns s k = Some ref" by auto
  let ?s0 = "s\<lparr>pendingTasks := (pendingTasks s)(ID task \<mapsto> task)\<rparr>"
  have live0: "ref_live ref ?s0" using Cons.prems(3) [OF ref] by simp
  obtain s1 where
    s1: "handleServerReq E ref (MAssignTaskRequest (assign_request task)) ?s0 = Ok None s1"
    and h: "ref_stream ref s1 = ref_stream ref ?s0
      @ wire_frame \<lparr>Uri = RayAssignTask, SeqId = nextID ?s0 + 1\<rparr> body"
      "\<And>r. ref_live r s1 = ref_live r ?s0" "\<And>r. r \<noteq> ref \<Longrightarrow> ref_stream r s1 = ref_stream r ?s0"
      "nextID s1 = nextID ?s0 + 1" "workerConns s1 = workerConns ?s0" "taskChan s1 = taskChan ?s0"
      "pendingTasks s1 = pendingTasks ?s0"
    by (rule handleServerReq_live [OF ok live0 rt]) blast
  have grown: "ref_stream ref s1 = ref_stream ref s
      @ wire_frame \<lparr>Uri = RayAssignTask, SeqId = nextID s + 1\<rparr> body"
    and live1: "\<And>r. ref_live r s1 = ref_live r s"
    and other: "\<And>r. r \<noteq> ref \<Longrightarrow> ref_stream r s1 = ref_stream r s"
    and same: "nextID s1 = nextID s + 1" "workerConns s1 = workerConns s" "taskChan s1 = taskChan s"
      "pendingTasks s1 = (pendingTasks s)(ID task \<mapsto> task)"
    using h by simp_all
  have "distinct (map (workerConns s1) order)" "set order \<subseteq> dom (workerConns s1)"
    using Cons.prems(1,2) same by simp_all
  moreover have "workerConns s1 k' = Some r \<Longrightarrow> ref_live r s1" for k' r
    using Cons.prems(3) same live1 by simp
  ultimately obtain s' where s': "assign_loop E task order s1 = Ok None s'" "taskChan s' = taskChan s1"
    "workerConns s' = workerConns s1"
    "pendingTasks s' = (if order = [] then pendingTasks s1 else (pendingTasks s1)(ID task \<mapsto> task))"
    "\<forall>i ref. i < length order \<longrightarrow> workerConns s1 (order ! i) = Some ref \<longrightarrow>
         ref_stream ref s' = ref_stream ref s1
           @ wire_frame \<lparr>Uri = RayAssignTask, SeqId = nextID s1 + 1 + word_of_nat i\<rparr> body"
    "\<forall>r. Some r \<notin> workerConns s1 ` set order \<longrightarrow> ref_stream r s' = ref_stream r s1"
    using Cons.IH [of s1] by blast
  have fresh_ref: "Some ref \<notin> workerConns s ` set order"
    using Cons.prems(1) ref by auto
  have "ref_stream r s' = ref_stream r s
      @ wire_frame \<lparr>Uri = RayAssignTask, SeqId = nextID s + 1 + word_of_nat i\<rparr> body"
    if i: "i < length (k # order)" and r: "workerConns s ((k # order) ! i) = Some r" for i r
  proof (cases i)
    case 0
    then show ?thesis using r ref s'(6) fresh_ref grown same by simp
  next
    case (Suc j)
    then have "order ! j \<in> set order" "workerConns s (order ! j) = Some r" using i r by simp_all
    then have "Some r \<in> workerConns s ` set order" by (metis image_eqI)
    then have "r \<noteq> ref" using fresh_ref by auto
    then show ?thesis using s'(5) i r Suc other same by (simp add: algebra_simps)
  qed
  moreover have "ref_stream r s' = ref_stream r s" if "Some r \<notin> workerConns s ` set (k # order)" for r
    using that s'(6) other [of r] same ref by auto
  ultimately show ?case
    using ref s1 s'(1-4) same by (intro exI [of _ s'] conjI allI impI) (simp_all add: fun_eq_iff)
qed

lemma workerConns_inj:
  assumes "scheduler_inv s" and "distinct order" and "set order \<subseteq> dom (workerConns s)"
  shows "distinct (map (workerConns s) order)"
proof -
  have "inj_on (workerConns s) (set order)"
  proof (rule inj_onI)
    fix k k'
    assume "k \<in> set order" "k' \<in> set order" and eq: "workerConns s k = workerConns s k'"
    then obtain ref where "workerConns s k = Some ref" using assms(3) by auto
    moreover from this eq have "workerConns s k' = Some ref" by simp
    ultimately have "ref_Remote ref s = k" "ref_Remote ref s = k'"
      using assms(1) unfolding scheduler_inv_def by blast+
    then show "k = k'" by simp
  qed
  then show ?thesis using assms(2) by (simp add: distinct_map)
qed

text \<open>
  C21. Assignment is a broadcast. When no transport fails and every registered worker connection
  is live, \<^verbatim>\<open>AssignTask\<close> takes the oldest task and sends each registered worker exactly one
  frame, numbered by the order of the visit, which decodes to the request for this task; no other
  connection is written to, and the task is pending once at least one worker was registered. The
  request carries the id, the function and the arguments, never the argument types.
\<close>

theorem AssignTask_broadcast:
  assumes inv: "scheduler_inv s" and queue: "buf (taskChan s) = task # rest"
    and dist: "distinct order" and dom: "set order = dom (workerConns s)"
    and live: "\<forall>ref \<in> ran (workerConns s). ref_live ref s"
    and ok: "transports_ok E"
    and rt: "pb_roundtrips E (MAssignTaskRequest (assign_request task)) body"
    and len: "length body < 2 ^ 32 - 10"
  shows "\<exists>s'. AssignTask E order s = Ok None s' \<and> buf (taskChan s') = rest
    \<and> pendingTasks s' = (if order = [] then pendingTasks s else (pendingTasks s)(ID task \<mapsto> task))
    \<and> (\<forall>i ref. i < length order \<longrightarrow> workerConns s (order ! i) = Some ref \<longrightarrow>
        (let h = \<lparr>Uri = RayAssignTask, SeqId = nextID s + 1 + word_of_nat i\<rparr> in
         ref_stream ref s' = ref_stream ref s @ wire_frame h body \<and>
         decode_bytes E (wire_frame h body) = (Inr (h, MAssignTaskRequest (assign_request task)), [])))
    \<and> (\<forall>r. r \<notin> ran (workerConns s) \<longrightarrow> ref_stream r s' = ref_stream r s)"
proof -
  let ?q = "s\<lparr>taskChan := (taskChan s)\<lparr>buf := rest\<rparr>\<rparr>"
  have pop: "AssignTask E order s = assign_loop E task order ?q"
    using queue by (simp add: AssignTask_def try_recv_def)
  have d: "distinct (map (workerConns ?q) order)" "set order \<subseteq> dom (workerConns ?q)"
    using workerConns_inj [OF inv dist] dom by simp_all
  have l: "workerConns ?q k = Some ref \<Longrightarrow> ref_live ref ?q" for k ref
    using live by (auto simp: ran_def)
  have "\<exists>s'. assign_loop E task order ?q = Ok None s' \<and> taskChan s' = taskChan ?q
    \<and> workerConns s' = workerConns ?q
    \<and> pendingTasks s' = (if order = [] then pendingTasks ?q else (pendingTasks ?q)(ID task \<mapsto> task))
    \<and> (\<forall>i ref. i < length order \<longrightarrow> workerConns ?q (order ! i) = Some ref \<longrightarrow>
         ref_stream ref s' = ref_stream ref ?q
           @ wire_frame \<lparr>Uri = RayAssignTask, SeqId = nextID ?q + 1 + word_of_nat i\<rparr> body)
    \<and> (\<forall>r. Some r \<notin> workerConns ?q ` set order \<longrightarrow> ref_stream r s' = ref_stream r ?q)"
    by (rule assign_loop_broadcast [OF ok rt d l])
  then obtain s' where
    s': "assign_loop E task order ?q = Ok None s'" "taskChan s' = taskChan ?q"
      "pendingTasks s' = (if order = [] then pendingTasks s else (pendingTasks s)(ID task \<mapsto> task))"
      "\<forall>i ref. i < length order \<longrightarrow> workerConns s (order ! i) = Some ref \<longrightarrow>
         ref_stream ref s' = ref_stream ref s
           @ wire_frame \<lparr>Uri = RayAssignTask, SeqId = nextID s + 1 + word_of_nat i\<rparr> body"
      "\<forall>r. Some r \<notin> workerConns s ` set order \<longrightarrow> ref_stream r s' = ref_stream r s"
    by auto
  have "decode_bytes E (wire_frame h body) = (Inr (h, MAssignTaskRequest (assign_request task)), [])"
    if "Uri h = RayAssignTask" for h
  proof -
    have "unmarshalByURI E (Uri h) body = Inr (MAssignTaskRequest (assign_request task))"
      by (rule unmarshalByURI_roundtrip [OF rt]) (simp add: that uri_kind_def uri_table_def const_defs)
    then show ?thesis using decode_bytes_wire_frame [OF len, of E h "[]"] by simp
  qed
  moreover have "Some r \<notin> workerConns s ` set order" if "r \<notin> ran (workerConns s)" for r
    using that by (auto simp: ran_def)
  ultimately show ?thesis
    using pop s' by (intro exI [of _ s']) (simp add: Let_def)
qed

definition sample_task :: Task where
  "sample_task = \<lparr>ID = ''t1'', FuncName = TaskFuncAddTowInt, Args = [PutUint64 1, PutUint64 2],
     ArgsType = [''int'', ''int''], Dependencies = []\<rparr>"

definition sample_worker_conn :: "uint64 \<Rightarrow> string \<Rightarrow> client" where
  "sample_worker_conn i addr =
    (NewConnection False i addr (Some ModeScheduler) [])\<lparr>cl_established := True, rawConn := Some (unat i)\<rparr>"

definition sample_scheduler :: scheduler where
  "sample_scheduler =
    \<lparr>started = True, listenAddr = [], advertiseAddr = [], options = zero_options,
     nextID = 2, conns = (\<lambda>_. None), inb = (\<lambda>_. newConnection 0 [] None),
     outb = (\<lambda>_. sample_worker_conn 2 ''w2'')(0 := sample_worker_conn 1 ''w1''), fresh = 2,
     workerConns = [''w1'' \<mapsto> OutConn 0, ''w2'' \<mapsto> OutConn 1], gcsConns = (\<lambda>_. None),
     taskChan = \<lparr>cap = 1, buf = [sample_task], parked = 0\<rparr>, pendingTasks = (\<lambda>_. None)\<rparr>"

lemmas sample_scheduler_simps =
  sample_scheduler_def sample_worker_conn_def NewConnection_def newConnection_def

lemma sample_scheduler_inv: "scheduler_inv sample_scheduler"
  by (simp add: scheduler_inv_def node_inv_def sample_scheduler_simps chan_slots_def)

lemma transports_ok_table_env: "transports_ok (table_env t)"
  by (simp add: transports_ok_def writer_ok_def)

lemma AssignTask_broadcast_witness:
  "\<exists>s'. AssignTask (table_env [(MAssignTaskRequest (assign_request sample_task), [7])]) [''w2'', ''w1'']
      sample_scheduler = Ok None s'
    \<and> ref_stream (OutConn 0) s' = wire_frame \<lparr>Uri = RayAssignTask, SeqId = 4\<rparr> [7]
    \<and> pendingTasks s' ''t1'' = Some sample_task"
proof -
  let ?E = "table_env [(MAssignTaskRequest (assign_request sample_task), [7])]"
  have queue: "buf (taskChan sample_scheduler) = sample_task # []"
    by (simp add: sample_scheduler_def)
  have dom: "set [''w2'', ''w1''] = dom (workerConns sample_scheduler)"
    by (auto simp: sample_scheduler_def)
  have live: "\<forall>ref \<in> ran (workerConns sample_scheduler). ref_live ref sample_scheduler"
    by (auto simp: sample_scheduler_simps ran_def split: if_splits)
  have rt: "pb_roundtrips ?E (MAssignTaskRequest (assign_request sample_task)) [7]"
    by (simp add: pb_roundtrips_def)
  have d: "distinct [''w2'', ''w1'']" and l: "length [7 :: byte] < 2 ^ 32 - 10" by simp_all
  have w: "workerConns sample_scheduler ([''w2'', ''w1''] ! 1) = Some (OutConn 0)"
    by (simp add: sample_scheduler_def)
  from AssignTask_broadcast [OF sample_scheduler_inv queue d dom live transports_ok_table_env rt l]
  obtain s' where s': "AssignTask ?E [''w2'', ''w1''] sample_scheduler = Ok None s'"
    "pendingTasks s' = (pendingTasks sample_scheduler)(ID sample_task \<mapsto> sample_task)"
    and sent: "\<And>i ref. i < 2 \<Longrightarrow> workerConns sample_scheduler ([''w2'', ''w1''] ! i) = Some ref \<Longrightarrow>
      ref_stream ref s' = ref_stream ref sample_scheduler
       @ wire_frame \<lparr>Uri = RayAssignTask, SeqId = nextID sample_scheduler + 1 + word_of_nat i\<rparr> [7]"
    by (auto simp: Let_def)
  from sent [OF _ w] s' show ?thesis
    by (intro exI [of _ s']) (simp add: sample_scheduler_simps sample_task_def)
qed

text \<open>
  Without a registered worker the scheduler throws tasks away: each round of \<^verbatim>\<open>Loop\<close> takes
  the oldest task, sends it to nobody, does not note it as pending and reports no error, so after
  as many rounds as tasks are queued the queue is empty and nothing else has changed.
\<close>

theorem Loop_drops_without_workers:
  assumes "workerConns s = Map.empty"
  shows "((\<lambda>s. res_state (scheduler_Loop_round E order s)) ^^ n) s
    = s\<lparr>taskChan := (taskChan s)\<lparr>buf := drop n (buf (taskChan s))\<rparr>\<rparr>"
proof (induction n)
  case 0
  then show ?case by simp
next
  case (Suc n)
  let ?s = "s\<lparr>taskChan := (taskChan s)\<lparr>buf := drop n (buf (taskChan s))\<rparr>\<rparr>"
  have none: "assign_loop E task order s' = Ok None s'" if "workerConns s' = Map.empty" for task s'
    using that by (induction order) simp_all
  have "res_state (scheduler_Loop_round E order ?s)
      = s\<lparr>taskChan := (taskChan s)\<lparr>buf := drop (Suc n) (buf (taskChan s))\<rparr>\<rparr>"
  proof (cases "drop n (buf (taskChan s))")
    case Nil
    then have "drop (Suc n) (buf (taskChan s)) = []" by simp
    with Nil show ?thesis by (simp add: scheduler_Loop_round_def chan_len_def)
  next
    case (Cons t ts)
    then have "drop (Suc n) (buf (taskChan s)) = ts" by (simp add: drop_Suc drop_tl)
    with Cons show ?thesis
      using assms by (simp add: scheduler_Loop_round_def chan_len_def AssignTask_def try_recv_def none)
  qed
  with Suc show ?case by simp
qed

lemma Loop_drops_without_workers_witness:
  "buf (taskChan (((\<lambda>s. res_state (scheduler_Loop_round (table_env []) [] s)) ^^ 1)
      (sample_scheduler\<lparr>workerConns := Map.empty\<rparr>))) = []"
  by (subst Loop_drops_without_workers) (simp_all add: sample_scheduler_def)

section \<open>Answers\<close>

text \<open>The tasks the scheduler still holds: queued, or sent and not answered.\<close>

definition held :: "scheduler \<Rightarrow> Task set" where
  "held s = set (buf (taskChan s)) \<union> ran (pendingTasks s)"

definition rejection :: "string \<Rightarrow> pb_msg" where
  "rejection k = MAssignTaskResponse \<lparr>AssignTaskResponse_Accepted = False,
     AssignTaskResponse_WorkerId = [], AssignTaskResponse_TaskId = k\<rparr>"

lemma rejection_pending:
  assumes "pendingTasks s k = Some task" and "Uri h = RayAssignTaskResp"
  shows "scheduler_OnPacket E ref h (rejection k) s
    = Ok None (snd (PushTask task (s\<lparr>pendingTasks := (pendingTasks s)(k := None)\<rparr>)))"
  using assms by (simp add: scheduler_OnPacket_def rejection_def onAssignTaskResp_def Let_def const_defs)

lemma ran_del:
  assumes "\<forall>k t. m k = Some t \<longrightarrow> f t = k" and "m k = Some t"
  shows "ran (m(k := None)) = ran m - {t}"
  using assms by (auto simp: ran_def split: if_splits) (metis option.inject)

text \<open>
  A rejected task is tried again exactly when the queue has room: then it moves from the
  pending table to the tail of the queue, and the scheduler holds the same tasks as before. A
  second rejection of the same assignment, which the broadcast makes possible, is answered with
  "task not found", an error that makes the read loop close that worker's connection.
\<close>

theorem rejection_requeues:
  assumes inv: "scheduler_inv s" and pend: "pendingTasks s k = Some task"
    and room: "length (buf (taskChan s)) < chan_slots (taskChan s)"
    and uri: "Uri h = RayAssignTaskResp" "Uri h' = RayAssignTaskResp"
  shows "\<exists>s'. scheduler_OnPacket E ref h (rejection k) s = Ok None s'
    \<and> buf (taskChan s') = buf (taskChan s) @ [task] \<and> held s' = held s
    \<and> deliver (scheduler_OnPacket E ref') [(h', rejection k)] s' = Ok ActClose s'"
proof -
  let ?s' = "s\<lparr>pendingTasks := (pendingTasks s)(k := None),
    taskChan := (taskChan s)\<lparr>buf := buf (taskChan s) @ [task]\<rparr>\<rparr>"
  have push: "snd (PushTask task (s\<lparr>pendingTasks := (pendingTasks s)(k := None)\<rparr>)) = ?s'"
    using room by (simp add: PushTask_def try_send_def chan_slots_def)
  have "ran ((pendingTasks s)(k := None)) = ran (pendingTasks s) - {task}"
    using inv pend by (intro ran_del [where f = ID]) (simp_all add: scheduler_inv_def)
  moreover have "task \<in> ran (pendingTasks s)" using pend by (rule ranI)
  ultimately have "held ?s' = held s" by (auto simp: held_def)
  moreover have "deliver (scheduler_OnPacket E ref') [(h', rejection k)] ?s' = Ok ActClose ?s'"
    using uri(2)
    by (simp add: scheduler_OnPacket_def rejection_def onAssignTaskResp_def Let_def const_defs)
  ultimately show ?thesis
    using rejection_pending [OF pend uri(1), of E ref] push by (intro exI [of _ ?s']) simp
qed

definition sample_waiting :: scheduler where
  "sample_waiting = sample_scheduler
     \<lparr>taskChan := \<lparr>cap = 1, buf = [], parked = 0\<rparr>, pendingTasks := [''t1'' \<mapsto> sample_task]\<rparr>"

lemma sample_waiting_inv: "scheduler_inv sample_waiting"
  by (simp add: scheduler_inv_def node_inv_def sample_waiting_def sample_scheduler_simps chan_slots_def
      sample_task_def)

lemma rejection_requeues_witness:
  "\<exists>s'. scheduler_OnPacket (table_env []) (OutConn 0) \<lparr>Uri = RayAssignTaskResp, SeqId = 3\<rparr>
      (rejection ''t1'') sample_waiting = Ok None s'
    \<and> buf (taskChan s') = [sample_task]
    \<and> deliver (scheduler_OnPacket (table_env []) (OutConn 1))
        [(\<lparr>Uri = RayAssignTaskResp, SeqId = 4\<rparr>, rejection ''t1'')] s' = Ok ActClose s'"
proof -
  have "pendingTasks sample_waiting ''t1'' = Some sample_task"
    "length (buf (taskChan sample_waiting)) < chan_slots (taskChan sample_waiting)"
    "buf (taskChan sample_waiting) @ [sample_task] = [sample_task]"
    by (simp_all add: sample_waiting_def chan_slots_def)
  then show ?thesis
    using rejection_requeues [OF sample_waiting_inv, of "''t1''" sample_task
      "\<lparr>Uri = RayAssignTaskResp, SeqId = 3\<rparr>" "\<lparr>Uri = RayAssignTaskResp, SeqId = 4\<rparr>"
      "table_env []" "OutConn 0" "OutConn 1"]
    by (auto simp del: deliver.simps)
qed

text \<open>
  With a full queue a rejected task is lost: the packet is handled without an error, and the
  scheduler holds every other task it held but no longer this one.
\<close>

theorem rejection_full_loses:
  assumes inv: "scheduler_inv s" and pend: "pendingTasks s k = Some task"
    and full: "length (buf (taskChan s)) = chan_slots (taskChan s)"
    and once: "task \<notin> set (buf (taskChan s))" and uri: "Uri h = RayAssignTaskResp"
  shows "\<exists>s'. scheduler_OnPacket E ref h (rejection k) s = Ok None s' \<and> held s' = held s - {task}"
proof -
  let ?s' = "s\<lparr>pendingTasks := (pendingTasks s)(k := None)\<rparr>"
  have push: "snd (PushTask task ?s') = ?s'"
    using full by (simp add: PushTask_def try_send_def chan_slots_def)
  have "ran ((pendingTasks s)(k := None)) = ran (pendingTasks s) - {task}"
    using inv pend by (intro ran_del [where f = ID]) (simp_all add: scheduler_inv_def)
  then have "held ?s' = held s - {task}" using once by (auto simp: held_def)
  then show ?thesis
    using rejection_pending [OF pend uri, of E ref] push by (intro exI [of _ ?s']) simp
qed

lemma rejection_full_loses_witness:
  "\<exists>s'. scheduler_OnPacket (table_env []) (OutConn 0) \<lparr>Uri = RayAssignTaskResp, SeqId = 3\<rparr>
      (rejection ''t1'') (sample_waiting\<lparr>taskChan := \<lparr>cap = 0, buf = [], parked = 0\<rparr>\<rparr>) = Ok None s'
    \<and> held s' = {}"
proof -
  let ?s = "sample_waiting\<lparr>taskChan := \<lparr>cap = 0, buf = [], parked = 0\<rparr>\<rparr>"
  have inv: "scheduler_inv ?s"
    by (simp add: scheduler_inv_def node_inv_def sample_waiting_def sample_scheduler_simps chan_slots_def
        sample_task_def)
  have "held ?s = {sample_task}" by (simp add: held_def sample_waiting_def)
  then show ?thesis
    using rejection_full_loses [OF inv, of "''t1''" sample_task "\<lparr>Uri = RayAssignTaskResp, SeqId = 3\<rparr>"
        "table_env []" "OutConn 0"]
    by (simp add: sample_waiting_def chan_slots_def)
qed

section \<open>Traffic\<close>

text \<open>
  Only answers to assignments touch the tasks: no run of other packets changes the queue or the
  pending table. In particular a task that a driver submits over the network (URI 100) is read
  and dropped; the queue is only fed by calls of \<^verbatim>\<open>PushTask\<close> in the scheduler's own process.
\<close>

theorem other_packets_keep_tasks:
  assumes "\<forall>p \<in> set ps. Uri (fst p) \<noteq> RayAssignTaskResp"
  shows "taskChan (res_state (deliver (scheduler_OnPacket E ref) ps s)) = taskChan s
    \<and> pendingTasks (res_state (deliver (scheduler_OnPacket E ref) ps s)) = pendingTasks s"
  using assms
proof (induction ps arbitrary: s)
  case Nil
  then show ?case by simp
next
  case (Cons p ps)
  let ?r = "scheduler_OnPacket E ref (fst p) (snd p) s"
  have one: "taskChan (res_state ?r) = taskChan s" "pendingTasks (res_state ?r) = pendingTasks s"
    using Cons.prems
    by (auto simp: scheduler_OnPacket_def scheduler_onEstablish_def scheduler_onEstablishAck_def Let_def
        split: option.split)
  have "\<forall>q \<in> set ps. Uri (fst q) \<noteq> RayAssignTaskResp" using Cons.prems by simp
  note rest = Cons.IH [OF this]
  show ?case
    unfolding deliver_Cons using one rest by (cases ?r) simp_all
qed

lemma other_packets_keep_tasks_witness:
  "taskChan (res_state (deliver (scheduler_OnPacket (table_env []) (InConn 0))
      [(\<lparr>Uri = DriverSubmitTask, SeqId = 1\<rparr>, zero_msg KDriverSubmitTaskRequest)] sample_scheduler))
    = taskChan sample_scheduler"
  using other_packets_keep_tasks
    [of "[(\<lparr>Uri = DriverSubmitTask, SeqId = 1\<rparr>, zero_msg KDriverSubmitTaskRequest)]"
      "table_env []" "InConn 0" sample_scheduler]
  by (simp add: const_defs del: deliver.simps)

text \<open>
  The scheduler's invariant survives every batch of bytes: whatever arrives on an allocated
  connection, over every transport and with every protobuf runtime, the queue stays within its
  capacity, pending tasks stay filed under their ids, and worker connections under their remote
  addresses.
\<close>

theorem scheduler_OnTraffic_inv:
  assumes ret: "scheduler_OnTraffic ops E (CtxConn ref) c s = Some (r, c')"
    and inv: "scheduler_inv s" and alloc: "ref_alloc ref s"
  shows "scheduler_inv (res_state r)"
proof (cases "started s")
  case True
  then have "traffic_loop ops E (scheduler_OnPacket E ref) c s = Some (r, c')"
    using ret by (simp add: scheduler_OnTraffic_def cm_OnTraffic_def)
  from schedh.traffic_loop_inv [OF this] inv alloc show ?thesis by simp
next
  case False
  then show ?thesis using ret inv by (auto simp: scheduler_OnTraffic_def cm_OnTraffic_def)
qed

lemma scheduler_OnTraffic_inv_witness:
  "scheduler_inv sample_scheduler \<and>
   scheduler_OnTraffic buf_ops (table_env []) (CtxConn (OutConn 0)) [] sample_scheduler
     = Some (Ok ActNone sample_scheduler, [])"
proof -
  have r: "scheduler_OnTraffic buf_ops (table_env []) (CtxConn (OutConn 0)) [] sample_scheduler
     = Some (Ok ActNone sample_scheduler, [])"
    by (simp add: scheduler_OnTraffic_def cm_OnTraffic_def sample_scheduler_def traffic_loop.simps buf_ops_def)
  have "ref_alloc (OutConn 0) sample_scheduler" by (simp add: sample_scheduler_def)
  from scheduler_OnTraffic_inv [OF r sample_scheduler_inv this] r show ?thesis by simp
qed

end
