(* ===== verification/ArgCodec.thy ===== *)
theory ArgCodec
  imports Prelude
begin

text \<open>
  The byte representation of task arguments and results, \<^verbatim>\<open>core/worker/codec_util.go\<close>: the five
  decoders, the four encoders, and their common contract as the locales \<open>arg_codec\<close> and
  \<open>fixed_arg_codec\<close>.
\<close>

text \<open>
  A \<^verbatim>\<open>float64\<close> is its bit pattern: the code only moves it through \<^verbatim>\<open>math.Float64bits\<close> and
  \<^verbatim>\<open>math.Float64frombits\<close>. A value of type \<^verbatim>\<open>any\<close> remembers its dynamic type.
\<close>

datatype float64 = Float64frombits (Float64bits: uint64)

datatype any_val =
    AnyInt int64
  | AnyString string
  | AnyFloat64 float64
  | AnyBool bool
  | AnyBytes "byte list"

type_synonym decode_arg = "byte list \<Rightarrow> any_val \<times> go_error option"

definition DecodeInt :: decode_arg where
  "DecodeInt data =
    (if length data < 8 then (AnyInt 0, Some (ErrDataTooShort (length data)))
     else (AnyInt (Uint64 data), None))"

definition DecodeString :: decode_arg where
  "DecodeString data = (AnyString (string_of_bytes data), None)"

definition DecodeFloat64 :: decode_arg where
  "DecodeFloat64 data =
    (if length data < 8 then (AnyInt 0, Some (ErrDataTooShort (length data)))
     else let bits = Uint64 data in (AnyFloat64 (Float64frombits bits), None))"

definition DecodeBool :: decode_arg where
  "DecodeBool data =
    (case data of
       [] \<Rightarrow> (AnyBool False, Some (ErrDataTooShort 0))
     | b # _ \<Rightarrow> (AnyBool (b \<noteq> 0), None))"

definition DecodeBytes :: decode_arg where
  "DecodeBytes data = (AnyBytes data, None)"

definition EncodeInt :: "int64 \<Rightarrow> byte list" where
  "EncodeInt v = PutUint64 v"

definition EncodeString :: "string \<Rightarrow> byte list" where
  "EncodeString s = bytes_of_string s"

definition EncodeFloat64 :: "float64 \<Rightarrow> byte list" where
  "EncodeFloat64 f = PutUint64 (Float64bits f)"

definition EncodeBool :: "bool \<Rightarrow> byte list" where
  "EncodeBool b = (if b then [1] else [0])"

section \<open>The contract of an argument codec\<close>

locale arg_codec =
  fixes enc :: "'a \<Rightarrow> byte list"
    and dec :: decode_arg
    and val :: "'a \<Rightarrow> any_val"
  assumes dec_enc: "dec (enc v) = (val v, None)"
    and val_inj: "val v = val w \<Longrightarrow> v = w"
begin

lemma enc_inj: "enc v = enc w \<Longrightarrow> v = w"
  using dec_enc [of v] dec_enc [of w] val_inj by simp

lemma dec_all: "map dec (map enc vs) = map (\<lambda>v. (val v, None)) vs"
  by (simp add: dec_enc)

end

text \<open>
  A codec of fixed width reads the front of the data only, and refuses data shorter than that.
\<close>

locale fixed_arg_codec = arg_codec +
  fixes width :: nat
  assumes enc_width: "length (enc v) = width"
    and dec_prefix: "width \<le> length bs \<Longrightarrow> dec (bs @ x) = dec bs"
    and dec_short: "length bs < width \<Longrightarrow> snd (dec bs) = Some (ErrDataTooShort (length bs))"
begin

lemma dec_enc_append: "dec (enc v @ x) = (val v, None)"
  using dec_prefix [of "enc v" x] by (simp add: enc_width dec_enc)

lemma dec_truncated:
  assumes "k < width"
  shows "snd (dec (take k (enc v))) = Some (ErrDataTooShort k)"
  using dec_short [of "take k (enc v)"] assms by (simp add: enc_width)

text \<open>Encodings laid out one after the other can be read back one after the other.\<close>

lemma dec_concat:
  assumes "i < length vs"
  shows "dec (drop (i * width) (concat (map enc vs))) = (val (vs ! i), None)"
proof -
  have len: "length (concat (map enc us)) = length us * width" for us
    by (induction us) (simp_all add: enc_width)
  have "concat (map enc vs) = concat (map enc (take i vs)) @ concat (map enc (drop i vs))"
    by (simp flip: concat_append map_append)
  then have "drop (i * width) (concat (map enc vs)) = concat (map enc (drop i vs))"
    using len [of "take i vs"] assms by simp
  also have "\<dots> = enc (vs ! i) @ concat (map enc (drop (Suc i) vs))"
    using Cons_nth_drop_Suc [OF assms, symmetric] by simp
  finally show ?thesis by (simp add: dec_enc_append)
qed

end

interpretation int_codec: fixed_arg_codec EncodeInt DecodeInt AnyInt 8
  by unfold_locales (simp_all add: EncodeInt_def DecodeInt_def)

interpretation float_codec: fixed_arg_codec EncodeFloat64 DecodeFloat64 AnyFloat64 8
  by unfold_locales (auto simp: EncodeFloat64_def DecodeFloat64_def)

interpretation bool_codec: fixed_arg_codec EncodeBool DecodeBool AnyBool 1
  by unfold_locales (auto simp: EncodeBool_def DecodeBool_def split: list.split)

interpretation string_codec: arg_codec EncodeString DecodeString AnyString
  by unfold_locales (auto simp: EncodeString_def DecodeString_def)

interpretation bytes_codec: arg_codec "\<lambda>b. b" DecodeBytes AnyBytes
  by unfold_locales (auto simp: DecodeBytes_def)

section \<open>Properties\<close>

text \<open>
  C34. Every argument that an encoder writes is read back by the decoder of its type, and two
  different values never have the same bytes.
\<close>

theorem arg_codecs_roundtrip:
  "DecodeInt (EncodeInt i) = (AnyInt i, None)
    \<and> DecodeFloat64 (EncodeFloat64 f) = (AnyFloat64 f, None)
    \<and> DecodeBool (EncodeBool b) = (AnyBool b, None)
    \<and> DecodeString (EncodeString s) = (AnyString s, None)
    \<and> inj EncodeInt \<and> inj EncodeFloat64 \<and> inj EncodeBool \<and> inj EncodeString"
  by (simp add: int_codec.dec_enc float_codec.dec_enc bool_codec.dec_enc string_codec.dec_enc inj_on_def
      int_codec.enc_inj float_codec.enc_inj bool_codec.enc_inj string_codec.enc_inj)

text \<open>
  Integers laid out one after the other in one buffer are each read back at their offset
  (the decoder ignores what follows its eight bytes), and every proper prefix of an encoding is
  refused with its length.
\<close>

theorem DecodeInt_layout:
  assumes "i < length vs" and "k < 8"
  shows "DecodeInt (drop (8 * i) (concat (map EncodeInt vs))) = (AnyInt (vs ! i), None)
    \<and> snd (DecodeInt (take k (EncodeInt v))) = Some (ErrDataTooShort k)"
  using int_codec.dec_concat [OF assms(1)] int_codec.dec_truncated [OF assms(2)]
  by (simp add: mult.commute)

lemma DecodeInt_layout_witness:
  "DecodeInt (drop (8 * 1) (concat (map EncodeInt [5, 6]))) = (AnyInt ([5, 6] ! 1), None)
    \<and> snd (DecodeInt (take 3 (EncodeInt 9))) = Some (ErrDataTooShort 3)"
  by (rule DecodeInt_layout) simp_all

end
