(* ===== verification/Worker.thy ===== *)
theory Worker
  imports Scheduler ArgCodec
begin

text \<open>
  The worker, \<^verbatim>\<open>core/worker/\<close>: \<^verbatim>\<open>worker.go\<close>, \<^verbatim>\<open>connection_manger.go\<close>,
  \<^verbatim>\<open>object_storage.go\<close> and \<^verbatim>\<open>task_func.go\<close>. It executes assigned tasks, keeps their
  results in an object store, and queues the ids of new objects for a report to the GCS.
  Parameters beside \<open>env\<close>: \<open>clock i\<close> is what the \<open>i\<close>-th call of \<^verbatim>\<open>time.Now().UnixNano()\<close>
  returns, and the identifiers of \<^verbatim>\<open>uuid.New()\<close> are arguments.
\<close>

section \<open>State\<close>

definition ObjectTypeInt :: string where [const_defs]: "ObjectTypeInt = ''int''"
definition ObjectTypeObject :: string where [const_defs]: "ObjectTypeObject = ''object''"

record Object =
  ObjType :: string
  ObjData :: "byte list"

text \<open>
  \<open>getObjectLocationChan\<close> and \<open>getObjectChan\<close> are maps of channels: a missing key reads as a nil
  channel. \<open>time_calls\<close> counts the readings of the clock.
\<close>

record worker = node +
  connAddrs :: "string \<Rightarrow> conn_ref option"
  gcsConn :: "conn_ref option"
  registerObjectChan :: "string chan"
  getObjectLocationChan :: "string \<Rightarrow> string chan option"
  getObjectChan :: "string \<Rightarrow> byte list chan option"
  objectStorage :: "string \<Rightarrow> Object option"
  worker_ctxDone :: bool
  time_calls :: nat

text \<open>The two maps of channels are never created: they stay nil, and read as empty.\<close>

definition NewWorker :: "string \<Rightarrow> string \<Rightarrow> option_fun list \<Rightarrow> worker option" where
  "NewWorker listen advertise opts =
    (if RegisterObjectChanSize (apply_options opts) < 0 then None
     else Some
       \<lparr>started = False, listenAddr = listen, advertiseAddr = advertise, options = apply_options opts,
        nextID = 0, conns = (\<lambda>_. None), inb = (\<lambda>_. newConnection 0 [] None),
        outb = (\<lambda>_. NewConnection True 0 [] None []), fresh = 0,
        connAddrs = (\<lambda>_. None), gcsConn = None,
        registerObjectChan = make_chan (nat (RegisterObjectChanSize (apply_options opts))),
        getObjectLocationChan = (\<lambda>_. None), getObjectChan = (\<lambda>_. None),
        objectStorage = (\<lambda>_. None), worker_ctxDone = False, time_calls = 0\<rparr>)"

text \<open>
  The manager that \<^verbatim>\<open>NewWorker\<close> makes, from the same options; its channel cannot be made with a
  negative size.
\<close>

definition worker_NewConnectionManager :: "string \<Rightarrow> option_fun list \<Rightarrow> worker \<Rightarrow> worker option" where
  "worker_NewConnectionManager advertise opts s =
    (let opt = apply_options opts in
     if RegisterObjectChanSize opt < 0 then None
     else Some (s\<lparr>advertiseAddr := advertise, options := opt, nextID := 0, conns := (\<lambda>_. None),
       connAddrs := (\<lambda>_. None), gcsConn := None,
       registerObjectChan := make_chan (nat (RegisterObjectChanSize opt)),
       getObjectLocationChan := (\<lambda>_. None), getObjectChan := (\<lambda>_. None)\<rparr>))"

lemma NewWorker_manager:
  "NewWorker listen advertise opts = Some s \<Longrightarrow> worker_NewConnectionManager advertise opts s = Some s"
  by (auto simp: worker_NewConnectionManager_def NewWorker_def Let_def split: if_splits)

definition worker_GetMode :: int32 where [const_defs]: "worker_GetMode = ModeWorker"

section \<open>Object store and task functions\<close>

definition GetObject :: "string \<Rightarrow> worker \<Rightarrow> Object option" where
  "GetObject objectID s = objectStorage s objectID"

definition SetObject :: "string \<Rightarrow> Object \<Rightarrow> worker \<Rightarrow> worker" where
  "SetObject objectID object s = s\<lparr>objectStorage := (objectStorage s)(objectID \<mapsto> object)\<rparr>"

text \<open>
  The loop of \<^verbatim>\<open>AddTowIntFunc\<close>: decode every argument, stop at the first that fails. (A value
  that \<^verbatim>\<open>DecodeInt\<close> returns without an error always is an \<open>AnyInt\<close>, so the assertion
  \<^verbatim>\<open>val.(int)\<close> holds and the last case of the match is not reached.)
\<close>

fun decode_int_args :: "byte list list \<Rightarrow> int64 list \<Rightarrow> go_error + int64 list" where
  "decode_int_args [] intArgs = Inr intArgs"
| "decode_int_args (arg # args) intArgs =
    (case DecodeInt arg of
       (_, Some err) \<Rightarrow> Inl err
     | (AnyInt v, None) \<Rightarrow> decode_int_args args (intArgs @ [v])
     | (_, None) \<Rightarrow> Inl ErrHandlerPanic)"

definition AddTowIntFunc :: "Task \<Rightarrow> int64 \<times> go_error option" where
  "AddTowIntFunc task =
    (case decode_int_args (Args task) [] of
       Inl err \<Rightarrow> (0, Some err)
     | Inr intArgs \<Rightarrow>
         if length intArgs \<noteq> 2 then (0, Some ErrArgNum)
         else (intArgs ! 0 + intArgs ! 1, None))"

text \<open>\<^verbatim>\<open>strconv.FormatInt(n, 10)\<close>.\<close>

fun decimal :: "nat \<Rightarrow> string" where
  "decimal n = (if n < 10 then [char_of (48 + n)] else decimal (n div 10) @ [char_of (48 + n mod 10)])"

declare decimal.simps [simp del]

definition FormatInt :: "int64 \<Rightarrow> string" where
  "FormatInt v = (if sint v < 0 then ''-'' @ decimal (nat (- sint v)) else decimal (nat (sint v)))"

text \<open>
  \<^verbatim>\<open>onAddTowInt\<close> stores and registers whatever \<^verbatim>\<open>AddTowIntFunc\<close> returned, error or not. The
  send on \<open>registerObjectChan\<close> waits while the channel is full.
\<close>

definition object_name :: "(nat \<Rightarrow> int64) \<Rightarrow> Task \<Rightarrow> worker \<Rightarrow> string" where
  "object_name clock task s = ID task @ FuncName task @ FormatInt (clock (time_calls s))"

definition onAddTowInt ::
  "(nat \<Rightarrow> int64) \<Rightarrow> Task \<Rightarrow> worker \<Rightarrow> (go_error option, worker) res" where
  "onAddTowInt clock task s =
    (let (result, err) = AddTowIntFunc task;
         objectID = object_name clock task s;
         s1 = SetObject objectID \<lparr>ObjType = ObjectTypeInt, ObjData = EncodeInt result\<rparr>
                (s\<lparr>time_calls := Suc (time_calls s)\<rparr>)
     in case try_send objectID (registerObjectChan s1) of
          None \<Rightarrow> Block s1
        | Some ch \<Rightarrow> Ok err (s1\<lparr>registerObjectChan := ch\<rparr>))"

section \<open>Remote objects\<close>

text \<open>\<open>getConnection\<close> looks a string up in the table whose keys are \<^verbatim>\<open>uint64\<close>.\<close>

definition getConnection :: "string \<Rightarrow> worker \<Rightarrow> conn_ref option" where
  "getConnection address s =
    (case conns s (KString address) of None \<Rightarrow> None | Some a \<Rightarrow> Some (InConn a))"

text \<open>
  \<open>pick\<close> decides a \<^verbatim>\<open>select\<close> whose cases are both ready (for the channel). A select with no
  ready case waits.
\<close>

definition await_object ::
  "bool \<Rightarrow> string \<Rightarrow> worker \<Rightarrow> (go_error + byte list, worker) res" where
  "await_object pick uuid s =
    (case nil_recv (getObjectChan s uuid) of
       Some (objectData, ch) \<Rightarrow>
         if worker_ctxDone s \<and> \<not> pick then Ok (Inl ErrContextDone) s
         else Ok (Inr objectData) (s\<lparr>getObjectChan := (getObjectChan s)(uuid \<mapsto> ch)\<rparr>)
     | None \<Rightarrow> if worker_ctxDone s then Ok (Inl ErrContextDone) s else Block s)"

definition fetch_from ::
  "env \<Rightarrow> bool \<Rightarrow> string \<Rightarrow> string \<Rightarrow> string \<Rightarrow> worker \<Rightarrow> (go_error + byte list, worker) res" where
  "fetch_from E pick objectID objectLocation uuid s =
    (let i = nextID s + 1; s1 = s\<lparr>nextID := i\<rparr> in
     case EncodePayload E \<lparr>Uri = RayGetObjectData, SeqId = i\<rparr>
         (MGetObjectDataRequest \<lparr>GetObjectDataRequest_ObjectId = objectID,
            GetObjectDataRequest_RequesterId = [], GetObjectDataRequest_Uuid = uuid\<rparr>) of
       Inl err \<Rightarrow> Ok (Inl err) s1
     | Inr payload \<Rightarrow>
         (case getConnection objectLocation s1 of
            None \<Rightarrow> Panic NilDeref s1
          | Some ref \<Rightarrow>
              bind_res (ref_Send E ref payload s1) (\<lambda>err s2. await_object pick uuid s2)))"

definition getRemoteObject ::
  "env \<Rightarrow> bool \<Rightarrow> bool \<Rightarrow> string \<Rightarrow> string \<Rightarrow> string \<Rightarrow> worker
     \<Rightarrow> (go_error + byte list, worker) res" where
  "getRemoteObject E pick1 pick2 objectID locUUID dataUUID s =
    (case gcsConn s of
       None \<Rightarrow> Ok (Inl ErrNoGcsConn) s
     | Some gcs \<Rightarrow>
         let i = nextID s + 1; s1 = s\<lparr>nextID := i\<rparr> in
         case EncodePayload E \<lparr>Uri = RayGetObjectLocation, SeqId = i\<rparr>
             (MGetObjectLocationRequest \<lparr>GetObjectLocationRequest_ObjectId = objectID,
                GetObjectLocationRequest_Uuid = locUUID\<rparr>) of
           Inl err \<Rightarrow> Ok (Inl err) s1
         | Inr payload \<Rightarrow>
             bind_res (ref_Send E gcs payload s1) (\<lambda>err s2.
               case nil_recv (getObjectLocationChan s2 locUUID) of
                 Some (objectLocation, ch) \<Rightarrow>
                   if worker_ctxDone s2 \<and> \<not> pick1 then Ok (Inl ErrContextDone) s2
                   else fetch_from E pick2 objectID objectLocation dataUUID
                     (s2\<lparr>getObjectLocationChan := (getObjectLocationChan s2)(locUUID \<mapsto> ch)\<rparr>)
               | None \<Rightarrow>
                   if worker_ctxDone s2 then Ok (Inl ErrContextDone) s2 else Block s2))"

section \<open>Handlers\<close>

definition worker_onEstablish ::
  "env \<Rightarrow> conn_ref \<Rightarrow> Header \<Rightarrow> EstablishReq \<Rightarrow> worker \<Rightarrow> (go_error option, worker) res" where
  "worker_onEstablish E ref h req s =
    (let s1 = ref_SetEstablished ref s;
         s2 = (if EstablishReq_Mode req = ModeGCS then s1\<lparr>gcsConn := Some ref\<rparr> else s1);
         resp = \<lparr>EstablishResponse_Mode = ModeWorker, EstablishResponse_Err = ''OK''\<rparr>;
         ack = \<lparr>Uri = MetaEstablishAck, SeqId = SeqId h\<rparr>
     in reply E ref ack (MEstablishResponse resp) s2)"

definition worker_onEstablishAck :: "conn_ref \<Rightarrow> worker \<Rightarrow> (go_error option, worker) res" where
  "worker_onEstablishAck ref s = Ok None (ref_NotifyEstablish ref s)"

text \<open>
  The loop of \<^verbatim>\<open>onAssignTask\<close> over the arguments, from index \<open>i\<close>. For an object that is not
  stored here the code asserts that a value of dynamic type \<^verbatim>\<open>string\<close> is an \<^verbatim>\<open>ObjectID\<close>,
  which panics before \<^verbatim>\<open>getRemoteObject\<close> is called.
\<close>

fun resolve_args ::
  "string list \<Rightarrow> nat \<Rightarrow> byte list list \<Rightarrow> worker \<Rightarrow> (byte list list, worker) res" where
  "resolve_args argsType i [] s = Ok [] s"
| "resolve_args argsType i (arg # args) s =
    (if length argsType \<le> i then Panic IndexOutOfRange s
     else if argsType ! i = ObjectTypeObject then
       (case fst (DecodeString arg) of
          AnyString objectID \<Rightarrow>
            (case GetObject objectID s of
               Some object \<Rightarrow>
                 bind_res (resolve_args argsType (Suc i) args s) (\<lambda>rest s1. Ok (ObjData object # rest) s1)
             | None \<Rightarrow> Panic TypeAssertion s)
        | _ \<Rightarrow> Panic TypeAssertion s)
     else bind_res (resolve_args argsType (Suc i) args s) (\<lambda>rest s1. Ok (arg # rest) s1))"

text \<open>
  The answer of \<^verbatim>\<open>onAssignTask\<close>: the error of the encoding replaces the error of the task, and a
  payload that could not be encoded is sent as an empty frame.
\<close>

definition answer_assign ::
  "env \<Rightarrow> conn_ref \<Rightarrow> uint64 \<Rightarrow> string \<Rightarrow> go_error option \<Rightarrow> worker \<Rightarrow> (go_error option, worker) res" where
  "answer_assign E ref seq taskId err s =
    (let resp = \<lparr>AssignTaskResponse_Accepted = (err = None), AssignTaskResponse_WorkerId = [],
           AssignTaskResponse_TaskId = taskId\<rparr>
     in case EncodePayload E \<lparr>Uri = RayAssignTaskResp, SeqId = seq\<rparr> (MAssignTaskResponse resp) of
          Inl err1 \<Rightarrow> bind_res (ref_Send E ref [] s) (\<lambda>_ s1. Ok (Some err1) s1)
        | Inr payload \<Rightarrow> bind_res (ref_Send E ref payload s) (\<lambda>_ s1. Ok None s1))"

text \<open>The \<^verbatim>\<open>switch funcName\<close>: an unknown function is accepted and does nothing.\<close>

definition dispatch_task ::
  "(nat \<Rightarrow> int64) \<Rightarrow> Task \<Rightarrow> worker \<Rightarrow> (go_error option, worker) res" where
  "dispatch_task clock task s =
    (if FuncName task = TaskFuncAddTowInt then onAddTowInt clock task s else Ok None s)"

definition onAssignTask ::
  "env \<Rightarrow> (nat \<Rightarrow> int64) \<Rightarrow> conn_ref \<Rightarrow> Header \<Rightarrow> AssignTaskRequest \<Rightarrow> worker
     \<Rightarrow> (go_error option, worker) res" where
  "onAssignTask E clock ref h req s =
    bind_res (resolve_args (AssignTaskRequest_ArgsType req) 0 (AssignTaskRequest_Args req) s)
      (\<lambda>args s1.
        let task = \<lparr>ID = AssignTaskRequest_TaskId req, FuncName = AssignTaskRequest_FuncName req,
                    Args = args, ArgsType = AssignTaskRequest_ArgsType req,
                    Dependencies = AssignTaskRequest_Dependencies req\<rparr>
        in bind_res (dispatch_task clock task s1)
             (\<lambda>err s2. answer_assign E ref (SeqId h) (ID task) err s2))"

text \<open>\<^verbatim>\<open>conn.Send(payload)\<close> with its error dropped, after an encoding whose error is returned.\<close>

definition reply_dropping ::
  "env \<Rightarrow> conn_ref \<Rightarrow> Header \<Rightarrow> pb_msg \<Rightarrow> worker \<Rightarrow> (go_error option, worker) res" where
  "reply_dropping E ref h msg s =
    (case EncodePayload E h msg of
       Inl err \<Rightarrow> Ok (Some err) s
     | Inr payload \<Rightarrow> bind_res (ref_Send E ref payload s) (\<lambda>_ s1. Ok None s1))"

definition onGetObjectData ::
  "env \<Rightarrow> conn_ref \<Rightarrow> GetObjectDataRequest \<Rightarrow> worker \<Rightarrow> (go_error option, worker) res" where
  "onGetObjectData E ref req s =
    (let i = nextID s + 1; s1 = s\<lparr>nextID := i\<rparr>;
         h = \<lparr>Uri = RayGetObjectDataResp, SeqId = i\<rparr>
     in case GetObject (GetObjectDataRequest_ObjectId req) s of
          None \<Rightarrow> reply_dropping E ref h (MGetObjectDataResponse
            \<lparr>GetObjectDataResponse_Found = False, GetObjectDataResponse_Data = [],
             GetObjectDataResponse_Error = ''object not found'', GetObjectDataResponse_Uuid = []\<rparr>) s1
        | Some object \<Rightarrow> reply_dropping E ref h (MGetObjectDataResponse
            \<lparr>GetObjectDataResponse_Found = True, GetObjectDataResponse_Data = ObjData object,
             GetObjectDataResponse_Error = [], GetObjectDataResponse_Uuid = []\<rparr>) s1)"

definition onGetObjectLocationResp ::
  "GetObjectLocationResponse \<Rightarrow> worker \<Rightarrow> (go_error option, worker) res" where
  "onGetObjectLocationResp resp s =
    (let k = GetObjectLocationResponse_Uuid resp in
     case nil_send (GetObjectLocationResponse_NodeAddr resp) (getObjectLocationChan s k) of
       None \<Rightarrow> Block s
     | Some ch \<Rightarrow> Ok None (s\<lparr>getObjectLocationChan := (getObjectLocationChan s)(k \<mapsto> ch)\<rparr>))"

definition onGetObjectDataResp ::
  "GetObjectDataResponse \<Rightarrow> worker \<Rightarrow> (go_error option, worker) res" where
  "onGetObjectDataResp resp s =
    (let k = GetObjectDataResponse_Uuid resp in
     case nil_send (GetObjectDataResponse_Data resp) (getObjectChan s k) of
       None \<Rightarrow> Block s
     | Some ch \<Rightarrow> Ok None (s\<lparr>getObjectChan := (getObjectChan s)(k \<mapsto> ch)\<rparr>))"

definition worker_OnPacket :: "env \<Rightarrow> (nat \<Rightarrow> int64) \<Rightarrow> conn_ref \<Rightarrow> worker handler" where
  "worker_OnPacket E clock ref h msg s =
    (if Uri h = MetaEstablish then
       (case as_EstablishReq msg of
          None \<Rightarrow> Panic NilDeref s | Some req \<Rightarrow> worker_onEstablish E ref h req s)
     else if Uri h = MetaEstablishAck then worker_onEstablishAck ref s
     else if Uri h = MetaShakeHand then Ok None s
     else if Uri h = RayAssignTask then
       (case as_AssignTaskRequest msg of
          None \<Rightarrow> Panic NilDeref s | Some req \<Rightarrow> onAssignTask E clock ref h req s)
     else if Uri h = RayGetObjectData then
       (case as_GetObjectDataRequest msg of
          None \<Rightarrow> Panic NilDeref s | Some req \<Rightarrow> onGetObjectData E ref req s)
     else if Uri h = RayGetObjectLocationResp then
       (case as_GetObjectLocationResponse msg of
          None \<Rightarrow> Panic NilDeref s | Some resp \<Rightarrow> onGetObjectLocationResp resp s)
     else if Uri h = RayGetObjectDataResp then
       (case as_GetObjectDataResponse msg of
          None \<Rightarrow> Panic NilDeref s | Some resp \<Rightarrow> onGetObjectDataResp resp s)
     else Ok None s)"

definition worker_HandlePacket :: "conn_ref \<Rightarrow> worker handler" where
  "worker_HandlePacket ref h msg s = Ok None s"

section \<open>Connection manager and report loop\<close>

definition worker_OnOpen :: "nat \<Rightarrow> string option \<Rightarrow> worker \<Rightarrow> conn_ref \<times> worker" where
  "worker_OnOpen g remoteAddr s =
    (let remote = (case remoteAddr of Some r \<Rightarrow> r | None \<Rightarrow> []);
         (ref, s1) = cm_OnOpen g remoteAddr s
     in (ref, s1\<lparr>connAddrs := (connAddrs s1)(remote \<mapsto> ref)\<rparr>))"

definition worker_OnClose :: "conn_ref gnet_ctx \<Rightarrow> worker \<Rightarrow> worker" where
  "worker_OnClose ctx s = cm_OnClose ctx s"

definition worker_OnTraffic ::
  "'c gnet_ops \<Rightarrow> env \<Rightarrow> (nat \<Rightarrow> int64) \<Rightarrow> conn_ref gnet_ctx \<Rightarrow> 'c \<Rightarrow> worker
     \<Rightarrow> ((gnet_action, worker) res \<times> 'c) option" where
  "worker_OnTraffic ops E clock ctx c s = cm_OnTraffic ops E (worker_OnPacket E clock) ctx c s"

definition worker_AddConnection :: "bool \<Rightarrow> string \<Rightarrow> worker \<Rightarrow> conn_ref \<times> worker" where
  "worker_AddConnection ctx_done addr s =
    (let i = nextID s + 1; a = fresh s;
         conn = client_Start (NewConnection ctx_done i addr (Some worker_GetMode) [WithDialTimeout ShakeHandTimeout])
     in (OutConn a, s\<lparr>nextID := i, fresh := a + 1, outb := (outb s)(a := conn)\<rparr>))"

lemma worker_AddConnection_eq [simp]: "worker_AddConnection ctx_done addr s = cm_AddConnection worker_GetMode ctx_done addr s"
  by (simp add: worker_AddConnection_def cm_AddConnection_def)

definition worker_Connect :: "bool \<Rightarrow> string \<Rightarrow> worker \<Rightarrow> conn_ref \<times> worker" where
  "worker_Connect ctx_done addr s = worker_AddConnection ctx_done addr s"

definition worker_Ontick :: "env \<Rightarrow> any_key list \<Rightarrow> worker \<Rightarrow> (unit, worker) res" where
  "worker_Ontick E order s = node_Ontick E order s"

text \<open>\<^verbatim>\<open>OnBoot\<close> only logs.\<close>

definition worker_OnBoot :: "worker \<Rightarrow> gnet_action \<times> worker" where
  "worker_OnBoot s = (ActNone, s)"

definition worker_Start :: "worker \<Rightarrow> worker" where
  "worker_Start s = node_Start s"

text \<open>\<^verbatim>\<open>worker.Loop\<close> is an empty \<^verbatim>\<open>select\<close>: once the worker is started it waits for ever.\<close>

definition worker_Loop :: "worker \<Rightarrow> (unit, worker) res" where
  "worker_Loop s = (if started s then Block s else Ok () s)"

text \<open>
  One round of the manager's \<^verbatim>\<open>Loop\<close>: \<open>Ok True\<close> goes on, \<open>Ok False\<close> has returned, \<open>Block\<close>
  waits in the \<^verbatim>\<open>select\<close>.
\<close>

definition worker_Loop_round :: "env \<Rightarrow> bool \<Rightarrow> worker \<Rightarrow> (bool, worker) res" where
  "worker_Loop_round E pick s =
    (case try_recv (registerObjectChan s) of
       Some (objectID, ch) \<Rightarrow>
         if worker_ctxDone s \<and> \<not> pick then Ok False s
         else
           let i = nextID s + 1; s1 = s\<lparr>registerObjectChan := ch, nextID := i\<rparr> in
           (case EncodePayload E \<lparr>Uri = RayReportTaskResult, SeqId = i\<rparr>
               (MReportTaskResultRequest \<lparr>ReportTaskResultRequest_TaskId = [],
                  ReportTaskResultRequest_Status = [], ReportTaskResultRequest_ObjectId = objectID,
                  ReportTaskResultRequest_ResultData = []\<rparr>) of
              Inl err \<Rightarrow> Ok True s1
            | Inr payload \<Rightarrow>
                (case gcsConn s1 of
                   None \<Rightarrow> Panic NilDeref s1
                 | Some ref \<Rightarrow> bind_res (ref_Send E ref payload s1) (\<lambda>_ s2. Ok True s2)))
     | None \<Rightarrow> if worker_ctxDone s then Ok False s else Block s)"

section \<open>Invariant\<close>

text \<open>
  The connection table is well-formed, the queue of reports is within its capacity, the maps of
  waiting channels are empty, and every stored object is an encoded integer.
\<close>

definition worker_inv :: "worker \<Rightarrow> bool" where
  "worker_inv s \<longleftrightarrow>
     node_inv s \<and>
     length (buf (registerObjectChan s)) \<le> chan_slots (registerObjectChan s) \<and>
     getObjectLocationChan s = (\<lambda>_. None) \<and> getObjectChan s = (\<lambda>_. None) \<and>
     (\<forall>k object. objectStorage s k = Some object \<longrightarrow>
        ObjType object = ObjectTypeInt \<and> length (ObjData object) = 8)"

definition worker_data where
  "worker_data (s :: worker) = (connAddrs s, gcsConn s, registerObjectChan s, getObjectLocationChan s,
     getObjectChan s, objectStorage s, worker_ctxDone s, time_calls s)"

lemma worker_dataD:
  assumes "worker_data s' = worker_data s"
  shows "connAddrs s' = connAddrs s" "gcsConn s' = gcsConn s"
    "registerObjectChan s' = registerObjectChan s"
    "getObjectLocationChan s' = getObjectLocationChan s" "getObjectChan s' = getObjectChan s"
    "objectStorage s' = objectStorage s" "worker_ctxDone s' = worker_ctxDone s"
    "time_calls s' = time_calls s"
  using assms by (simp_all add: worker_data_def)

lemma worker_data_ops [simp]:
  "worker_data (res_state (ref_Send E ref p s)) = worker_data s"
  "worker_data (ref_SetEstablished ref s) = worker_data s"
  "worker_data (ref_NotifyEstablish ref s) = worker_data s"
  "worker_data (s\<lparr>nextID := i\<rparr>) = worker_data s"
  by (cases ref; simp add: worker_data_def set_inb_def set_outb_def)+

lemma worker_data_reply [simp]: "worker_data (res_state (reply E ref h m s)) = worker_data s"
  by (simp add: reply_def split: sum.split)

lemma worker_inv_data:
  "worker_inv s \<Longrightarrow> worker_data s' = worker_data s \<Longrightarrow> node_inv s' \<Longrightarrow> worker_inv s'"
  by (auto simp: worker_inv_def dest: worker_dataD)

lemma node_inv_worker_fields [simp]:
  "node_inv ((s :: worker)\<lparr>gcsConn := g\<rparr>) = node_inv s"
  "node_inv (s\<lparr>registerObjectChan := ch\<rparr>) = node_inv s"
  "node_inv (s\<lparr>objectStorage := ob\<rparr>) = node_inv s"
  "node_inv (s\<lparr>time_calls := n\<rparr>) = node_inv s"
  "node_inv (s\<lparr>connAddrs := ca\<rparr>) = node_inv s"
  by (simp_all add: node_inv_def)

lemma worker_inv_node: "worker_inv s \<Longrightarrow> node_inv s"
  by (simp add: worker_inv_def)

lemma worker_inv_Send: "worker_inv s \<Longrightarrow> worker_inv (res_state (ref_Send E ref p s))"
  by (rule worker_inv_data [of s]) (simp_all add: ref_Send_inv worker_inv_node)

lemma worker_inv_reply: "worker_inv s \<Longrightarrow> worker_inv (res_state (reply E ref h m s))"
  by (rule worker_inv_data [of s]) (simp_all add: reply_inv worker_inv_node)

lemma worker_inv_nextID [simp]: "worker_inv (s\<lparr>nextID := i\<rparr>) = worker_inv s"
  by (simp add: worker_inv_def)

lemma worker_inv_gcsConn [simp]: "worker_inv (s\<lparr>gcsConn := g\<rparr>) = worker_inv s"
  by (simp add: worker_inv_def)

lemma worker_inv_SetEstablished: "worker_inv s \<Longrightarrow> worker_inv (ref_SetEstablished ref s)"
  by (rule worker_inv_data [of s]) (simp_all add: ref_SetEstablished_inv worker_inv_node)

lemma worker_inv_NotifyEstablish: "worker_inv s \<Longrightarrow> worker_inv (ref_NotifyEstablish ref s)"
  by (rule worker_inv_data [of s]) (simp_all add: ref_NotifyEstablish_inv worker_inv_node)

lemma worker_inv_Send_then:
  "worker_inv s \<Longrightarrow> worker_inv (res_state (bind_res (ref_Send E ref p s) (\<lambda>_ s1. Ok a s1)))"
  using worker_inv_Send [of s E ref p] by (cases "ref_Send E ref p s") simp_all

lemma onAddTowInt_inv: "worker_inv s \<Longrightarrow> worker_inv (res_state (onAddTowInt clock task s))"
  using chq.push_within [of "object_name clock task s" "registerObjectChan s"]
  by (auto simp: onAddTowInt_def worker_inv_def SetObject_def EncodeInt_def Let_def
      split: prod.split option.split)

lemma resolve_args_state [simp]: "res_state (resolve_args types i args s) = s"
proof (induction args arbitrary: i)
  case (Cons arg args)
  show ?case
    using Cons [of "Suc i"]
    by (cases "resolve_args types (Suc i) args s")
      (auto simp: DecodeString_def split: option.split)
qed simp

lemma resolve_args_OkD: "resolve_args types i args s = Ok a s' \<Longrightarrow> s' = s"
  using resolve_args_state [of types i args s] by simp

lemma answer_assign_inv: "worker_inv s \<Longrightarrow> worker_inv (res_state (answer_assign E ref seq k err s))"
  by (simp add: answer_assign_def Let_def worker_inv_Send_then split: sum.split)

lemma run_task_inv:
  assumes "worker_inv s"
  shows "worker_inv (res_state (bind_res (dispatch_task clock task s)
    (\<lambda>err s2. answer_assign E ref seq k err s2)))"
proof -
  have "worker_inv (res_state (dispatch_task clock task s))"
    using assms by (simp add: dispatch_task_def onAddTowInt_inv)
  then show ?thesis
    by (cases "dispatch_task clock task s") (simp_all add: answer_assign_inv)
qed

lemma onAssignTask_inv:
  assumes "worker_inv s"
  shows "worker_inv (res_state (onAssignTask E clock ref h req s))"
proof (cases "resolve_args (AssignTaskRequest_ArgsType req) 0 (AssignTaskRequest_Args req) s")
  case (Ok args s1)
  then have "worker_inv s1" using assms resolve_args_OkD by blast
  then show ?thesis using Ok by (simp add: onAssignTask_def Let_def run_task_inv)
next
  case (Panic p s1)
  then show ?thesis
    using assms resolve_args_state [of "AssignTaskRequest_ArgsType req" 0 "AssignTaskRequest_Args req" s]
    by (simp add: onAssignTask_def)
next
  case (Block s1)
  then show ?thesis
    using assms resolve_args_state [of "AssignTaskRequest_ArgsType req" 0 "AssignTaskRequest_Args req" s]
    by (simp add: onAssignTask_def)
qed

lemma onGetObjectData_inv:
  "worker_inv s \<Longrightarrow> worker_inv (res_state (onGetObjectData E ref req s))"
  by (simp add: onGetObjectData_def Let_def reply_dropping_def worker_inv_Send_then
      split: option.split sum.split)

lemma worker_OnPacket_inv:
  assumes inv: "worker_inv s"
  shows "worker_inv (res_state (worker_OnPacket E clock ref h m s))"
proof -
  have "worker_inv (res_state (worker_onEstablish E ref h req s))" for req
    by (simp add: worker_onEstablish_def Let_def worker_inv_reply worker_inv_SetEstablished inv)
  moreover have "worker_inv (res_state (onGetObjectLocationResp resp s))"
    "worker_inv (res_state (onGetObjectDataResp resp' s))" for resp resp'
    using inv by (simp_all add: onGetObjectLocationResp_def onGetObjectDataResp_def Let_def worker_inv_def)
  ultimately show ?thesis
    using inv
    by (simp add: worker_OnPacket_def worker_onEstablishAck_def worker_inv_NotifyEstablish
        onAssignTask_inv onGetObjectData_inv split: option.split)
qed

interpretation workerh: packet_handler "worker_OnPacket E clock ref" worker_inv for E clock ref
  by unfold_locales (rule worker_OnPacket_inv)

end
