(* ===== verification/Gcs.thy ===== *)
theory Gcs
  imports Node
begin

text \<open>
  The global control store, \<^verbatim>\<open>core/gcs/gcs.go\<close> and \<^verbatim>\<open>core/gcs/connection_manager.go\<close>: the
  directory from object ids to node addresses, its packets, the heartbeat over the connections.
\<close>

record gcs = node +
  nextSeq :: uint64
  objectLocationMap :: "string \<Rightarrow> string option"
  gcs_ctxDone :: bool

text \<open>
  \<^verbatim>\<open>NewGCS\<close> derives a context and defers its cancellation, so the context it stores is already
  done when it returns.
\<close>

definition NewGCS :: "string \<Rightarrow> string \<Rightarrow> option_fun list \<Rightarrow> gcs" where
  "NewGCS listen advertise opts =
    \<lparr>started = False, listenAddr = listen, advertiseAddr = advertise, options = apply_options opts,
     nextID = 0, conns = (\<lambda>_. None), inb = (\<lambda>_. newConnection 0 [] None),
     outb = (\<lambda>_. NewConnection True 0 [] None []), fresh = 0,
     nextSeq = 0, objectLocationMap = (\<lambda>_. None), gcs_ctxDone = True\<rparr>"

text \<open>The manager that \<^verbatim>\<open>NewGCS\<close> makes: fresh counters and an empty table.\<close>

definition gcs_NewConnectionManager :: "string \<Rightarrow> gcs \<Rightarrow> gcs" where
  "gcs_NewConnectionManager advertise s =
    s\<lparr>advertiseAddr := advertise, nextID := 0, nextSeq := 0, conns := (\<lambda>_. None)\<rparr>"

lemma NewGCS_manager: "gcs_NewConnectionManager advertise (NewGCS listen advertise opts) = NewGCS listen advertise opts"
  by (simp add: gcs_NewConnectionManager_def NewGCS_def)

definition gcs_GetMode :: int32 where [const_defs]: "gcs_GetMode = ModeGCS"

definition gcs_onEstablish ::
  "env \<Rightarrow> conn_ref \<Rightarrow> Header \<Rightarrow> EstablishReq \<Rightarrow> gcs \<Rightarrow> (go_error option, gcs) res" where
  "gcs_onEstablish E ref h req s =
    (let s1 = ref_SetEstablished ref s;
         resp = \<lparr>EstablishResponse_Mode = 0, EstablishResponse_Err = ''OK''\<rparr>;
         ack = \<lparr>Uri = MetaEstablishAck, SeqId = SeqId h\<rparr>
     in reply E ref ack (MEstablishResponse resp) s1)"

definition gcs_onEstablishAck :: "conn_ref \<Rightarrow> gcs \<Rightarrow> (go_error option, gcs) res" where
  "gcs_onEstablishAck ref s = Ok None (ref_NotifyEstablish ref s)"

definition gcs_onReportTaskResult ::
  "conn_ref \<Rightarrow> ReportTaskResultRequest \<Rightarrow> gcs \<Rightarrow> (go_error option, gcs) res" where
  "gcs_onReportTaskResult ref req s =
    Ok None (s\<lparr>objectLocationMap :=
      (objectLocationMap s)(ReportTaskResultRequest_ObjectId req \<mapsto> ref_Remote ref s)\<rparr>)"

definition gcs_onGetObjectLocation ::
  "env \<Rightarrow> conn_ref \<Rightarrow> GetObjectDataRequest \<Rightarrow> gcs \<Rightarrow> (go_error option, gcs) res" where
  "gcs_onGetObjectLocation E ref req s =
    (let objectID = GetObjectDataRequest_ObjectId req;
         i = nextID s + 1; s1 = s\<lparr>nextID := i\<rparr>;
         h = \<lparr>Uri = RayGetObjectLocationResp, SeqId = i\<rparr>
     in case objectLocationMap s objectID of
          None \<Rightarrow> reply E ref h (MGetObjectLocationResponse
            \<lparr>GetObjectLocationResponse_NodeAddr = [], GetObjectLocationResponse_Uuid = []\<rparr>) s1
        | Some location \<Rightarrow> reply E ref h (MGetObjectLocationResponse
            \<lparr>GetObjectLocationResponse_NodeAddr = location, GetObjectLocationResponse_Uuid = []\<rparr>) s1)"

text \<open>
  The dispatcher. The log calls read a field of the asserted message, so a failed assertion is a
  nil dereference.
\<close>

definition gcs_OnPacket :: "env \<Rightarrow> conn_ref \<Rightarrow> gcs handler" where
  "gcs_OnPacket E ref h msg s =
    (if Uri h = MetaEstablish then
       (case as_EstablishReq msg of
          None \<Rightarrow> Panic NilDeref s | Some req \<Rightarrow> gcs_onEstablish E ref h req s)
     else if Uri h = MetaEstablishAck then gcs_onEstablishAck ref s
     else if Uri h = MetaShakeHand then Ok None s
     else if Uri h = RayReportTaskResult then
       (case as_ReportTaskResultRequest msg of
          None \<Rightarrow> Panic NilDeref s | Some req \<Rightarrow> gcs_onReportTaskResult ref req s)
     else if Uri h = RayGetObjectLocation then
       (case as_GetObjectDataRequest msg of
          None \<Rightarrow> Panic NilDeref s | Some req \<Rightarrow> gcs_onGetObjectLocation E ref req s)
     else Ok None s)"

definition gcs_HandlePacket :: "env \<Rightarrow> conn_ref \<Rightarrow> gcs handler" where
  "gcs_HandlePacket E ref h msg s = gcs_OnPacket E ref h msg s"

definition gcs_OnOpen :: "nat \<Rightarrow> string option \<Rightarrow> gcs \<Rightarrow> conn_ref \<times> gcs" where
  "gcs_OnOpen g remoteAddr s = cm_OnOpen g remoteAddr s"

definition gcs_OnClose :: "conn_ref gnet_ctx \<Rightarrow> gcs \<Rightarrow> gcs" where
  "gcs_OnClose ctx s = cm_OnClose ctx s"

definition gcs_OnTraffic ::
  "'c gnet_ops \<Rightarrow> env \<Rightarrow> conn_ref gnet_ctx \<Rightarrow> 'c \<Rightarrow> gcs \<Rightarrow> ((gnet_action, gcs) res \<times> 'c) option" where
  "gcs_OnTraffic ops E ctx c s = cm_OnTraffic ops E (gcs_OnPacket E) ctx c s"

definition gcs_Connect :: "bool \<Rightarrow> string \<Rightarrow> gcs \<Rightarrow> conn_ref \<times> gcs" where
  "gcs_Connect ctx_done addr s = cm_AddConnection gcs_GetMode ctx_done addr s"

text \<open>\<^verbatim>\<open>OnBoot\<close> only logs.\<close>

definition gcs_OnBoot :: "gcs \<Rightarrow> gnet_action \<times> gcs" where
  "gcs_OnBoot s = (ActNone, s)"

definition gcs_Start :: "gcs \<Rightarrow> gcs" where
  "gcs_Start s = node_Start s"

text \<open>
  \<^verbatim>\<open>Ontick\<close> ranges over the connection table; \<open>order\<close> is the order in which \<^verbatim>\<open>Range\<close> visits
  the keys.
\<close>

fun gcs_Ontick :: "env \<Rightarrow> any_key list \<Rightarrow> gcs \<Rightarrow> (unit, gcs) res" where
  "gcs_Ontick E [] s = Ok () s"
| "gcs_Ontick E (k # order) s =
    (case conns s k of
       None \<Rightarrow> gcs_Ontick E order s
     | Some a \<Rightarrow>
         (case connection_Ontick E (nextSeq s) (inb s a) of
            (seq, r) \<Rightarrow>
              bind_res (map_state (set_inb a (s\<lparr>nextSeq := seq\<rparr>)) r) (\<lambda>_ s1. gcs_Ontick E order s1)))"

text \<open>A turn of \<^verbatim>\<open>GCS.Loop\<close>, when its ticker has fired.\<close>

definition gcs_Loop_round :: "env \<Rightarrow> any_key list \<Rightarrow> gcs \<Rightarrow> (unit, gcs) res" where
  "gcs_Loop_round E order s = gcs_Ontick E order s"

section \<open>The handler contract\<close>

lemma gcs_OnPacket_inv: "node_inv s \<Longrightarrow> node_inv (res_state (gcs_OnPacket E ref h m s))"
proof -
  assume inv: "node_inv s"
  have "node_inv (res_state (gcs_onEstablish E ref h req s))" for req
    by (simp add: gcs_onEstablish_def Let_def reply_inv ref_SetEstablished_inv inv)
  moreover have "node_inv (res_state (gcs_onGetObjectLocation E ref req s))" for req
    using node_inv_cong [OF inv, of "s\<lparr>nextID := nextID s + 1\<rparr>"]
    by (simp add: gcs_onGetObjectLocation_def Let_def reply_inv split: option.split)
  moreover have "node_inv (res_state (gcs_onReportTaskResult ref req s))" for req
    unfolding gcs_onReportTaskResult_def by (simp, rule node_inv_cong [OF inv]) simp_all
  ultimately show ?thesis
    using inv by (simp add: gcs_OnPacket_def gcs_onEstablishAck_def ref_NotifyEstablish_inv split: option.split)
qed

interpretation gcsh: packet_handler "gcs_OnPacket E ref" "node_inv :: gcs \<Rightarrow> bool" for E ref
  by unfold_locales (rule gcs_OnPacket_inv)

lemma node_inv_NewGCS: "node_inv (NewGCS l a opts)"
  by (simp add: node_inv_def NewGCS_def)

section \<open>Properties\<close>

text \<open>
  The GCS keeps its connection table well-formed: on every batch of bytes that arrives on an
  accepted connection, for every transport, \<^verbatim>\<open>OnTraffic\<close> either refuses (the server is not
  started, the context is foreign) or returns, panics or waits in a state where each table entry
  still is an allocated connection filed under its own id.
\<close>

theorem gcs_OnTraffic_inv:
  assumes "gcs_OnTraffic ops E ctx c s = Some (r, c')" and "node_inv s"
  shows "node_inv (res_state r)"
  using assms gcsh.traffic_loop_inv
  by (auto simp: gcs_OnTraffic_def cm_OnTraffic_def split: if_splits gnet_ctx.splits)

lemma gcs_OnTraffic_inv_witness:
  "node_inv (NewGCS [] [] [])
    \<and> gcs_OnTraffic buf_ops (table_env []) CtxNil [] (NewGCS [] [] []) = Some (Ok ActShutdown (NewGCS [] [] []), [])"
proof -
  have r: "gcs_OnTraffic buf_ops (table_env []) CtxNil [] (NewGCS [] [] [])
      = Some (Ok ActShutdown (NewGCS [] [] []), [])"
    by (simp add: gcs_OnTraffic_def cm_OnTraffic_def NewGCS_def)
  from gcs_OnTraffic_inv [OF r node_inv_NewGCS] r show ?thesis by simp
qed

definition report_packet :: "uint64 \<Rightarrow> string \<Rightarrow> Header \<times> pb_msg" where
  "report_packet seq obj =
    (\<lparr>Uri = RayReportTaskResult, SeqId = seq\<rparr>,
     MReportTaskResultRequest \<lparr>ReportTaskResultRequest_TaskId = [], ReportTaskResultRequest_Status = [],
       ReportTaskResultRequest_ObjectId = obj, ReportTaskResultRequest_ResultData = []\<rparr>)"

text \<open>
  Reports build the directory: after a run of \<^verbatim>\<open>ReportTaskResult\<close> packets on one connection every
  object reported is located at that connection's remote address, every other entry is as it was.
\<close>

lemma gcs_reports_deliver:
  "\<exists>s'. deliver (gcs_OnPacket E ref) (map (\<lambda>(seq, obj). report_packet seq obj) rs) s = Ok ActNone s'
    \<and> objectLocationMap s' =
        (\<lambda>obj. if obj \<in> snd ` set rs then Some (ref_Remote ref s) else objectLocationMap s obj)
    \<and> ref_Remote ref s' = ref_Remote ref s"
proof (induction rs arbitrary: s)
  case Nil
  then show ?case by simp
next
  case (Cons r rs)
  obtain seq obj where r: "r = (seq, obj)" by (cases r)
  define s1 where "s1 = s\<lparr>objectLocationMap := (objectLocationMap s)(obj \<mapsto> ref_Remote ref s)\<rparr>"
  have one: "gcs_OnPacket E ref (fst (report_packet seq obj)) (snd (report_packet seq obj)) s = Ok None s1"
    by (simp add: gcs_OnPacket_def report_packet_def gcs_onReportTaskResult_def s1_def const_defs)
  have remote: "ref_Remote ref s1 = ref_Remote ref s"
    by (cases ref) (simp_all add: s1_def)
  have loc: "objectLocationMap s1 = (objectLocationMap s)(obj \<mapsto> ref_Remote ref s)"
    by (simp add: s1_def)
  from Cons [of s1] obtain s' where
    "deliver (gcs_OnPacket E ref) (map (\<lambda>(seq, obj). report_packet seq obj) rs) s1 = Ok ActNone s'"
    "objectLocationMap s' =
        (\<lambda>obj. if obj \<in> snd ` set rs then Some (ref_Remote ref s1) else objectLocationMap s1 obj)"
    "ref_Remote ref s' = ref_Remote ref s1" by blast
  then show ?case
    using one remote loc
    by (intro exI [of _ s']) (simp add: r deliver_Cons fun_eq_iff del: deliver.simps(2))
qed

text \<open>
  What \<^verbatim>\<open>onGetObjectLocation\<close> answers: if its \<^verbatim>\<open>Send\<close> succeeds, the asking connection has
  received exactly one more frame, which decodes to the location the directory holds for the object
  and to the empty address if it holds none; the directory is unchanged. (The answer carries no
  \<^verbatim>\<open>Uuid\<close>, although the worker waits for one.)
\<close>

theorem gcs_onGetObjectLocation_answer:
  assumes sent: "gcs_onGetObjectLocation E ref req s = Ok None s'"
    and answer: "m = MGetObjectLocationResponse
      \<lparr>GetObjectLocationResponse_NodeAddr =
         (case objectLocationMap s (GetObjectDataRequest_ObjectId req) of Some a \<Rightarrow> a | None \<Rightarrow> []),
       GetObjectLocationResponse_Uuid = []\<rparr>"
    and rt: "pb_roundtrips E m body" and len: "length body < 2 ^ 32 - 10"
  shows "ref_stream ref s' = ref_stream ref s
      @ wire_frame \<lparr>Uri = RayGetObjectLocationResp, SeqId = nextID s + 1\<rparr> body
    \<and> decode_bytes E (wire_frame \<lparr>Uri = RayGetObjectLocationResp, SeqId = nextID s + 1\<rparr> body)
      = (Inr (\<lparr>Uri = RayGetObjectLocationResp, SeqId = nextID s + 1\<rparr>, m), [])"
proof -
  let ?h = "\<lparr>Uri = RayGetObjectLocationResp, SeqId = nextID s + 1\<rparr>"
  have replied: "reply E ref ?h m (s\<lparr>nextID := nextID s + 1\<rparr>) = Ok None s'"
    using sent answer by (auto simp: gcs_onGetObjectLocation_def Let_def split: option.splits)
  have "ref_stream ref (s\<lparr>nextID := nextID s + 1\<rparr>) = ref_stream ref s"
    by (cases ref) simp_all
  moreover have "unmarshalByURI E (Uri ?h) body = Inr m"
    by (rule unmarshalByURI_roundtrip [OF rt])
      (simp add: answer uri_kind_def uri_table_def const_defs)
  ultimately show ?thesis
    using reply_stream [OF replied rt] decode_bytes_wire_frame [OF len, of E ?h "[]"] by simp
qed

definition sample_location :: pb_msg where
  "sample_location = MGetObjectLocationResponse
    \<lparr>GetObjectLocationResponse_NodeAddr = ''w1:9'', GetObjectLocationResponse_Uuid = []\<rparr>"

definition sample_gcs :: gcs where
  "sample_gcs = (snd (gcs_OnOpen 3 (Some ''w2:8'') (NewGCS [] [] [])))
     \<lparr>objectLocationMap := [''obj'' \<mapsto> ''w1:9'']\<rparr>"

lemma gcs_onGetObjectLocation_answer_witness:
  "\<exists>s' :: gcs. ref_stream (InConn 0) s' = wire_frame \<lparr>Uri = RayGetObjectLocationResp, SeqId = 2\<rparr> [10, 4]
    \<and> decode_bytes (table_env [(sample_location, [10, 4])])
        (wire_frame \<lparr>Uri = RayGetObjectLocationResp, SeqId = 2\<rparr> [10, 4])
      = (Inr (\<lparr>Uri = RayGetObjectLocationResp, SeqId = 2\<rparr>, sample_location), [])"
proof -
  define E where "E = table_env [(sample_location, [10, 4])]"
  define req where "req = \<lparr>GetObjectDataRequest_ObjectId = ''obj'',
    GetObjectDataRequest_RequesterId = [], GetObjectDataRequest_Uuid = ''u1''\<rparr>"
  note defs = sample_gcs_def gcs_OnOpen_def cm_OnOpen_def NewGCS_def newConnection_def Let_def
  have id: "nextID sample_gcs + 1 = 2" "ref_stream (InConn 0) sample_gcs = []"
    by (simp_all add: defs)
  obtain s' where s': "gcs_onGetObjectLocation E (InConn 0) req sample_gcs = Ok None s'"
    by (simp add: gcs_onGetObjectLocation_def reply_def EncodePayload_def E_def req_def defs
        sample_location_def connection_Send_def)
  have "sample_location = MGetObjectLocationResponse
      \<lparr>GetObjectLocationResponse_NodeAddr =
         (case objectLocationMap sample_gcs (GetObjectDataRequest_ObjectId req) of Some a \<Rightarrow> a | None \<Rightarrow> []),
       GetObjectLocationResponse_Uuid = []\<rparr>"
    by (simp add: sample_location_def defs req_def)
  moreover have "pb_roundtrips E sample_location [10, 4]"
    by (simp add: pb_roundtrips_def E_def)
  ultimately have "ref_stream (InConn 0) s' = ref_stream (InConn 0) sample_gcs
      @ wire_frame \<lparr>Uri = RayGetObjectLocationResp, SeqId = nextID sample_gcs + 1\<rparr> [10, 4]
    \<and> decode_bytes E (wire_frame \<lparr>Uri = RayGetObjectLocationResp, SeqId = nextID sample_gcs + 1\<rparr> [10, 4])
      = (Inr (\<lparr>Uri = RayGetObjectLocationResp, SeqId = nextID sample_gcs + 1\<rparr>, sample_location), [])"
    by (rule gcs_onGetObjectLocation_answer [OF s']) simp
  then show ?thesis unfolding id E_def by auto
qed

text \<open>
  No location request is ever answered. The codec decodes the packet of URI 106 as a
  \<^verbatim>\<open>GetObjectLocationRequest\<close>, the dispatcher asserts a \<^verbatim>\<open>GetObjectDataRequest\<close> and reads a
  field of the nil pointer: whatever runtime decoded it, such a packet panics on an accepted
  connection.
\<close>

theorem gcs_location_request_panics:
  assumes "pb_typed E" and "fst (decode_bytes E bs) = Inr (h, m)" and "Uri h = RayGetObjectLocation"
  shows "gcs_OnPacket E ref h m s = Panic NilDeref s"
proof -
  have "unmarshalByURI E (Uri h) body = Inr m \<Longrightarrow> kind_of m = KGetObjectLocationRequest" for body
    using unmarshalByURI_kind [OF assms(1), of "Uri h" body m] assms(3)
    by (simp add: uri_kind_def uri_table_def const_defs)
  moreover obtain body where "unmarshalByURI E (Uri h) body = Inr m"
    using assms(2)
    by (auto simp: decode_bytes_def DecodeInnerPayload_def Let_def split: if_splits sum.splits)
  ultimately have "as_GetObjectDataRequest m = None"
    using as_Some_kind(7) [of m] by auto
  then show ?thesis using assms(3) by (simp add: gcs_OnPacket_def const_defs)
qed

lemma gcs_location_request_panics_witness:
  "gcs_OnPacket (table_env [(zero_msg KGetObjectLocationRequest, [])]) (InConn 0)
     \<lparr>Uri = RayGetObjectLocation, SeqId = 1\<rparr> (zero_msg KGetObjectLocationRequest) sample_gcs
   = Panic NilDeref sample_gcs"
proof (rule gcs_location_request_panics [OF pb_typed_table_env])
  let ?E = "table_env [(zero_msg KGetObjectLocationRequest, [])]"
  let ?h = "\<lparr>Uri = RayGetObjectLocation, SeqId = 1\<rparr>"
  have "unmarshalByURI ?E (Uri ?h) [] = Inr (zero_msg KGetObjectLocationRequest)"
    by (rule unmarshalByURI_roundtrip)
      (simp_all add: pb_roundtrips_def uri_kind_def uri_table_def const_defs del: zero_msg.simps)
  then show "fst (decode_bytes ?E (wire_frame ?h [])) = Inr (?h, zero_msg KGetObjectLocationRequest)"
    using decode_bytes_wire_frame [of "[]" ?E ?h "[]"] by simp
qed simp

end
