(* ===== verification/ReadLoop.thy ===== *)
theory ReadLoop
  imports Sample_Env
begin

text \<open>
  The reader of a dialled \<^verbatim>\<open>net.Conn\<close>, \<^verbatim>\<open>readFrame\<close> and \<^verbatim>\<open>readLoop\<close> of
  \<^verbatim>\<open>core/*/connection.go\<close>. The bytes the connection will deliver until it fails are a list.
  Unlike the gnet loop of \<open>Traffic\<close> it bounds the size of a frame and skips a frame that it
  cannot decode.
\<close>

text \<open>\<^verbatim>\<open>io.ReadFull\<close>: the buffer is filled, or the error says whether any byte was read.\<close>

definition ReadFull :: "nat \<Rightarrow> byte list \<Rightarrow> (go_error + byte list) \<times> byte list" where
  "ReadFull n bs =
    (if n \<le> length bs then (Inr (take n bs), drop n bs)
     else if bs = [] then (Inl (ErrExternal ''EOF''), [])
     else (Inl (ErrExternal ''unexpected EOF''), []))"

definition readFrame :: "nat option \<Rightarrow> byte list \<Rightarrow> (go_error + byte list) \<times> byte list" where
  "readFrame netc bs =
    (case netc of
       None \<Rightarrow> (Inl ErrNoNetConn, bs)
     | Some _ \<Rightarrow>
         (case ReadFull 4 bs of
            (Inl err, rest) \<Rightarrow> (Inl err, rest)
          | (Inr hdr, rest) \<Rightarrow>
              let n = unat (Uint32 hdr) in
              if n > MaxFrameSize then (Inl ErrFrameTooLarge, rest)
              else ReadFull n rest))"

lemma readFrame_consumes: "readFrame netc bs = (Inr p, rest) \<Longrightarrow> length rest < length bs"
  by (auto simp: readFrame_def ReadFull_def Let_def split: option.splits if_splits)

text \<open>How the loop ends: the transport failed, or the handler did (the connection is closed then).\<close>

datatype read_end = ReadEnded go_error | HandlerFailed

function readLoop ::
  "env \<Rightarrow> 's handler \<Rightarrow> nat option \<Rightarrow> byte list \<Rightarrow> 's \<Rightarrow> (read_end, 's) res" where
  "readLoop E onPacket netc bs s =
    (case readFrame netc bs of
       (Inl err, rest) \<Rightarrow> Ok (ReadEnded err) s
     | (Inr raw, rest) \<Rightarrow>
         (case DecodeInnerPayload E raw of
            Inl _ \<Rightarrow> readLoop E onPacket netc rest s
          | Inr hm \<Rightarrow>
              (case onPacket (fst hm) (snd hm) s of
                 Ok err s1 \<Rightarrow>
                   if err \<noteq> None then Ok HandlerFailed s1 else readLoop E onPacket netc rest s1
               | Panic p s1 \<Rightarrow> Panic p s1
               | Block s1 \<Rightarrow> Block s1)))"
  by pat_completeness auto
termination
  by (relation "measure (\<lambda>(E, onPacket, netc, bs, s). length bs)")
    (auto dest: readFrame_consumes [OF sym])

declare readLoop.simps [simp del]

context packet_handler
begin

lemma readLoop_inv: "Inv s \<Longrightarrow> Inv (res_state (readLoop E onPacket netc bs s))"
proof (induction "length bs" arbitrary: bs s rule: less_induct)
  case less
  obtain r rest where rf: "readFrame netc bs = (r, rest)" by (cases "readFrame netc bs")
  show ?case
  proof (cases r)
    case (Inl err)
    then show ?thesis using rf less.prems by (simp add: readLoop.simps [of _ _ _ bs])
  next
    case (Inr raw)
    have smaller: "length rest < length bs" using rf Inr by (simp add: readFrame_consumes)
    have kept: "Inv (res_state (onPacket hdr m s))" for hdr m
      by (rule onPacket_inv) (rule less.prems)
    show ?thesis
    proof (cases "DecodeInnerPayload E raw")
      case (Inl e)
      then show ?thesis
        using rf Inr less.hyps [OF smaller less.prems] by (simp add: readLoop.simps [of _ _ _ bs])
    next
      case dec: (Inr hm)
      then show ?thesis
        using rf Inr kept [of "fst hm" "snd hm"] less.hyps [OF smaller]
        by (cases "onPacket (fst hm) (snd hm) s") (auto simp: readLoop.simps [of _ _ _ bs])
    qed
  qed
qed

end

section \<open>What the loop delivers\<close>

definition decodable :: "env \<Rightarrow> byte list list \<Rightarrow> (Header \<times> pb_msg) list" where
  "decodable E ps = List.map_filter
    (\<lambda>p. case DecodeInnerPayload E p of Inr hm \<Rightarrow> Some hm | Inl _ \<Rightarrow> None) ps"

lemma readFrame_MakeFrame:
  assumes "length p \<le> MaxFrameSize"
  shows "readFrame (Some w) (MakeFrame p @ rest) = (Inr p, rest)"
proof -
  have "unat (word_of_nat (length p) :: uint32) = length p"
    by (rule unat_length_word) (use assms in \<open>simp add: const_defs\<close>)
  then show ?thesis
    using assms by (simp add: readFrame_def ReadFull_def MakeFrame_def Let_def)
qed

text \<open>
  C28. The reader of a dialled connection delivers, in order, exactly the frames it can decode: on a
  stream of frames within the size limit it behaves as handing those packets to the handler one
  after the other; frames that do not decode are skipped, the handler's first error ends the loop
  with a close, and otherwise the loop ends when the stream does.
\<close>

theorem readLoop_delivers:
  assumes "\<forall>p \<in> set ps. length p \<le> MaxFrameSize"
  shows "readLoop E h (Some w) (concat (map MakeFrame ps)) s =
    (case deliver h (decodable E ps) s of
       Ok a s1 \<Rightarrow> Ok (if a = ActNone then ReadEnded (ErrExternal ''EOF'') else HandlerFailed) s1
     | Panic p s1 \<Rightarrow> Panic p s1
     | Block s1 \<Rightarrow> Block s1)"
  using assms
proof (induction ps arbitrary: s)
  case Nil
  have "readFrame (Some w) [] = (Inl (ErrExternal ''EOF''), [])"
    by (simp add: readFrame_def ReadFull_def)
  then show ?case
    by (simp add: readLoop.simps [of _ _ _ "[]"] decodable_def List.map_filter_simps)
next
  case (Cons p ps)
  have rf: "readFrame (Some w) (MakeFrame p @ concat (map MakeFrame ps)) = (Inr p, concat (map MakeFrame ps))"
    using Cons.prems by (intro readFrame_MakeFrame) simp
  note unfold_loop = readLoop.simps [of E h "Some w" "MakeFrame p @ concat (map MakeFrame ps)" s]
  show ?case
  proof (cases "DecodeInnerPayload E p")
    case (Inl e)
    then show ?thesis
      using rf Cons by (simp add: unfold_loop decodable_def List.map_filter_simps)
  next
    case (Inr hm)
    then have dec: "decodable E (p # ps) = hm # decodable E ps"
      by (simp add: decodable_def List.map_filter_simps)
    show ?thesis
    proof (cases "h (fst hm) (snd hm) s")
      case (Ok err s1)
      then show ?thesis
        using rf Inr Cons by (cases "err = None") (auto simp: unfold_loop dec deliver_Cons)
    qed (use rf Inr in \<open>simp_all add: unfold_loop dec deliver_Cons\<close>)
  qed
qed

lemma readLoop_delivers_witness:
  "readLoop (table_env [(MShakeHandReq, [])]) (\<lambda>hdr m n. Ok None (Suc n)) (Some 0)
     (concat (map MakeFrame [[1, 2], PutUint16 3 @ PutUint64 7 @ []])) 0
    = Ok (ReadEnded (ErrExternal ''EOF'')) (1 :: nat)"
proof -
  let ?E = "table_env [(MShakeHandReq, [])]"
  let ?ps = "[[1, 2], PutUint16 3 @ PutUint64 7 @ []]"
  have "DecodeInnerPayload ?E (PutUint16 3 @ PutUint64 7 @ []) = Inr (\<lparr>Uri = 3, SeqId = 7\<rparr>, MShakeHandReq)"
    using DecodeInnerPayload_header [of ?E "\<lparr>Uri = 3, SeqId = 7\<rparr>" "[]"]
      unmarshalByURI_roundtrip [of ?E MShakeHandReq "[]" 3]
    by (simp add: pb_roundtrips_def uri_kind_def uri_table_def)
  moreover have "DecodeInnerPayload ?E [1, 2] = Inl (ErrShortBuffer, None)"
    by (simp add: DecodeInnerPayload_def)
  ultimately have "decodable ?E ?ps = [(\<lparr>Uri = 3, SeqId = 7\<rparr>, MShakeHandReq)]"
    by (simp add: decodable_def List.map_filter_simps del: append_Nil2)
  moreover have "\<forall>p \<in> set ?ps. length p \<le> MaxFrameSize" by (simp add: const_defs)
  ultimately show ?thesis
    using readLoop_delivers [of ?ps ?E "\<lambda>hdr m n. Ok None (Suc n)" 0 "0 :: nat"] by simp
qed

end
