(* ===== verification/Driver.thy ===== *)
theory Driver
  imports Node ReadLoop
begin

text \<open>
  The driver, \<^verbatim>\<open>core/driver/\<close>: the constructor, the connection manager that files peers by mode,
  task submission, and the driver's own dialling connection (it does not use
  \<^verbatim>\<open>common.NewConnection\<close>). All its connections are \<^verbatim>\<open>*connection\<close> objects, addresses of the
  heap \<open>inb\<close>.
\<close>

section \<open>State\<close>

definition NodeTypeScheduler :: string where [const_defs]: "NodeTypeScheduler = ''scheduler''"
definition SubmitTaskSuccess :: string where [const_defs]: "SubmitTaskSuccess = ''success''"

text \<open>\<open>typeConns\<close> is a \<^verbatim>\<open>sync.Map\<close> of \<^verbatim>\<open>sync.Map\<close>s; its keys are interface values.\<close>

record driver = node +
  drv_nextSeq :: uint64
  nodeMode :: int32
  typeConns :: "any_key \<Rightarrow> (any_key \<Rightarrow> nat option) option"
  taskNotifyChan :: "string \<Rightarrow> string chan option"

text \<open>
  \<^verbatim>\<open>NewDriver\<close> calls itself before anything else; \<open>None\<close> is a call that does not return. The
  rest of its body makes a fresh manager and a fresh map of channels.
\<close>

definition fresh_manager :: "driver \<Rightarrow> driver" where
  "fresh_manager d =
    d\<lparr>nextID := 0, drv_nextSeq := 0, nodeMode := ModeDriver, conns := (\<lambda>_. None),
      typeConns := (\<lambda>_. None), taskNotifyChan := (\<lambda>_. None)\<rparr>"

partial_function (option) NewDriver ::
  "string \<Rightarrow> string \<Rightarrow> option_fun list \<Rightarrow> driver option" where
  "NewDriver listen advertise opts =
    Option.bind (NewDriver listen advertise opts) (\<lambda>newDriver. Some (fresh_manager newDriver))"

section \<open>Counting a \<^verbatim>\<open>sync.Map\<close>, \<^verbatim>\<open>common/utils.go\<close>\<close>

text \<open>\<open>order\<close> is the order in which \<^verbatim>\<open>Range\<close> visits the keys.\<close>

fun GetSyncMapLen :: "'k list \<Rightarrow> ('k \<Rightarrow> 'v option) \<Rightarrow> int \<Rightarrow> int" where
  "GetSyncMapLen [] m n = n"
| "GetSyncMapLen (k # order) m n = GetSyncMapLen order m (if m k = None then n else n + 1)"

section \<open>Handlers\<close>

definition driver_onEstablish ::
  "env \<Rightarrow> nat \<Rightarrow> Header \<Rightarrow> EstablishReq \<Rightarrow> driver \<Rightarrow> (go_error option, driver) res" where
  "driver_onEstablish E a h req s =
    (let s1 = ref_SetEstablished (InConn a) s;
         k = KInt32 (EstablishReq_Mode req);
         peers = (case typeConns s1 k of Some m \<Rightarrow> m | None \<Rightarrow> (\<lambda>_. None));
         s2 = s1\<lparr>typeConns := (typeConns s1)
                (k \<mapsto> peers(KUint64 (ref_ID (InConn a) s1) := Some a))\<rparr>;
         resp = \<lparr>EstablishResponse_Mode = nodeMode s2, EstablishResponse_Err = ''OK''\<rparr>;
         ack = \<lparr>Uri = MetaEstablishAck, SeqId = SeqId h\<rparr>
     in reply E (InConn a) ack (MEstablishResponse resp) s2)"

definition driver_onEstablishAck :: "nat \<Rightarrow> driver \<Rightarrow> (go_error option, driver) res" where
  "driver_onEstablishAck a s = Ok None (ref_NotifyEstablish (InConn a) s)"

text \<open>The notification says success whatever the response says.\<close>

definition onSchedulerSubmitTaskResp :: "SchedulerSubmitTaskResponse \<Rightarrow> driver \<Rightarrow> driver" where
  "onSchedulerSubmitTaskResp resp s =
    (let k = SchedulerSubmitTaskResponse_TaskId resp in
     case nil_send SubmitTaskSuccess (taskNotifyChan s k) of
       None \<Rightarrow> s
     | Some ch \<Rightarrow> s\<lparr>taskNotifyChan := (taskNotifyChan s)(k \<mapsto> ch)\<rparr>)"

definition driver_OnPacket :: "env \<Rightarrow> nat \<Rightarrow> driver handler" where
  "driver_OnPacket E a h msg s =
    (if Uri h = MetaEstablish then
       (case as_EstablishReq msg of
          None \<Rightarrow> Panic NilDeref s | Some req \<Rightarrow> driver_onEstablish E a h req s)
     else if Uri h = MetaEstablishAck then driver_onEstablishAck a s
     else if Uri h = MetaShakeHand then Ok None s
     else if Uri h = SchedulerSubmitTaskResp then
       (case as_SchedulerSubmitTaskResponse msg of
          None \<Rightarrow> Panic NilDeref s | Some resp \<Rightarrow> Ok None (onSchedulerSubmitTaskResp resp s))
     else Ok None s)"

text \<open>
  The gnet callbacks; a context that is not a \<^verbatim>\<open>*connection\<close> closes the connection.
\<close>

definition driver_OnOpen :: "nat \<Rightarrow> string option \<Rightarrow> driver \<Rightarrow> conn_ref \<times> driver" where
  "driver_OnOpen g remoteAddr s = cm_OnOpen g remoteAddr s"

definition driver_OnClose :: "conn_ref gnet_ctx \<Rightarrow> driver \<Rightarrow> driver" where
  "driver_OnClose ctx s =
    (case ctx of CtxConn (InConn a) \<Rightarrow> cm_OnClose ctx s | _ \<Rightarrow> s)"

definition driver_OnTraffic ::
  "'c gnet_ops \<Rightarrow> env \<Rightarrow> conn_ref gnet_ctx \<Rightarrow> 'c \<Rightarrow> driver
     \<Rightarrow> ((gnet_action, driver) res \<times> 'c) option" where
  "driver_OnTraffic ops E ctx c s =
    (if \<not> started s then Some (Ok ActShutdown s, c)
     else case ctx of
       CtxConn (InConn a) \<Rightarrow> traffic_loop ops E (driver_OnPacket E a) c s
     | _ \<Rightarrow> Some (Ok ActClose s, c))"

text \<open>\<^verbatim>\<open>Start\<close> and \<^verbatim>\<open>Loop\<close> have empty bodies.\<close>

definition driver_Start :: "driver \<Rightarrow> driver" where
  "driver_Start s = s"

definition driver_Loop :: "driver \<Rightarrow> driver" where
  "driver_Loop s = s"

text \<open>\<^verbatim>\<open>OnBoot\<close> of the manager and its own \<^verbatim>\<open>onSchedulerSubmitTaskResp\<close>, which nothing calls, only log.\<close>

definition driver_OnBoot :: "driver \<Rightarrow> gnet_action \<times> driver" where
  "driver_OnBoot s = (ActNone, s)"

definition manager_onSchedulerSubmitTaskResp :: "SchedulerSubmitTaskResponse \<Rightarrow> driver \<Rightarrow> driver" where
  "manager_onSchedulerSubmitTaskResp resp s = s"

text \<open>\<^verbatim>\<open>ConnectToScheduler\<close> and \<^verbatim>\<open>ConnectToGCS\<close>: the new connection's \<^verbatim>\<open>Loop\<close> is submitted.\<close>

definition driver_AddConnection :: "string \<Rightarrow> driver \<Rightarrow> nat \<times> driver" where
  "driver_AddConnection addr s =
    (let i = nextID s + 1; a = fresh s
     in (a, s\<lparr>nextID := i, fresh := a + 1, inb := (inb s)(a := newConnection i addr None)\<rparr>))"

definition ConnectToScheduler :: "string \<Rightarrow> driver \<Rightarrow> driver" where
  "ConnectToScheduler addr s = snd (driver_AddConnection addr s)"

definition ConnectToGCS :: "string \<Rightarrow> driver \<Rightarrow> driver" where
  "ConnectToGCS addr s = snd (driver_AddConnection addr s)"

section \<open>The driver's dialling connection\<close>

text \<open>\<^verbatim>\<open>Establish\<close> of \<^verbatim>\<open>core/driver/connection.go\<close> sends the address and the mode.\<close>

definition driver_Establish :: "env \<Rightarrow> nat \<Rightarrow> driver \<Rightarrow> (unit, driver) res" where
  "driver_Establish E a s =
    (let seq = drv_nextSeq s + 1; s1 = s\<lparr>drv_nextSeq := seq\<rparr> in
     map_state (set_inb a s1)
       (send_logged E \<lparr>Uri = MetaEstablish, SeqId = seq\<rparr>
          (MEstablishReq \<lparr>EstablishReq_Addr = advertiseAddr s, EstablishReq_Mode = nodeMode s\<rparr>) (inb s1 a)))"

text \<open>
  The first half of a turn of \<^verbatim>\<open>Loop\<close>: dial, submit the reader, send the request. The second half
  is the \<^verbatim>\<open>select\<close>: with \<open>timeout\<close> the loop dials again; with a token the connection is
  established and filed, and the loop then spins while it is established. \<open>None\<close> is the
  \<^verbatim>\<open>select\<close> that still waits.
\<close>

datatype dial_result = Redial | Waiting | Spinning

definition driver_Loop_dial :: "env \<Rightarrow> nat \<Rightarrow> go_error + nat \<Rightarrow> driver \<Rightarrow> (dial_result, driver) res" where
  "driver_Loop_dial E a dialed s =
    (case dialed of
       Inl err \<Rightarrow> Ok Redial s
     | Inr w \<Rightarrow>
         bind_res (driver_Establish E a (set_inb a s ((inb s a)\<lparr>netC := Some w\<rparr>)))
           (\<lambda>_ s1. Ok Waiting s1))"

definition driver_Loop_select :: "bool \<Rightarrow> nat \<Rightarrow> driver \<Rightarrow> (dial_result \<times> driver) option" where
  "driver_Loop_select timeout a s =
    (if timeout then Some (Redial, s)
     else case try_recv (establishChan (inb s a)) of
       None \<Rightarrow> None
     | Some (_, ch) \<Rightarrow>
         let s1 = set_inb a s ((inb s a)\<lparr>establishChan := ch, established := True\<rparr>)
         in Some (Spinning, s1\<lparr>conns := (conns s1)(KUint64 (ref_ID (InConn a) s1) := Some a)\<rparr>))"

text \<open>The reader that the dial submits; a failed handler closes the connection.\<close>

definition driver_readLoop :: "env \<Rightarrow> nat \<Rightarrow> byte list \<Rightarrow> driver \<Rightarrow> (read_end, driver) res" where
  "driver_readLoop E a bs s =
    bind_res (readLoop E (driver_OnPacket E a) (netC (inb s a)) bs s)
      (\<lambda>e s1. case e of
         HandlerFailed \<Rightarrow> Ok e (set_inb a s1 (connection_Close (inb s1 a)))
       | ReadEnded err \<Rightarrow> Ok e s1)"

section \<open>Submission\<close>

text \<open>
  \<open>result i\<close> is how the wait for the \<open>i\<close>-th scheduler ended: with a value of the channel, or with
  the timeout (\<open>None\<close>). Both delete the channel.
\<close>

fun submit_loop ::
  "env \<Rightarrow> DriverSubmitTaskRequest \<Rightarrow> (nat \<Rightarrow> string option) \<Rightarrow> nat \<Rightarrow> nat list \<Rightarrow> driver
     \<Rightarrow> (unit, driver) res" where
  "submit_loop E task result i [] s = Ok () s"
| "submit_loop E task result i (a # connectionSlice) s =
    (let seq = drv_nextSeq s + 1; s1 = s\<lparr>drv_nextSeq := seq\<rparr>;
         k = DriverSubmitTaskRequest_TaskId task
     in case EncodePayload E \<lparr>Uri = DriverSubmitTask, SeqId = seq\<rparr> (MDriverSubmitTaskRequest task) of
          Inl err \<Rightarrow> submit_loop E task result (Suc i) connectionSlice s1
        | Inr payload \<Rightarrow>
            bind_res (ref_Send E (InConn a) payload
                (s1\<lparr>taskNotifyChan := (taskNotifyChan s1)(k \<mapsto> make_chan 0)\<rparr>))
              (\<lambda>err s2.
                let s3 = s2\<lparr>taskNotifyChan := (taskNotifyChan s2)(k := None)\<rparr> in
                if result i = Some SubmitTaskSuccess then Ok () s3
                else submit_loop E task result (Suc i) connectionSlice s3))"

definition SubmitTask ::
  "env \<Rightarrow> any_key list \<Rightarrow> (nat \<Rightarrow> string option) \<Rightarrow> DriverSubmitTaskRequest \<Rightarrow> driver
     \<Rightarrow> (unit, driver) res" where
  "SubmitTask E order result task s =
    (case typeConns s (KString NodeTypeScheduler) of
       None \<Rightarrow> Ok () s
     | Some peers \<Rightarrow>
         if GetSyncMapLen order peers 0 = 0 then Ok () s
         else submit_loop E task result 0 (List.map_filter peers order) s)"

text \<open>\<^verbatim>\<open>SubmitTask\<close> of the driver passes the task on.\<close>

definition driver_SubmitTask ::
  "env \<Rightarrow> any_key list \<Rightarrow> (nat \<Rightarrow> string option) \<Rightarrow> DriverSubmitTaskRequest \<Rightarrow> driver
     \<Rightarrow> (unit, driver) res" where
  "driver_SubmitTask E order result task s = SubmitTask E order result task s"

section \<open>Invariant\<close>

definition driver_inv :: "driver \<Rightarrow> bool" where
  "driver_inv s \<longleftrightarrow> node_inv s \<and> (\<forall>k. typeConns s k \<noteq> None \<longrightarrow> (\<exists>mode. k = KInt32 mode))"

lemma typeConns_ops [simp]:
  "typeConns (res_state (ref_Send E ref p s)) = typeConns s"
  "typeConns (ref_SetEstablished ref s) = typeConns s"
  "typeConns (ref_NotifyEstablish ref s) = typeConns s"
  by (cases ref; simp add: set_inb_def set_outb_def)+

lemma typeConns_reply [simp]: "typeConns (res_state (reply E ref h m s)) = typeConns s"
  by (simp add: reply_def split: sum.split)

lemma node_inv_driver_fields [simp]:
  "node_inv ((s :: driver)\<lparr>typeConns := t\<rparr>) = node_inv s"
  "node_inv (s\<lparr>taskNotifyChan := c\<rparr>) = node_inv s"
  by (simp_all add: node_inv_def)

lemma driver_OnPacket_inv:
  assumes inv: "driver_inv s"
  shows "driver_inv (res_state (driver_OnPacket E a h m s))"
proof -
  have node: "node_inv s" using inv by (simp add: driver_inv_def)
  have "driver_inv (res_state (driver_onEstablish E a h req s))" for req
    using inv ref_SetEstablished_inv [OF node, of "InConn a"]
    by (auto simp: driver_onEstablish_def Let_def driver_inv_def intro!: reply_inv
        simp del: ref_SetEstablished.simps ref_ID.simps)
  moreover have "driver_inv (onSchedulerSubmitTaskResp resp s)" for resp
    using inv by (auto simp: onSchedulerSubmitTaskResp_def Let_def driver_inv_def split: option.split)
  moreover have "driver_inv (res_state (driver_onEstablishAck a s))"
    using inv ref_NotifyEstablish_inv [OF node, of "InConn a"]
    by (simp add: driver_onEstablishAck_def driver_inv_def del: ref_NotifyEstablish.simps)
  ultimately show ?thesis
    using inv by (simp add: driver_OnPacket_def split: option.split)
qed

interpretation driverh: packet_handler "driver_OnPacket E a" driver_inv for E a
  by unfold_locales (rule driver_OnPacket_inv)

section \<open>Properties\<close>

lemma NewDriver_None: "NewDriver listen advertise opts = None"
proof -
  have "False" if "NewDriver listen advertise opts = Some d" for d
    by (rule NewDriver.raw_induct [where P = "\<lambda>_ _ _ _. False", OF _ that])
      (auto split: bind_splits)
  then show ?thesis by (cases "NewDriver listen advertise opts") auto
qed

text \<open>
  \<^verbatim>\<open>NewDriver\<close> never returns: its first statement is a call of itself with the same arguments, so
  no driver is ever constructed.
\<close>

theorem NewDriver_never_returns: "NewDriver listen advertise opts = None"
  by (rule NewDriver_None)

lemma GetSyncMapLen_acc: "GetSyncMapLen order m n = n + int (length (filter (\<lambda>k. m k \<noteq> None) order))"
  by (induction order arbitrary: n) auto

text \<open>
  \<^verbatim>\<open>GetSyncMapLen\<close> is the number of entries of the map, whatever the order in which \<^verbatim>\<open>Range\<close>
  visits them.
\<close>

theorem GetSyncMapLen_card:
  assumes "distinct order" and "dom m \<subseteq> set order"
  shows "GetSyncMapLen order m 0 = int (card (dom m))"
proof -
  have "set (filter (\<lambda>k. m k \<noteq> None) order) = dom m" using assms(2) by auto
  then have "length (filter (\<lambda>k. m k \<noteq> None) order) = card (dom m)"
    using distinct_card [of "filter (\<lambda>k. m k \<noteq> None) order"] assms(1) by simp
  then show ?thesis by (simp add: GetSyncMapLen_acc)
qed

lemma GetSyncMapLen_card_witness:
  "GetSyncMapLen [KUint64 1, KUint64 2] [KUint64 2 \<mapsto> (7 :: nat)] 0 = 1"
  by (subst GetSyncMapLen_card) auto

text \<open>
  C36. The driver cannot submit a task: peers are filed under the \<^verbatim>\<open>int32\<close> mode of their handshake and
  looked up under the string "scheduler". Whatever bytes arrived before, on whatever dialled
  connection, \<^verbatim>\<open>SubmitTask\<close> finds no scheduler, returns and sends nothing.
\<close>

theorem SubmitTask_never_sends:
  assumes "driver_inv s" and "readLoop E (driver_OnPacket E a) netc bs s = r"
  shows "SubmitTask E order result task (res_state r) = Ok () (res_state r)"
proof -
  have "driver_inv (res_state r)"
    using driverh.readLoop_inv [OF assms(1)] assms(2) by blast
  then have "typeConns (res_state r) (KString NodeTypeScheduler) = None"
    by (auto simp: driver_inv_def)
  then show ?thesis by (simp add: SubmitTask_def)
qed

definition sample_driver :: driver where
  "sample_driver =
    \<lparr>started = False, listenAddr = [], advertiseAddr = ''d'', options = zero_options, nextID = 1,
     conns = (\<lambda>_. None), inb = (\<lambda>_. newConnection 1 ''s'' None), outb = (\<lambda>_. NewConnection True 0 [] None []),
     fresh = 1, drv_nextSeq = 0, nodeMode = ModeDriver,
     typeConns = [KInt32 ModeScheduler \<mapsto> [KUint64 1 \<mapsto> 0]], taskNotifyChan = (\<lambda>_. None)\<rparr>"

lemma sample_driver_inv: "driver_inv sample_driver"
  by (auto simp: driver_inv_def node_inv_def sample_driver_def split: if_splits)

lemma SubmitTask_never_sends_witness:
  "SubmitTask (table_env []) [KUint64 1] (\<lambda>_. None)
     \<lparr>DriverSubmitTaskRequest_TaskId = ''t'', DriverSubmitTaskRequest_FuncName = [],
      DriverSubmitTaskRequest_Args = [], DriverSubmitTaskRequest_Dependencies = []\<rparr> sample_driver
   = Ok () sample_driver"
proof -
  have "readLoop (table_env []) (driver_OnPacket (table_env []) 0) (Some 0) [] sample_driver
      = Ok (ReadEnded (ErrExternal ''EOF'')) sample_driver"
    by (simp add: readLoop.simps [of _ _ _ "[]"] readFrame_def ReadFull_def)
  from SubmitTask_never_sends [OF sample_driver_inv this] show ?thesis by simp
qed

lemma submit_step_live:
  assumes ok: "transports_ok E" and live: "ref_live (InConn a) s"
    and rt: "pb_roundtrips E (MDriverSubmitTaskRequest task) body"
  obtains s' where "submit_loop E task result i (a # rest) s =
      (if result i = Some SubmitTaskSuccess then Ok () s' else submit_loop E task result (Suc i) rest s')"
    and "ref_stream (InConn a) s' = ref_stream (InConn a) s
      @ wire_frame \<lparr>Uri = DriverSubmitTask, SeqId = drv_nextSeq s + 1\<rparr> body"
    and "\<And>r. ref_live r s' = ref_live r s"
    and "\<And>r. r \<noteq> InConn a \<Longrightarrow> ref_stream r s' = ref_stream r s"
    and "drv_nextSeq s' = drv_nextSeq s + 1"
proof -
  let ?k = "DriverSubmitTaskRequest_TaskId task"
  let ?h = "\<lparr>Uri = DriverSubmitTask, SeqId = drv_nextSeq s + 1\<rparr>"
  let ?s1 = "s\<lparr>drv_nextSeq := drv_nextSeq s + 1,
    taskNotifyChan := (taskNotifyChan s)(?k \<mapsto> make_chan 0)\<rparr>"
  have same: "ref_live r ?s1 = ref_live r s" "ref_stream r ?s1 = ref_stream r s" for r
    by (cases r; simp)+
  have live1: "ref_live (InConn a) ?s1" using live same by blast
  obtain s2 where s2: "reply E (InConn a) ?h (MDriverSubmitTaskRequest task) ?s1 = Ok None s2"
    "ref_stream (InConn a) s2 = ref_stream (InConn a) ?s1 @ wire_frame ?h body"
    "\<And>r. ref_live r s2 = ref_live r ?s1"
    "\<And>r. r \<noteq> InConn a \<Longrightarrow> ref_stream r s2 = ref_stream r ?s1"
    by (rule reply_live [OF ok live1 rt]) blast
  let ?s3 = "s2\<lparr>taskNotifyChan := (taskNotifyChan s2)(?k := None)\<rparr>"
  have same3: "ref_live r ?s3 = ref_live r s2" "ref_stream r ?s3 = ref_stream r s2" for r
    by (cases r; simp)+
  have seq: "drv_nextSeq (res_state (reply E (InConn a) h m s)) = drv_nextSeq s" for h m and s :: driver
    by (simp add: reply_def set_inb_def split: sum.split)
  show thesis
  proof (rule that [of ?s3])
    show "submit_loop E task result i (a # rest) s =
      (if result i = Some SubmitTaskSuccess then Ok () ?s3 else submit_loop E task result (Suc i) rest ?s3)"
      using s2(1)
      by (cases "EncodePayload E ?h (MDriverSubmitTaskRequest task)") (auto simp: reply_def Let_def)
    show "drv_nextSeq ?s3 = drv_nextSeq s + 1"
      using seq [of ?h "MDriverSubmitTaskRequest task" ?s1] s2(1) by simp
    show "ref_stream (InConn a) ?s3 = ref_stream (InConn a) s @ wire_frame ?h body"
      using s2(2) same(2) same3(2) by metis
    show "ref_live r ?s3 = ref_live r s" for r
      using s2(3) same(1) same3(1) by metis
    show "r \<noteq> InConn a \<Longrightarrow> ref_stream r ?s3 = ref_stream r s" for r
      using s2(4) same(2) same3(2) by metis
  qed
qed

text \<open>
  Were schedulers found, they would be tried one after the other until one answers success: with
  working transports, when the \<open>n\<close>-th wait is the first that ends with success, the first
  \<open>n + 1\<close> of them receive exactly one frame each with the task, numbered consecutively, and no
  other connection receives anything.
\<close>

theorem submit_loop_tries_in_order:
  assumes ok: "transports_ok E" and rt: "pb_roundtrips E (MDriverSubmitTaskRequest task) body"
    and live: "\<forall>a \<in> set addrs. ref_live (InConn a) s" and dist: "distinct addrs"
    and n: "n < length addrs" "result (i + n) = Some SubmitTaskSuccess"
      "\<forall>j < n. result (i + j) \<noteq> Some SubmitTaskSuccess"
  shows "\<exists>s'. submit_loop E task result i addrs s = Ok () s'
    \<and> (\<forall>j \<le> n. ref_stream (InConn (addrs ! j)) s' = ref_stream (InConn (addrs ! j)) s
        @ wire_frame \<lparr>Uri = DriverSubmitTask, SeqId = drv_nextSeq s + 1 + word_of_nat j\<rparr> body)
    \<and> (\<forall>r. r \<notin> InConn ` set (take (Suc n) addrs) \<longrightarrow> ref_stream r s' = ref_stream r s)"
  using live dist n
proof (induction addrs arbitrary: i n s)
  case Nil
  then show ?case by simp
next
  case (Cons a addrs)
  have live_a: "ref_live (InConn a) s" using Cons.prems(1) by simp
  obtain s1 where s1: "submit_loop E task result i (a # addrs) s =
      (if result i = Some SubmitTaskSuccess then Ok () s1 else submit_loop E task result (Suc i) addrs s1)"
    "ref_stream (InConn a) s1 = ref_stream (InConn a) s
      @ wire_frame \<lparr>Uri = DriverSubmitTask, SeqId = drv_nextSeq s + 1\<rparr> body"
    "\<And>r. ref_live r s1 = ref_live r s" "\<And>r. r \<noteq> InConn a \<Longrightarrow> ref_stream r s1 = ref_stream r s"
    "drv_nextSeq s1 = drv_nextSeq s + 1"
    by (rule submit_step_live [OF ok live_a rt, of result i addrs]) blast
  show ?case
  proof (cases n)
    case 0
    then show ?thesis using s1 Cons.prems(4) by (intro exI [of _ s1]) simp
  next
    case (Suc m)
    have "result i \<noteq> Some SubmitTaskSuccess"
      using Cons.prems(5) Suc by (metis add_0_right zero_less_Suc)
    then have step: "submit_loop E task result i (a # addrs) s = submit_loop E task result (Suc i) addrs s1"
      using s1(1) by simp
    have "result (Suc i + j) \<noteq> Some SubmitTaskSuccess" if "j < m" for j
      using Cons.prems(5) that Suc by (metis Suc_less_eq add_Suc_shift)
    then have "\<exists>s'. submit_loop E task result (Suc i) addrs s1 = Ok () s'
      \<and> (\<forall>j \<le> m. ref_stream (InConn (addrs ! j)) s' = ref_stream (InConn (addrs ! j)) s1
          @ wire_frame \<lparr>Uri = DriverSubmitTask, SeqId = drv_nextSeq s1 + 1 + word_of_nat j\<rparr> body)
      \<and> (\<forall>r. r \<notin> InConn ` set (take (Suc m) addrs) \<longrightarrow> ref_stream r s' = ref_stream r s1)"
      using Cons.prems Suc s1(3) by (intro Cons.IH) simp_all
    then obtain s' where s': "submit_loop E task result (Suc i) addrs s1 = Ok () s'"
      "\<And>j. j \<le> m \<Longrightarrow> ref_stream (InConn (addrs ! j)) s' = ref_stream (InConn (addrs ! j)) s1
          @ wire_frame \<lparr>Uri = DriverSubmitTask, SeqId = drv_nextSeq s1 + 1 + word_of_nat j\<rparr> body"
      "\<And>r. r \<notin> InConn ` set (take (Suc m) addrs) \<Longrightarrow> ref_stream r s' = ref_stream r s1" by blast
    have a_new: "a \<notin> set addrs" using Cons.prems(2) by simp
    have "ref_stream (InConn ((a # addrs) ! j)) s' = ref_stream (InConn ((a # addrs) ! j)) s
        @ wire_frame \<lparr>Uri = DriverSubmitTask, SeqId = drv_nextSeq s + 1 + word_of_nat j\<rparr> body"
      if j: "j \<le> n" for j
    proof (cases j)
      case 0
      have "InConn a \<notin> InConn ` set (take (Suc m) addrs)" using a_new by (auto dest: in_set_takeD)
      from s'(3) [OF this] s1(2) 0 show ?thesis by (simp del: ref_stream.simps)
    next
      case (Suc l)
      then have l: "l \<le> m" "l < length addrs" using j \<open>n = Suc m\<close> Cons.prems(3) by simp_all
      then have "addrs ! l \<noteq> a" using a_new by (metis nth_mem)
      then show ?thesis
        using s'(2) [OF l(1)] s1(4) [of "InConn (addrs ! l)"] s1(5) Suc
        by (simp add: algebra_simps del: ref_stream.simps)
    qed
    moreover have "ref_stream r s' = ref_stream r s" if "r \<notin> InConn ` set (take (Suc n) (a # addrs))" for r
      using that s'(3) [of r] s1(4) [of r] Suc by (simp del: ref_stream.simps)
    ultimately show ?thesis using step s'(1) by (intro exI [of _ s']) (simp del: ref_stream.simps)
  qed
qed

definition sample_submit :: DriverSubmitTaskRequest where
  "sample_submit = \<lparr>DriverSubmitTaskRequest_TaskId = ''t'', DriverSubmitTaskRequest_FuncName = [],
      DriverSubmitTaskRequest_Args = [], DriverSubmitTaskRequest_Dependencies = []\<rparr>"

lemma submit_loop_tries_in_order_witness:
  "\<exists>s'. submit_loop (table_env [(MDriverSubmitTaskRequest sample_submit, [5])]) sample_submit
      (\<lambda>_. Some SubmitTaskSuccess) 0 [0] (sample_driver\<lparr>inb := \<lambda>_. newConnection 1 ''s'' (Some 4)\<rparr>) = Ok () s'
    \<and> ref_stream (InConn 0) s' = wire_frame \<lparr>Uri = DriverSubmitTask, SeqId = 1\<rparr> [5]"
proof -
  let ?E = "table_env [(MDriverSubmitTaskRequest sample_submit, [5])]"
  let ?s = "sample_driver\<lparr>inb := \<lambda>_. newConnection 1 ''s'' (Some 4)\<rparr>"
  have rt: "pb_roundtrips ?E (MDriverSubmitTaskRequest sample_submit) [5]"
    by (simp add: pb_roundtrips_def)
  have live: "\<forall>a \<in> set [0]. ref_live (InConn a) ?s" by (simp add: newConnection_def)
  have z: "ref_stream (InConn 0) ?s = []" "drv_nextSeq ?s = 0"
    by (simp_all add: newConnection_def sample_driver_def)
  have ok: "transports_ok ?E" by (simp add: transports_ok_def writer_ok_def)
  from submit_loop_tries_in_order [OF ok rt live, of 0 "\<lambda>_. Some SubmitTaskSuccess" 0]
  obtain s' where "submit_loop ?E sample_submit (\<lambda>_. Some SubmitTaskSuccess) 0 [0] ?s = Ok () s'"
    "ref_stream (InConn 0) s' = ref_stream (InConn 0) ?s
      @ wire_frame \<lparr>Uri = DriverSubmitTask, SeqId = drv_nextSeq ?s + 1 + word_of_nat 0\<rparr> [5]"
    by (auto simp del: ref_stream.simps submit_loop.simps)
  then show ?thesis unfolding z by (intro exI [of _ s']) simp
qed

end
