(* ===== verification/ServerConn.thy ===== *)
theory ServerConn
  imports Worker Gcs Driver
begin

text \<open>
  The connection objects of the servers, as methods at their node: \<^verbatim>\<open>core/scheduler/connection.go\<close>,
  \<^verbatim>\<open>core/worker/connection.go\<close>, \<^verbatim>\<open>core/gcs/connection.go\<close>, and what \<open>Driver\<close> does not have of
  \<^verbatim>\<open>core/driver/connection.go\<close>. The four files are copies of one text and differ in the counter
  that numbers a packet, in what an established connection is entered into, and in the mode that
  \<^verbatim>\<open>Establish\<close> sends. The connection \<open>a\<close> of a node is the object at address \<open>a\<close> of its heap
  \<open>inb\<close>. What the copies have in common is the locale \<open>heartbeat\<close>.
\<close>

section \<open>The scheduler's copy\<close>

type_synonym scheduler_conn = conn

definition scheduler_newConnection :: "uint64 \<Rightarrow> string \<Rightarrow> nat option \<Rightarrow> scheduler_conn" where
  "scheduler_newConnection cid remote gc =
    \<lparr>conn_id = cid, conn_remote = remote, gnetC = gc, netC = None, established = False,
     establishChan = make_chan 1, conn_io = []\<rparr>"

definition scheduler_conn_ID :: "nat \<Rightarrow> scheduler \<Rightarrow> uint64" where
  "scheduler_conn_ID a s = conn_id (inb s a)"

definition scheduler_conn_Remote :: "nat \<Rightarrow> scheduler \<Rightarrow> string" where
  "scheduler_conn_Remote a s = conn_remote (inb s a)"

definition scheduler_conn_SetEstablished :: "nat \<Rightarrow> scheduler \<Rightarrow> scheduler" where
  "scheduler_conn_SetEstablished a s = set_inb a s ((inb s a)\<lparr>established := True\<rparr>)"

partial_function (option) scheduler_writeFull ::
  "env \<Rightarrow> nat \<Rightarrow> byte list \<Rightarrow> io_event list \<Rightarrow> (go_error option, io_event list) res option" where
  "scheduler_writeFull E w b tr =
    (if b = [] then Some (Ok None tr)
     else case NetWriteRes E (length tr) w b of (n, err) \<Rightarrow>
       (if err \<noteq> None then Some (Ok err (tr @ [NetWrite w b n err]))
        else if length b < n then Some (Panic IndexOutOfRange (tr @ [NetWrite w b n err]))
        else scheduler_writeFull E w (drop n b) (tr @ [NetWrite w b n err])))"

definition scheduler_conn_OnPacket :: "env \<Rightarrow> nat \<Rightarrow> scheduler handler" where
  "scheduler_conn_OnPacket E a h msg s = scheduler_OnPacket E (InConn a) h msg s"

definition scheduler_conn_Send ::
  "env \<Rightarrow> nat \<Rightarrow> byte list \<Rightarrow> scheduler \<Rightarrow> (go_error option, scheduler) res" where
  "scheduler_conn_Send E a payload s = map_state (set_inb a s) (connection_Send E payload (inb s a))"

definition scheduler_conn_readFrame ::
  "nat \<Rightarrow> byte list \<Rightarrow> scheduler \<Rightarrow> (go_error + byte list) \<times> byte list" where
  "scheduler_conn_readFrame a bs s =
    (case netC (inb s a) of
       None \<Rightarrow> (Inl ErrNoNetConn, bs)
     | Some _ \<Rightarrow>
         (case ReadFull 4 bs of
            (Inl err, rest) \<Rightarrow> (Inl err, rest)
          | (Inr hdr, rest) \<Rightarrow>
              let n = unat (Uint32 hdr) in
              if n > MaxFrameSize then (Inl ErrFrameTooLarge, rest)
              else ReadFull n rest))"

definition scheduler_conn_Close :: "nat \<Rightarrow> scheduler \<Rightarrow> scheduler" where
  "scheduler_conn_Close a s = set_inb a s (connection_Close (inb s a))"

text \<open>
  A turn of \<^verbatim>\<open>Loop\<close>: with \<open>timeout\<close> the timer wins the \<^verbatim>\<open>select\<close> and the loop starts over,
  otherwise a token is taken and the connection is established and filed; \<open>None\<close> waits. After
  \<open>Spinning\<close> the loop polls \<^verbatim>\<open>established\<close> until it is cleared.
\<close>

definition scheduler_conn_Loop :: "bool \<Rightarrow> nat \<Rightarrow> scheduler \<Rightarrow> (dial_result \<times> scheduler) option" where
  "scheduler_conn_Loop timeout a s =
    (if timeout then Some (Redial, s)
     else case try_recv (establishChan (inb s a)) of
       None \<Rightarrow> None
     | Some (_, ch) \<Rightarrow>
         let s1 = set_inb a s ((inb s a)\<lparr>establishChan := ch, established := True\<rparr>)
         in Some (Spinning, s1\<lparr>conns := (conns s1)(KUint64 (ref_ID (InConn a) s1) := Some a)\<rparr>))"

definition scheduler_conn_Establish :: "env \<Rightarrow> nat \<Rightarrow> scheduler \<Rightarrow> (unit, scheduler) res" where
  "scheduler_conn_Establish E a s =
    (let seq = nextID s + 1; s1 = s\<lparr>nextID := seq\<rparr> in
     case EncodePayload E \<lparr>Uri = MetaEstablish, SeqId = seq\<rparr>
         (MEstablishReq \<lparr>EstablishReq_Addr = advertiseAddr s1, EstablishReq_Mode = 0\<rparr>) of
       Inl err \<Rightarrow> Ok () s1
     | Inr payload \<Rightarrow> bind_res (scheduler_conn_Send E a payload s1) (\<lambda>err s2. Ok () s2))"

definition scheduler_conn_ShakeHand :: "env \<Rightarrow> nat \<Rightarrow> scheduler \<Rightarrow> (unit, scheduler) res" where
  "scheduler_conn_ShakeHand E a s =
    (let seq = nextID s + 1; s1 = s\<lparr>nextID := seq\<rparr> in
     case EncodePayload E \<lparr>Uri = MetaShakeHand, SeqId = seq\<rparr> MShakeHandReq of
       Inl err \<Rightarrow> Ok () s1
     | Inr payload \<Rightarrow> bind_res (scheduler_conn_Send E a payload s1) (\<lambda>err s2. Ok () s2))"

definition scheduler_conn_NotifyEstablish :: "nat \<Rightarrow> scheduler \<Rightarrow> scheduler" where
  "scheduler_conn_NotifyEstablish a s =
    (case try_send () (establishChan (inb s a)) of
       Some ch \<Rightarrow> set_inb a s ((inb s a)\<lparr>establishChan := ch\<rparr>)
     | None \<Rightarrow> s)"

definition scheduler_conn_Ontick :: "env \<Rightarrow> nat \<Rightarrow> scheduler \<Rightarrow> (unit, scheduler) res" where
  "scheduler_conn_Ontick E a s =
    (if \<not> established (inb s a) then Ok () s else scheduler_conn_ShakeHand E a s)"

section \<open>The worker's copy\<close>

type_synonym worker_conn = conn

definition worker_newConnection :: "uint64 \<Rightarrow> string \<Rightarrow> nat option \<Rightarrow> worker_conn" where
  "worker_newConnection cid remote gc =
    \<lparr>conn_id = cid, conn_remote = remote, gnetC = gc, netC = None, established = False,
     establishChan = make_chan 1, conn_io = []\<rparr>"

definition worker_conn_ID :: "nat \<Rightarrow> worker \<Rightarrow> uint64" where
  "worker_conn_ID a s = conn_id (inb s a)"

definition worker_conn_Remote :: "nat \<Rightarrow> worker \<Rightarrow> string" where
  "worker_conn_Remote a s = conn_remote (inb s a)"

definition worker_conn_SetEstablished :: "nat \<Rightarrow> worker \<Rightarrow> worker" where
  "worker_conn_SetEstablished a s = set_inb a s ((inb s a)\<lparr>established := True\<rparr>)"

partial_function (option) worker_writeFull ::
  "env \<Rightarrow> nat \<Rightarrow> byte list \<Rightarrow> io_event list \<Rightarrow> (go_error option, io_event list) res option" where
  "worker_writeFull E w b tr =
    (if b = [] then Some (Ok None tr)
     else case NetWriteRes E (length tr) w b of (n, err) \<Rightarrow>
       (if err \<noteq> None then Some (Ok err (tr @ [NetWrite w b n err]))
        else if length b < n then Some (Panic IndexOutOfRange (tr @ [NetWrite w b n err]))
        else worker_writeFull E w (drop n b) (tr @ [NetWrite w b n err])))"

definition worker_conn_OnPacket :: "env \<Rightarrow> (nat \<Rightarrow> int64) \<Rightarrow> nat \<Rightarrow> worker handler" where
  "worker_conn_OnPacket E clock a h msg s = worker_OnPacket E clock (InConn a) h msg s"

definition worker_conn_Send ::
  "env \<Rightarrow> nat \<Rightarrow> byte list \<Rightarrow> worker \<Rightarrow> (go_error option, worker) res" where
  "worker_conn_Send E a payload s = map_state (set_inb a s) (connection_Send E payload (inb s a))"

definition worker_conn_readFrame ::
  "nat \<Rightarrow> byte list \<Rightarrow> worker \<Rightarrow> (go_error + byte list) \<times> byte list" where
  "worker_conn_readFrame a bs s =
    (case netC (inb s a) of
       None \<Rightarrow> (Inl ErrNoNetConn, bs)
     | Some _ \<Rightarrow>
         (case ReadFull 4 bs of
            (Inl err, rest) \<Rightarrow> (Inl err, rest)
          | (Inr hdr, rest) \<Rightarrow>
              let n = unat (Uint32 hdr) in
              if n > MaxFrameSize then (Inl ErrFrameTooLarge, rest)
              else ReadFull n rest))"

definition worker_conn_Close :: "nat \<Rightarrow> worker \<Rightarrow> worker" where
  "worker_conn_Close a s = set_inb a s (connection_Close (inb s a))"

text \<open>The worker also enters an established connection under its remote address.\<close>

definition worker_conn_Loop :: "bool \<Rightarrow> nat \<Rightarrow> worker \<Rightarrow> (dial_result \<times> worker) option" where
  "worker_conn_Loop timeout a s =
    (if timeout then Some (Redial, s)
     else case try_recv (establishChan (inb s a)) of
       None \<Rightarrow> None
     | Some (_, ch) \<Rightarrow>
         let s1 = set_inb a s ((inb s a)\<lparr>establishChan := ch, established := True\<rparr>)
         in Some (Spinning, s1
              \<lparr>conns := (conns s1)(KUint64 (ref_ID (InConn a) s1) := Some a),
               connAddrs := (connAddrs s1)(ref_Remote (InConn a) s1 \<mapsto> InConn a)\<rparr>))"

definition worker_conn_Establish :: "env \<Rightarrow> nat \<Rightarrow> worker \<Rightarrow> (unit, worker) res" where
  "worker_conn_Establish E a s =
    (let seq = nextID s + 1; s1 = s\<lparr>nextID := seq\<rparr> in
     case EncodePayload E \<lparr>Uri = MetaEstablish, SeqId = seq\<rparr>
         (MEstablishReq \<lparr>EstablishReq_Addr = advertiseAddr s1, EstablishReq_Mode = 0\<rparr>) of
       Inl err \<Rightarrow> Ok () s1
     | Inr payload \<Rightarrow> bind_res (worker_conn_Send E a payload s1) (\<lambda>err s2. Ok () s2))"

definition worker_conn_ShakeHand :: "env \<Rightarrow> nat \<Rightarrow> worker \<Rightarrow> (unit, worker) res" where
  "worker_conn_ShakeHand E a s =
    (let seq = nextID s + 1; s1 = s\<lparr>nextID := seq\<rparr> in
     case EncodePayload E \<lparr>Uri = MetaShakeHand, SeqId = seq\<rparr> MShakeHandReq of
       Inl err \<Rightarrow> Ok () s1
     | Inr payload \<Rightarrow> bind_res (worker_conn_Send E a payload s1) (\<lambda>err s2. Ok () s2))"

definition worker_conn_NotifyEstablish :: "nat \<Rightarrow> worker \<Rightarrow> worker" where
  "worker_conn_NotifyEstablish a s =
    (case try_send () (establishChan (inb s a)) of
       Some ch \<Rightarrow> set_inb a s ((inb s a)\<lparr>establishChan := ch\<rparr>)
     | None \<Rightarrow> s)"

definition worker_conn_Ontick :: "env \<Rightarrow> nat \<Rightarrow> worker \<Rightarrow> (unit, worker) res" where
  "worker_conn_Ontick E a s =
    (if \<not> established (inb s a) then Ok () s else worker_conn_ShakeHand E a s)"

section \<open>The GCS's copy\<close>

text \<open>Its constructor is \<open>newConnection\<close>.\<close>

definition gcs_conn_ID :: "nat \<Rightarrow> gcs \<Rightarrow> uint64" where
  "gcs_conn_ID a s = conn_id (inb s a)"

definition gcs_conn_Remote :: "nat \<Rightarrow> gcs \<Rightarrow> string" where
  "gcs_conn_Remote a s = conn_remote (inb s a)"

definition gcs_conn_OnPacket :: "env \<Rightarrow> nat \<Rightarrow> gcs handler" where
  "gcs_conn_OnPacket E a h msg s = gcs_OnPacket E (InConn a) h msg s"

definition gcs_conn_Send ::
  "env \<Rightarrow> nat \<Rightarrow> byte list \<Rightarrow> gcs \<Rightarrow> (go_error option, gcs) res" where
  "gcs_conn_Send E a payload s = map_state (set_inb a s) (connection_Send E payload (inb s a))"

definition gcs_conn_readFrame ::
  "nat \<Rightarrow> byte list \<Rightarrow> gcs \<Rightarrow> (go_error + byte list) \<times> byte list" where
  "gcs_conn_readFrame a bs s =
    (case netC (inb s a) of
       None \<Rightarrow> (Inl ErrNoNetConn, bs)
     | Some _ \<Rightarrow>
         (case ReadFull 4 bs of
            (Inl err, rest) \<Rightarrow> (Inl err, rest)
          | (Inr hdr, rest) \<Rightarrow>
              let n = unat (Uint32 hdr) in
              if n > MaxFrameSize then (Inl ErrFrameTooLarge, rest)
              else ReadFull n rest))"

definition gcs_conn_Close :: "nat \<Rightarrow> gcs \<Rightarrow> gcs" where
  "gcs_conn_Close a s = set_inb a s (connection_Close (inb s a))"

definition gcs_conn_Loop :: "bool \<Rightarrow> nat \<Rightarrow> gcs \<Rightarrow> (dial_result \<times> gcs) option" where
  "gcs_conn_Loop timeout a s =
    (if timeout then Some (Redial, s)
     else case try_recv (establishChan (inb s a)) of
       None \<Rightarrow> None
     | Some (_, ch) \<Rightarrow>
         let s1 = set_inb a s ((inb s a)\<lparr>establishChan := ch, established := True\<rparr>)
         in Some (Spinning, s1\<lparr>conns := (conns s1)(KUint64 (ref_ID (InConn a) s1) := Some a)\<rparr>))"

definition gcs_conn_Establish :: "env \<Rightarrow> nat \<Rightarrow> gcs \<Rightarrow> (unit, gcs) res" where
  "gcs_conn_Establish E a s =
    (let seq = nextSeq s + 1; s1 = s\<lparr>nextSeq := seq\<rparr> in
     case EncodePayload E \<lparr>Uri = MetaEstablish, SeqId = seq\<rparr>
         (MEstablishReq \<lparr>EstablishReq_Addr = advertiseAddr s1, EstablishReq_Mode = 0\<rparr>) of
       Inl err \<Rightarrow> Ok () s1
     | Inr payload \<Rightarrow> bind_res (gcs_conn_Send E a payload s1) (\<lambda>err s2. Ok () s2))"

definition gcs_conn_ShakeHand :: "env \<Rightarrow> nat \<Rightarrow> gcs \<Rightarrow> (unit, gcs) res" where
  "gcs_conn_ShakeHand E a s =
    (let seq = nextSeq s + 1; s1 = s\<lparr>nextSeq := seq\<rparr> in
     case EncodePayload E \<lparr>Uri = MetaShakeHand, SeqId = seq\<rparr> MShakeHandReq of
       Inl err \<Rightarrow> Ok () s1
     | Inr payload \<Rightarrow> bind_res (gcs_conn_Send E a payload s1) (\<lambda>err s2. Ok () s2))"

definition gcs_conn_NotifyEstablish :: "nat \<Rightarrow> gcs \<Rightarrow> gcs" where
  "gcs_conn_NotifyEstablish a s =
    (case try_send () (establishChan (inb s a)) of
       Some ch \<Rightarrow> set_inb a s ((inb s a)\<lparr>establishChan := ch\<rparr>)
     | None \<Rightarrow> s)"

definition gcs_conn_Ontick :: "env \<Rightarrow> nat \<Rightarrow> gcs \<Rightarrow> (unit, gcs) res" where
  "gcs_conn_Ontick E a s =
    (if \<not> established (inb s a) then Ok () s else gcs_conn_ShakeHand E a s)"

section \<open>The rest of the driver's copy\<close>

type_synonym driver_conn = conn

definition driver_newConnection :: "uint64 \<Rightarrow> string \<Rightarrow> nat option \<Rightarrow> driver_conn" where
  "driver_newConnection cid remote gc =
    \<lparr>conn_id = cid, conn_remote = remote, gnetC = gc, netC = None, established = False,
     establishChan = make_chan 1, conn_io = []\<rparr>"

definition driver_conn_ID :: "nat \<Rightarrow> driver \<Rightarrow> uint64" where
  "driver_conn_ID a s = conn_id (inb s a)"

definition driver_conn_Remote :: "nat \<Rightarrow> driver \<Rightarrow> string" where
  "driver_conn_Remote a s = conn_remote (inb s a)"

partial_function (option) driver_writeFull ::
  "env \<Rightarrow> nat \<Rightarrow> byte list \<Rightarrow> io_event list \<Rightarrow> (go_error option, io_event list) res option" where
  "driver_writeFull E w b tr =
    (if b = [] then Some (Ok None tr)
     else case NetWriteRes E (length tr) w b of (n, err) \<Rightarrow>
       (if err \<noteq> None then Some (Ok err (tr @ [NetWrite w b n err]))
        else if length b < n then Some (Panic IndexOutOfRange (tr @ [NetWrite w b n err]))
        else driver_writeFull E w (drop n b) (tr @ [NetWrite w b n err])))"

definition driver_conn_OnPacket :: "env \<Rightarrow> nat \<Rightarrow> driver handler" where
  "driver_conn_OnPacket E a h msg s = driver_OnPacket E a h msg s"

definition driver_conn_Send ::
  "env \<Rightarrow> nat \<Rightarrow> byte list \<Rightarrow> driver \<Rightarrow> (go_error option, driver) res" where
  "driver_conn_Send E a payload s = map_state (set_inb a s) (connection_Send E payload (inb s a))"

definition driver_conn_Close :: "nat \<Rightarrow> driver \<Rightarrow> driver" where
  "driver_conn_Close a s = set_inb a s (connection_Close (inb s a))"

definition driver_conn_ShakeHand :: "env \<Rightarrow> nat \<Rightarrow> driver \<Rightarrow> (unit, driver) res" where
  "driver_conn_ShakeHand E a s =
    (let seq = drv_nextSeq s + 1; s1 = s\<lparr>drv_nextSeq := seq\<rparr> in
     case EncodePayload E \<lparr>Uri = MetaShakeHand, SeqId = seq\<rparr> MShakeHandReq of
       Inl err \<Rightarrow> Ok () s1
     | Inr payload \<Rightarrow> bind_res (driver_conn_Send E a payload s1) (\<lambda>err s2. Ok () s2))"

definition driver_conn_NotifyEstablish :: "nat \<Rightarrow> driver \<Rightarrow> driver" where
  "driver_conn_NotifyEstablish a s =
    (case try_send () (establishChan (inb s a)) of
       Some ch \<Rightarrow> set_inb a s ((inb s a)\<lparr>establishChan := ch\<rparr>)
     | None \<Rightarrow> s)"

definition driver_conn_Ontick :: "env \<Rightarrow> nat \<Rightarrow> driver \<Rightarrow> (unit, driver) res" where
  "driver_conn_Ontick E a s =
    (if \<not> established (inb s a) then Ok () s else driver_conn_ShakeHand E a s)"

text \<open>\<^verbatim>\<open>Ontick\<close> of the driver's manager, which nothing calls.\<close>

fun driver_Ontick :: "env \<Rightarrow> any_key list \<Rightarrow> driver \<Rightarrow> (unit, driver) res" where
  "driver_Ontick E [] s = Ok () s"
| "driver_Ontick E (k # order) s =
    (case conns s k of
       None \<Rightarrow> driver_Ontick E order s
     | Some a \<Rightarrow> bind_res (driver_conn_Ontick E a s) (\<lambda>_ s1. driver_Ontick E order s1))"

section \<open>The copies and the interface of a connection\<close>

text \<open>
  Through \<^verbatim>\<open>common.Connection\<close> the managers reach their own copy of each method; the copies of
  \<^verbatim>\<open>writeFull\<close> are one function.
\<close>

lemma conn_interface:
  "scheduler_conn_ID a s = ref_ID (InConn a) s" "scheduler_conn_Remote a s = ref_Remote (InConn a) s"
  "worker_conn_ID a w = ref_ID (InConn a) w" "worker_conn_Remote a w = ref_Remote (InConn a) w"
  "gcs_conn_ID a g = ref_ID (InConn a) g" "gcs_conn_Remote a g = ref_Remote (InConn a) g"
  "driver_conn_ID a d = ref_ID (InConn a) d" "driver_conn_Remote a d = ref_Remote (InConn a) d"
  "scheduler_conn_SetEstablished a s = ref_SetEstablished (InConn a) s"
  "worker_conn_SetEstablished a w = ref_SetEstablished (InConn a) w"
  by (simp_all add: scheduler_conn_ID_def worker_conn_ID_def gcs_conn_ID_def driver_conn_ID_def
      scheduler_conn_Remote_def worker_conn_Remote_def gcs_conn_Remote_def driver_conn_Remote_def
      scheduler_conn_SetEstablished_def worker_conn_SetEstablished_def connection_SetEstablished_def)

text \<open>The equation of the loop; \<open>writeFull\<close> is its least solution, and so is every copy.\<close>

definition writes_fully ::
  "(env \<Rightarrow> nat \<Rightarrow> byte list \<Rightarrow> io_event list \<Rightarrow> (go_error option, io_event list) res option) \<Rightarrow> bool" where
  "writes_fully f \<longleftrightarrow> (\<forall>E w b tr. f E w b tr =
    (if b = [] then Some (Ok None tr)
     else case NetWriteRes E (length tr) w b of (n, err) \<Rightarrow>
       (if err \<noteq> None then Some (Ok err (tr @ [NetWrite w b n err]))
        else if length b < n then Some (Panic IndexOutOfRange (tr @ [NetWrite w b n err]))
        else f E w (drop n b) (tr @ [NetWrite w b n err]))))"

lemma writeFull_least:
  assumes "writes_fully f" and "writeFull E w b tr = Some r"
  shows "f E w b tr = Some r"
proof (rule writeFull.raw_induct [where P = "\<lambda>E w b tr r. f E w b tr = Some r", OF _ assms(2)])
  fix g E w b tr r
  assume IH: "\<And>E w b tr r. g E w b tr = Some r \<Longrightarrow> f E w b tr = Some r"
    and "(if b = [] then Some (Ok None tr)
      else case NetWriteRes E (length tr) w b of (n, err) \<Rightarrow>
        (if err \<noteq> None then Some (Ok err (tr @ [NetWrite w b n err]))
         else if length b < n then Some (Panic IndexOutOfRange (tr @ [NetWrite w b n err]))
         else g E w (drop n b) (tr @ [NetWrite w b n err]))) = Some r"
  then show "f E w b tr = Some r"
    using assms(1) [unfolded writes_fully_def, rule_format, of E w b tr]
    by (auto split: if_splits prod.splits)
qed

lemma scheduler_writeFull_back: "scheduler_writeFull E w b tr = Some r \<Longrightarrow> writeFull E w b tr = Some r"
  by (rule scheduler_writeFull.raw_induct [where P = "\<lambda>E w b tr r. writeFull E w b tr = Some r"])
    (subst writeFull.simps, auto split: if_splits prod.splits)

lemma worker_writeFull_back: "worker_writeFull E w b tr = Some r \<Longrightarrow> writeFull E w b tr = Some r"
  by (rule worker_writeFull.raw_induct [where P = "\<lambda>E w b tr r. writeFull E w b tr = Some r"])
    (subst writeFull.simps, auto split: if_splits prod.splits)

lemma driver_writeFull_back: "driver_writeFull E w b tr = Some r \<Longrightarrow> writeFull E w b tr = Some r"
  by (rule driver_writeFull.raw_induct [where P = "\<lambda>E w b tr r. writeFull E w b tr = Some r"])
    (subst writeFull.simps, auto split: if_splits prod.splits)

lemma writeFull_copies:
  "scheduler_writeFull = writeFull" "worker_writeFull = writeFull" "driver_writeFull = writeFull"
proof -
  have same: "f = writeFull"
    if "writes_fully f" and "\<And>E w b tr r. f E w b tr = Some r \<Longrightarrow> writeFull E w b tr = Some r" for f
  proof (intro ext)
    fix E w b tr
    show "f E w b tr = writeFull E w b tr"
      using writeFull_least [OF that(1), of E w b tr] that(2) [of E w b tr]
      by (cases "f E w b tr"; cases "writeFull E w b tr") auto
  qed
  show "scheduler_writeFull = writeFull"
    by (rule same [OF _ scheduler_writeFull_back]) (simp_all add: writes_fully_def scheduler_writeFull.simps)
  show "worker_writeFull = writeFull"
    by (rule same [OF _ worker_writeFull_back]) (simp_all add: writes_fully_def worker_writeFull.simps)
  show "driver_writeFull = writeFull"
    by (rule same [OF _ driver_writeFull_back]) (simp_all add: writes_fully_def driver_writeFull.simps)
qed

section \<open>What the copies share\<close>

text \<open>
  \<open>ctr\<close> is the counter that numbers the heartbeats of a node and \<open>bump\<close> draws from it; \<open>tick\<close> is
  \<^verbatim>\<open>Ontick\<close> of a connection and \<open>round\<close> the manager's, over the connection table in the order of
  its argument. A round writes to \<open>heartbeat_targets\<close>.
\<close>

definition heartbeat_targets :: "any_key list \<Rightarrow> 'a node_scheme \<Rightarrow> nat list" where
  "heartbeat_targets order s = filter (\<lambda>a. established (inb s a)) (List.map_filter (conns s) order)"

locale heartbeat =
  fixes ctr :: "'a node_scheme \<Rightarrow> uint64"
    and bump :: "'a node_scheme \<Rightarrow> 'a node_scheme"
    and tick :: "env \<Rightarrow> nat \<Rightarrow> 'a node_scheme \<Rightarrow> (unit, 'a node_scheme) res"
    and round :: "env \<Rightarrow> any_key list \<Rightarrow> 'a node_scheme \<Rightarrow> (unit, 'a node_scheme) res"
  assumes ctr_bump: "ctr (bump s) = ctr s + 1"
    and bump_frame: "inb (bump s) = inb s" "outb (bump s) = outb s" "conns (bump s) = conns s"
      "fresh (bump s) = fresh s"
    and ctr_set_inb: "ctr (set_inb a s c) = ctr s"
    and tick_eq: "tick E a s =
      (if established (inb s a)
       then map_state (set_inb a (bump s))
         (send_logged E \<lparr>Uri = MetaShakeHand, SeqId = ctr s + 1\<rparr> MShakeHandReq (inb s a))
       else Ok () s)"
    and round_Nil: "round E [] s = Ok () s"
    and round_Cons: "round E (k # order) s =
      (case conns s k of
         None \<Rightarrow> round E order s
       | Some a \<Rightarrow> bind_res (tick E a s) (\<lambda>_ s1. round E order s1))"
begin

lemma tick_live:
  assumes ok: "transports_ok E" and live: "ref_live (InConn a) s" and est: "established (inb s a)"
    and body: "pb_Marshal E MShakeHandReq = Inr body"
  obtains s' where "tick E a s = Ok () s'"
    and "ref_stream (InConn a) s' = ref_stream (InConn a) s
      @ wire_frame \<lparr>Uri = MetaShakeHand, SeqId = ctr s + 1\<rparr> body"
    and "\<And>b. b \<noteq> a \<Longrightarrow> inb s' b = inb s b" and "outb s' = outb s"
    and "established (inb s' a)" "ref_live (InConn a) s'"
    and "conns s' = conns s" "ctr s' = ctr s + 1"
proof -
  let ?h = "\<lparr>Uri = MetaShakeHand, SeqId = ctr s + 1\<rparr>"
  define p where "p = PutUint16 (Uri ?h) @ PutUint64 (SeqId ?h) @ body"
  have enc: "EncodePayload E ?h MShakeHandReq = Inr p"
    using body by (simp add: EncodePayload_def p_def)
  note p = enc wire_frame_EncodePayload [OF body enc]
  obtain c where c: "connection_Send E p (inb s a) = Ok None c"
    "gnetC c = gnetC (inb s a)" "netC c = netC (inb s a)"
    using connection_Send_live [OF ok] live by (metis ref_live.simps(1))
  have "established c = established (inb s a)"
    using c(1) by (auto simp: connection_Send_def Let_def split: option.splits res.splits)
  moreover have "tick E a s = Ok () (set_inb a (bump s) c)"
    using est p(1) c(1) by (simp add: tick_eq send_logged_def)
  ultimately show thesis
    using that [of "set_inb a (bump s) c"] cs.send_frame [OF c(1)] c live est p(2)
    by (simp add: ctr_bump bump_frame ctr_set_inb)
qed

lemma round_frames:
  assumes ok: "transports_ok E" and body: "pb_Marshal E MShakeHandReq = Inr body"
    and "distinct (List.map_filter (conns s) order)"
    and "\<And>a. a \<in> set (heartbeat_targets order s) \<Longrightarrow> ref_live (InConn a) s"
  shows "\<exists>s'. round E order s = Ok () s' \<and> conns s' = conns s \<and> outb s' = outb s
    \<and> ctr s' = ctr s + word_of_nat (length (heartbeat_targets order s))
    \<and> (\<forall>i < length (heartbeat_targets order s).
         ref_stream (InConn (heartbeat_targets order s ! i)) s'
           = ref_stream (InConn (heartbeat_targets order s ! i)) s
             @ wire_frame \<lparr>Uri = MetaShakeHand, SeqId = ctr s + 1 + word_of_nat i\<rparr> body)
    \<and> (\<forall>a. a \<notin> set (heartbeat_targets order s) \<longrightarrow> inb s' a = inb s a)"
  using assms(3,4)
proof (induction order arbitrary: s)
  case Nil
  then show ?case by (simp add: round_Nil heartbeat_targets_def map_filter_simps)
next
  case (Cons k order)
  show ?case
  proof (cases "conns s k")
    case None
    then have "heartbeat_targets (k # order) s = heartbeat_targets order s"
      by (simp add: heartbeat_targets_def map_filter_simps)
    then show ?thesis
      using Cons None by (simp add: round_Cons map_filter_simps)
  next
    case (Some a)
    have dist: "distinct (List.map_filter (conns s) order)" "a \<notin> set (List.map_filter (conns s) order)"
      using Cons.prems(1) Some by (simp_all add: map_filter_simps)
    show ?thesis
    proof (cases "established (inb s a)")
      case False
      then have "heartbeat_targets (k # order) s = heartbeat_targets order s"
        using Some by (simp add: heartbeat_targets_def map_filter_simps)
      then show ?thesis
        using Cons dist False Some by (simp add: round_Cons tick_eq)
    next
      case True
      let ?ts = "heartbeat_targets order s"
      have ts: "heartbeat_targets (k # order) s = a # ?ts"
        using Some True by (simp add: heartbeat_targets_def map_filter_simps)
      have a: "a \<notin> set ?ts" using dist(2) by (auto simp: heartbeat_targets_def)
      obtain s1 where s1: "tick E a s = Ok () s1"
        "ref_stream (InConn a) s1 = ref_stream (InConn a) s
          @ wire_frame \<lparr>Uri = MetaShakeHand, SeqId = ctr s + 1\<rparr> body"
        "\<And>b. b \<noteq> a \<Longrightarrow> inb s1 b = inb s b" "outb s1 = outb s" "conns s1 = conns s" "ctr s1 = ctr s + 1"
        using tick_live [OF ok _ True body] Cons.prems(2) ts by (metis list.set_intros(1))
      have ts1: "heartbeat_targets order s1 = ?ts"
        unfolding heartbeat_targets_def s1(5)
        by (intro filter_cong refl arg_cong [where f = established] s1(3)) (use dist(2) in blast)
      have "ref_live (InConn b) s1" if "b \<in> set (heartbeat_targets order s1)" for b
      proof -
        have b: "b \<in> set ?ts" "b \<noteq> a" using that a unfolding ts1 by auto
        with Cons.prems(2) [of b] ts s1(3) [OF b(2)] show ?thesis by simp
      qed
      then obtain s' where s': "round E order s1 = Ok () s'" "conns s' = conns s1" "outb s' = outb s1"
        "ctr s' = ctr s1 + word_of_nat (length ?ts)"
        "\<forall>i < length ?ts. ref_stream (InConn (?ts ! i)) s' = ref_stream (InConn (?ts ! i)) s1
             @ wire_frame \<lparr>Uri = MetaShakeHand, SeqId = ctr s1 + 1 + word_of_nat i\<rparr> body"
        "\<forall>b. b \<notin> set ?ts \<longrightarrow> inb s' b = inb s1 b"
        using Cons.IH [of s1] dist(1) unfolding ts1 s1(5) by metis
      have "ref_stream (InConn ((a # ?ts) ! i)) s' = ref_stream (InConn ((a # ?ts) ! i)) s
             @ wire_frame \<lparr>Uri = MetaShakeHand, SeqId = ctr s + 1 + word_of_nat i\<rparr> body"
        if i: "i < length (a # ?ts)" for i
      proof (cases i)
        case 0
        then show ?thesis using s'(6) a s1(2) by simp
      next
        case (Suc j)
        then have "?ts ! j \<noteq> a" using a i nth_mem [of j ?ts] by auto
        then show ?thesis using s'(5) Suc i s1(3,6) by (simp add: algebra_simps)
      qed
      moreover have "inb s' b = inb s b" if "b \<notin> set (a # ?ts)" for b
        using that s'(6) s1(3) by simp
      ultimately show ?thesis
        unfolding ts using s' s1 Some by (intro exI [of _ s']) (simp add: round_Cons)
    qed
  qed
qed

end

lemma bind_res_map_state:
  "bind_res (map_state f r) (\<lambda>x. Ok (g x)) = map_state f (bind_res r (\<lambda>x. Ok (g x)))"
  by (cases r) simp_all

lemma set_inb_same: "inb s a = c \<Longrightarrow> set_inb a s c = s"
  by (auto simp: set_inb_def fun_upd_idem)

lemma bind_res_assoc: "bind_res (bind_res r f) g = bind_res r (\<lambda>a s. bind_res (f a s) g)"
  by (cases r) simp_all

lemmas conn_methods =
  scheduler_conn_Ontick_def scheduler_conn_ShakeHand_def scheduler_conn_Send_def scheduler_Ontick_def
  worker_conn_Ontick_def worker_conn_ShakeHand_def worker_conn_Send_def worker_Ontick_def
  gcs_conn_Ontick_def gcs_conn_ShakeHand_def gcs_conn_Send_def
  driver_conn_Ontick_def driver_conn_ShakeHand_def driver_conn_Send_def
  send_logged_def connection_Ontick_def connection_ShakeHand_def

lemma nextSeq_set_inb: "nextSeq (set_inb a s c) = nextSeq s"
  by (simp add: set_inb_def)

interpretation sched_beat: heartbeat nextID "\<lambda>s. s\<lparr>nextID := nextID s + 1\<rparr>"
  scheduler_conn_Ontick scheduler_Ontick
  by unfold_locales
    (simp_all add: conn_methods Let_def bind_res_map_state bind_res_assoc set_inb_same split: option.split sum.split)

interpretation worker_beat: heartbeat nextID "\<lambda>s. s\<lparr>nextID := nextID s + 1\<rparr>"
  worker_conn_Ontick worker_Ontick
  by unfold_locales
    (simp_all add: conn_methods Let_def bind_res_map_state bind_res_assoc set_inb_same split: option.split sum.split)

interpretation gcs_beat: heartbeat nextSeq "\<lambda>s. s\<lparr>nextSeq := nextSeq s + 1\<rparr>"
  gcs_conn_Ontick gcs_Ontick
  by unfold_locales
    (simp_all add: conn_methods Let_def bind_res_map_state bind_res_assoc set_inb_same
      nextSeq_set_inb split: option.split sum.split)

lemma drv_nextSeq_set_inb: "drv_nextSeq (set_inb a s c) = drv_nextSeq s"
  by (simp add: set_inb_def)

interpretation driver_beat: heartbeat drv_nextSeq "\<lambda>s. s\<lparr>drv_nextSeq := drv_nextSeq s + 1\<rparr>"
  driver_conn_Ontick driver_Ontick
  by unfold_locales
    (simp_all add: conn_methods Let_def bind_res_map_state bind_res_assoc set_inb_same
      drv_nextSeq_set_inb split: option.split sum.split)

section \<open>Properties\<close>

text \<open>
  \<open>conn_view a r\<close> is the outcome \<open>r\<close> with only the connection \<open>a\<close> kept of the node;
  \<open>conn_beat\<close> is the heartbeat on the connection alone.
\<close>

definition conn_view :: "nat \<Rightarrow> ('x, 'a node_scheme) res \<Rightarrow> ('x, conn) res" where
  "conn_view a r = map_state (\<lambda>t. inb t a) r"

definition conn_beat :: "env \<Rightarrow> uint64 \<Rightarrow> conn \<Rightarrow> (unit, conn) res" where
  "conn_beat E n c =
    (if established c
     then send_logged E \<lparr>Uri = MetaShakeHand, SeqId = n + 1\<rparr> MShakeHandReq c else Ok () c)"

lemma map_state_comp: "map_state f (map_state g r) = map_state (\<lambda>t. f (g t)) r"
  by (cases r) simp_all

lemma map_state_ident [simp]: "map_state (\<lambda>t. t) r = r"
  by (cases r) simp_all

lemmas establish_methods =
  scheduler_conn_Establish_def worker_conn_Establish_def gcs_conn_Establish_def
  scheduler_conn_Loop_def worker_conn_Loop_def gcs_conn_Loop_def

text \<open>
  The copies agree. Given the same connection, counter and advertised address, the methods of the
  scheduler's, the worker's and the GCS's connection return the same and leave the connection in the
  same state: what is sent, with which sequence number and with which outcome does not depend on
  the package, over any transport and protobuf runtime.
\<close>

theorem server_copies_agree:
  assumes "inb w b = inb s a" and "inb g c = inb s a"
    and "nextID w = nextID s" and "nextSeq g = nextID s"
    and "advertiseAddr w = advertiseAddr s" and "advertiseAddr g = advertiseAddr s"
  shows "conn_view b (worker_conn_Send E b p w) = conn_view a (scheduler_conn_Send E a p s)
    \<and> conn_view c (gcs_conn_Send E c p g) = conn_view a (scheduler_conn_Send E a p s)
    \<and> conn_view b (worker_conn_Establish E b w) = conn_view a (scheduler_conn_Establish E a s)
    \<and> conn_view c (gcs_conn_Establish E c g) = conn_view a (scheduler_conn_Establish E a s)
    \<and> conn_view b (worker_conn_Ontick E b w) = conn_view a (scheduler_conn_Ontick E a s)
    \<and> conn_view c (gcs_conn_Ontick E c g) = conn_view a (scheduler_conn_Ontick E a s)
    \<and> map_option (\<lambda>(r, t). (r, inb t b)) (worker_conn_Loop timeout b w)
      = map_option (\<lambda>(r, t). (r, inb t a)) (scheduler_conn_Loop timeout a s)
    \<and> map_option (\<lambda>(r, t). (r, inb t c)) (gcs_conn_Loop timeout c g)
      = map_option (\<lambda>(r, t). (r, inb t a)) (scheduler_conn_Loop timeout a s)"
proof -
  have views:
    "conn_view a (scheduler_conn_Ontick E a s) = conn_beat E (nextID s) (inb s a)"
    "conn_view b (worker_conn_Ontick E b w) = conn_beat E (nextID w) (inb w b)"
    "conn_view c (gcs_conn_Ontick E c g) = conn_beat E (nextSeq g) (inb g c)"
    by (simp_all add: conn_view_def conn_beat_def sched_beat.tick_eq worker_beat.tick_eq gcs_beat.tick_eq
        map_state_comp)
  show ?thesis
    using assms unfolding views
    by (simp add: conn_view_def map_state_comp conn_methods establish_methods Let_def
        bind_res_map_state split: sum.split option.split)
qed

lemma server_copies_agree_witness:
  "conn_view 0 (worker_conn_Send (table_env []) 0 [1] (the (NewWorker [] [] [])))
    = Ok (Some ErrNoTransport) (newConnection 0 [] None)"
proof -
  note defs = NewWorker_def NewScheduler_def NewGCS_def apply_options_def zero_options_def
  have "conn_view 0 (worker_conn_Send (table_env []) 0 [1] (the (NewWorker [] [] [])))
      = conn_view 0 (scheduler_conn_Send (table_env []) 0 [1] (the (NewScheduler [] [] [])))"
    using server_copies_agree [of "the (NewWorker [] [] [])" 0 "the (NewScheduler [] [] [])" 0
        "NewGCS [] [] []" 0 "table_env []" "[1]" False]
    by (simp add: defs)
  then show ?thesis
    by (simp add: conn_view_def scheduler_conn_Send_def connection_Send_def defs newConnection_def Let_def)
qed

lemma set_map_filter: "set (List.map_filter f xs) = {y. \<exists>x \<in> set xs. f x = Some y}"
  by (induction xs) (auto simp: map_filter_simps split: option.split)

text \<open>
  C30. A turn of \<^verbatim>\<open>GCS.Loop\<close> beats every heart once. Over transports that work, with the table
  ranged over in any order, each established connection of the table has received exactly one more
  frame, a handshake packet; the packets of one turn carry consecutive sequence numbers; every other
  connection is untouched.
\<close>

theorem gcs_heartbeat_round:
  assumes inv: "node_inv s" and dist: "distinct order" and dom: "set order = dom (conns s)"
    and ok: "transports_ok E" and body: "pb_Marshal E MShakeHandReq = Inr body"
    and live: "\<forall>a \<in> ran (conns s). established (inb s a) \<longrightarrow> ref_live (InConn a) s"
  shows "\<exists>s' ts. gcs_Loop_round E order s = Ok () s'
    \<and> distinct ts \<and> set ts = {a \<in> ran (conns s). established (inb s a)}
    \<and> (\<forall>i < length ts. ref_stream (InConn (ts ! i)) s' = ref_stream (InConn (ts ! i)) s
         @ wire_frame \<lparr>Uri = MetaShakeHand, SeqId = nextSeq s + 1 + word_of_nat i\<rparr> body)
    \<and> (\<forall>a. a \<notin> set ts \<longrightarrow> inb s' a = inb s a) \<and> outb s' = outb s"
proof -
  let ?as = "List.map_filter (conns s) order" and ?ts = "heartbeat_targets order s"
  have key: "k = KUint64 (conn_id (inb s a))" if "conns s k = Some a" for k a
    using inv that by (simp add: node_inv_def)
  have as: "distinct ?as"
    using dist
  proof (induction order)
    case (Cons k order)
    have "a \<notin> set (List.map_filter (conns s) order)" if "conns s k = Some a" for a
      using Cons.prems key [OF that] key [of _ a] unfolding set_map_filter by auto
    with Cons show ?case by (auto simp: map_filter_simps split: option.split)
  qed (simp add: map_filter_simps)
  have ts: "set ?ts = {a \<in> ran (conns s). established (inb s a)}"
    using dom by (auto simp: heartbeat_targets_def set_map_filter ran_def)
  have "distinct ?ts" using as by (simp add: heartbeat_targets_def)
  moreover have "\<And>a. a \<in> set ?ts \<Longrightarrow> ref_live (InConn a) s" using live ts by auto
  ultimately show ?thesis
    using gcs_beat.round_frames [OF ok body as] ts unfolding gcs_Loop_round_def by blast
qed

definition beating_gcs :: gcs where
  "beating_gcs = ref_SetEstablished (InConn 0) (snd (gcs_OnOpen 3 (Some ''w2:8'') (NewGCS [] [] [])))"

lemma gcs_heartbeat_round_witness:
  "\<exists>s'. gcs_Loop_round (table_env [(MShakeHandReq, [])]) [KUint64 1] beating_gcs = Ok () s'
    \<and> ref_stream (InConn 0) s' = wire_frame \<lparr>Uri = MetaShakeHand, SeqId = 1\<rparr> []"
proof -
  let ?E = "table_env [(MShakeHandReq, [])]"
  note defs = beating_gcs_def gcs_OnOpen_def cm_OnOpen_def NewGCS_def newConnection_def Let_def
    connection_SetEstablished_def set_inb_def
  have inv: "node_inv beating_gcs" by (simp add: node_inv_def defs)
  have table: "conns beating_gcs = [KUint64 1 \<mapsto> 0]" "established (inb beating_gcs 0)"
    "ref_live (InConn 0) beating_gcs" "nextSeq beating_gcs = 0" "ref_stream (InConn 0) beating_gcs = []"
    by (simp_all add: defs)
  have dom: "set [KUint64 1] = dom (conns beating_gcs)" by (simp add: table)
  have d: "distinct [KUint64 1]" and m: "pb_Marshal ?E MShakeHandReq = Inr []" by simp_all
  have live: "\<forall>a \<in> ran (conns beating_gcs). established (inb beating_gcs a) \<longrightarrow> ref_live (InConn a) beating_gcs"
    using table(1,3) by (simp del: ref_live.simps)
  obtain s' ts where s': "gcs_Loop_round ?E [KUint64 1] beating_gcs = Ok () s'"
    and ts: "distinct ts" "set ts = {a \<in> ran (conns beating_gcs). established (inb beating_gcs a)}"
    and sent: "\<forall>i < length ts. ref_stream (InConn (ts ! i)) s' = ref_stream (InConn (ts ! i)) beating_gcs
         @ wire_frame \<lparr>Uri = MetaShakeHand, SeqId = nextSeq beating_gcs + 1 + word_of_nat i\<rparr> []"
    using gcs_heartbeat_round [OF inv d dom transports_ok_table_env m live] by blast
  have "set ts = {0}" using ts(2) table by auto
  with ts(1) have "ts = [0]"
    by (cases ts rule: remdups_adj.cases) auto
  with sent table(4,5) s' show ?thesis by auto
qed

end
