(* ===== verification/Steps.thy ===== *)
theory Steps
  imports Main
begin

text \<open>
  Interfaces of the transition systems of this development. A component that runs as a reaction to
  events (a node, a connection) is a step relation; \<open>step_invariant\<close> is the contract that every
  step keeps an invariant, \<open>step_refinement\<close> that every step is, seen through an abstraction, a
  sequence of steps of a simpler system. Both give the corresponding fact about whole executions.
\<close>

locale step_invariant =
  fixes step :: "'s \<Rightarrow> 's \<Rightarrow> bool"
    and Inv :: "'s \<Rightarrow> bool"
  assumes step_inv: "step s t \<Longrightarrow> Inv s \<Longrightarrow> Inv t"
begin

lemma reach_inv:
  assumes "step\<^sup>*\<^sup>* s t" and "Inv s"
  shows "Inv t"
  using assms by (induction rule: rtranclp_induct) (auto intro: step_inv)

end

locale step_refinement = step_invariant step Inv
  for step :: "'s \<Rightarrow> 's \<Rightarrow> bool" and Inv :: "'s \<Rightarrow> bool" +
  fixes astep :: "'a \<Rightarrow> 'a \<Rightarrow> bool"
    and abs :: "'s \<Rightarrow> 'a"
  assumes step_sim: "step s t \<Longrightarrow> Inv s \<Longrightarrow> astep\<^sup>*\<^sup>* (abs s) (abs t)"
begin

lemma reach_sim:
  assumes "step\<^sup>*\<^sup>* s t" and "Inv s"
  shows "astep\<^sup>*\<^sup>* (abs s) (abs t)"
  using assms
proof (induction rule: rtranclp_induct)
  case base
  then show ?case by simp
next
  case (step t u)
  have "Inv t" using reach_inv step.hyps(1) step.prems by blast
  with step show ?case by (auto dest: step_sim)
qed

text \<open>An invariant of the abstract system holds of the abstraction of every reachable state.\<close>

lemma abstract_inv:
  assumes "step\<^sup>*\<^sup>* s t" and "Inv s" and "AInv (abs s)"
    and keep: "\<And>a b. astep a b \<Longrightarrow> AInv a \<Longrightarrow> AInv b"
  shows "AInv (abs t)"
proof -
  have star: "AInv b" if "astep\<^sup>*\<^sup>* a b" "AInv a" for a b
    using that by (induction rule: rtranclp_induct) (auto intro: keep)
  show ?thesis by (rule star [OF reach_sim [OF assms(1,2)] assms(3)])
qed

end

section \<open>Executions with labels\<close>

inductive run :: "('s \<Rightarrow> 'e \<Rightarrow> 's \<Rightarrow> bool) \<Rightarrow> 's \<Rightarrow> 'e list \<Rightarrow> 's \<Rightarrow> bool" for step where
  run_Nil: "run step s [] s"
| run_snoc: "run step s es t \<Longrightarrow> step t e u \<Longrightarrow> run step s (es @ [e]) u"

lemma run_split: "run step s (xs @ ys) u \<Longrightarrow> \<exists>t. run step s xs t \<and> run step t ys u"
proof (induction ys arbitrary: u rule: rev_induct)
  case Nil
  then show ?case using run_Nil by force
next
  case (snoc y ys)
  from snoc.prems obtain v where v: "run step s (xs @ ys) v" "step v y u"
    by (cases rule: run.cases) auto
  then show ?case using snoc.IH run_snoc by metis
qed

lemma run_single: "step s e t \<Longrightarrow> run step s [e] t"
  using run_snoc [OF run_Nil, of step s e t] by simp

lemma run_append:
  assumes "run step t fs u" and "run step s es t"
  shows "run step s (es @ fs) u"
  using assms by (induction rule: run.induct) (auto simp flip: append_assoc intro: run_snoc)

lemma run_Cons: "step s e t \<Longrightarrow> run step t es u \<Longrightarrow> run step s (e # es) u"
  using run_append [OF _ run_single, of step t es u s e] by simp

text \<open>
  A labelled refinement: each step is a run of the abstract system that shows the same observations.
  \<open>obs\<close> and \<open>aobs\<close> are what a label and an abstract label let an observer see.
\<close>

locale labelled_refinement =
  fixes step :: "'s \<Rightarrow> 'e \<Rightarrow> 's \<Rightarrow> bool"
    and Inv :: "'s \<Rightarrow> bool"
    and astep :: "'a \<Rightarrow> 'b \<Rightarrow> 'a \<Rightarrow> bool"
    and abs :: "'s \<Rightarrow> 'a"
    and obs :: "'e \<Rightarrow> 'o list"
    and aobs :: "'b \<Rightarrow> 'o list"
  assumes lstep_inv: "step s e t \<Longrightarrow> Inv s \<Longrightarrow> Inv t"
    and lstep_sim: "step s e t \<Longrightarrow> Inv s \<Longrightarrow>
      \<exists>tr. run astep (abs s) tr (abs t) \<and> concat (map aobs tr) = obs e"
begin

lemma run_inv: "run step s es t \<Longrightarrow> Inv s \<Longrightarrow> Inv t"
  by (induction rule: run.induct) (auto intro: lstep_inv)

lemma run_sim:
  assumes "run step s es t" and "Inv s"
  shows "\<exists>tr. run astep (abs s) tr (abs t) \<and> concat (map aobs tr) = concat (map obs es)"
  using assms
proof (induction rule: run.induct)
  case (run_Nil s)
  then show ?case using run.run_Nil by force
next
  case (run_snoc s es t e u)
  then obtain tr where tr: "run astep (abs s) tr (abs t)" "concat (map aobs tr) = concat (map obs es)"
    by blast
  have "Inv t" using run_inv run_snoc by blast
  then obtain tr' where tr': "run astep (abs t) tr' (abs u)" "concat (map aobs tr') = obs e"
    using lstep_sim run_snoc.hyps(2) by blast
  from run_append [OF tr'(1) tr(1)] tr(2) tr'(2) show ?case
    by (intro exI [of _ "tr @ tr'"]) simp
qed

end

end
