(* ===== verification/HeapSteps.thy ===== *)
theory HeapSteps
  imports ServerConn Steps
begin

text \<open>
  What the operations of a node do to its connection objects, one object at a time: every accepted
  connection moves by \<open>conn_step\<close>, every dialling one by \<open>client_step\<close> of \<open>ClientConn\<close>. The
  relation \<open>heap_steps\<close> collects this for a whole node; it is what the packet handlers of all nodes
  have in common, and the bridge over which facts about one connection become facts about a node.
\<close>

section \<open>Accepted connections\<close>

inductive conn_step :: "env \<Rightarrow> conn \<Rightarrow> conn \<Rightarrow> bool" for E where
  conn_send: "conn_step E c (res_state (connection_Send E p c))"
| conn_set: "conn_step E c (connection_SetEstablished c)"
| conn_notify: "conn_step E c (connection_NotifyEstablish c)"
| conn_close: "conn_step E c (connection_Close c)"
| conn_token: "try_recv (establishChan c) = Some ((), ch) \<Longrightarrow>
    conn_step E c (c\<lparr>establishChan := ch, established := True\<rparr>)"

text \<open>\<open>framed bs\<close>: the bytes are a sequence of complete frames.\<close>

definition framed :: "byte list \<Rightarrow> bool" where
  "framed bs \<longleftrightarrow> (\<exists>ps. bs = concat (map MakeFrame ps))"

lemma framed_Nil [simp]: "framed []"
  unfolding framed_def by (rule exI [of _ "[]"]) simp

lemma framed_append: "framed a \<Longrightarrow> framed b \<Longrightarrow> framed (a @ b)"
  unfolding framed_def by (metis concat_append map_append)

lemma framed_MakeFrame [simp]: "framed (MakeFrame p)"
  unfolding framed_def by (rule exI [of _ "[p]"]) simp

definition conn_good :: "conn \<Rightarrow> bool" where
  "conn_good c \<longleftrightarrow> netC c = None \<and> framed (written (conn_io c))"

lemma conn_good_new [simp]: "conn_good (newConnection i r g)"
  by (simp add: conn_good_def newConnection_def)

lemma conn_good_Send: "conn_good c \<Longrightarrow> conn_good (res_state (connection_Send E p c))"
  by (auto simp: conn_good_def connection_Send_def Let_def framed_append split: option.split)

lemma conn_step_good: "conn_step E c d \<Longrightarrow> conn_good c \<Longrightarrow> conn_good d"
  by (induction rule: conn_step.induct)
    (auto simp: conn_good_Send, auto simp: conn_good_def connection_SetEstablished_def
      connection_NotifyEstablish_def connection_Close_def split: option.split)

lemma conn_step_ident: "conn_step E c d \<Longrightarrow> conn_id d = conn_id c \<and> conn_remote d = conn_remote c"
  by (induction rule: conn_step.induct)
    (auto simp: connection_SetEstablished_def connection_NotifyEstablish_def connection_Close_def
      split: option.split)

lemma connection_Send_established [simp]:
  "established (res_state (connection_Send E p c)) = established c"
  by (simp add: connection_Send_def Let_def split: option.split res.split)

text \<open>No operation clears the flag of an accepted connection.\<close>

lemma conn_step_established: "conn_step E c d \<Longrightarrow> established c \<Longrightarrow> established d"
  by (induction rule: conn_step.induct)
    (auto simp: connection_SetEstablished_def connection_NotifyEstablish_def connection_Close_def
      split: option.split)

interpretation accepted: step_invariant "conn_step E" conn_good for E
  by unfold_locales (rule conn_step_good)

section \<open>Dialling connections\<close>

text \<open>What a dialling connection is given once and keeps.\<close>

definition who :: "client \<Rightarrow> int32 option \<times> uint64 \<times> string" where
  "who c = (handlerMode c, cl_id c, cl_endpoint c)"

lemma who_simps [simp]:
  "who (notifyReconnect c) = who c" "who (client_Stop c) = who c" "who (client_Start c) = who c"
  "who (client_SetLocal l c) = who c" "who (client_NotifyEstablish c) = who c"
  "who (client_SetEstablished c) = who c" "who (client_OnClose c) = who c"
  "who (waitClose_begin c) = who c" "who (waitClose_end c) = who c" "who (loop_recover c) = who c"
  "who (onTick now c) = who c" "who (snd (client_receive now h m c)) = who c"
  "who (snd (client_write E g b c)) = who c" "who (snd (dialOnce now dialed c)) = who c"
  by (auto simp: who_def notifyReconnect_def client_Stop_def client_Start_def client_SetLocal_def
      client_NotifyEstablish_def client_SetEstablished_def client_OnClose_def waitClose_begin_def
      waitClose_end_def loop_recover_def onTick_def client_receive_def client_write_def dialOnce_def
      Let_def split: option.split sum.split)

lemma who_Send [simp]: "who (res_state (client_Send E p c)) = who c"
  by (simp add: who_def client_Send_def client_write_def Let_def split: option.split)

lemma who_EncodeAndSend [simp]: "who (res_state (client_EncodeAndSend E now h msg c)) = who c"
  by (simp add: who_def client_EncodeAndSend_def client_Send_def client_write_def Let_def
      split: sum.split option.split)

lemma who_sendEstablish: "who (res_state (sendEstablish E now c)) = who c"
  by (auto simp: who_def sendEstablish_def client_write_def Let_def split: option.split sum.split)

lemma who_sendShakeHand: "who (res_state (sendShakeHand E now c)) = who c"
  by (auto simp: who_def sendShakeHand_def client_write_def notifyReconnect_def Let_def
      split: option.split sum.split)

lemma who_tick: "who (res_state (loop_tick E now c)) = who c"
  using who_sendShakeHand [of E now "onTick now c"]
  by (cases "sendShakeHand E now (onTick now c)") (simp_all add: loop_tick_def maybeShake_def)

lemma who_dial: "who (res_state (loop_dial E now dialed c)) = who c"
proof (cases dialed)
  case (Inl err)
  then show ?thesis by (simp add: loop_dial_def dialOnce_def Let_def who_def)
next
  case (Inr g)
  let ?c = "(snd (dialOnce now (Inr g) c))\<lparr>subCtx := Some False\<rparr>"
  have "who ?c = who c" by (simp add: who_def dialOnce_def)
  then show ?thesis
    using who_sendEstablish [of E now ?c] Inr
    by (cases "sendEstablish E now ?c")
      (auto simp: loop_dial_def dialOnce_def who_def split: option.split)
qed

lemma client_step_who:
  assumes "client_step E c d"
  shows "who d = who c"
  using assms unfolding client_step_def
proof (elim disjE)
  assume "loop_step E c d"
  then show ?thesis
  proof cases
    case (loop_dialed now dialed)
    then show ?thesis using who_dial [of E now dialed c] by simp
  next
    case (loop_dial_panic now dialed p e)
    then show ?thesis using who_dial [of E now dialed c] by simp
  qed (simp_all, simp_all add: who_def)
next
  assume "tick_step E c d"
  then show ?thesis
  proof cases
    case (tick_ok now)
    then show ?thesis using who_tick [of E now c] by simp
  next
    case (tick_panic now p e)
    then show ?thesis using who_tick [of E now c] by simp
  qed
next
  assume "outside_step E c d"
  then show ?thesis by cases (simp_all, simp add: who_def)
qed

text \<open>
  \<open>client_good\<close> is the invariant of the loop, for an object that has a handler, and a stream of
  whole frames. (The addresses of a heap that were not given out hold an object without one.)
\<close>

definition client_good :: "client \<Rightarrow> bool" where
  "client_good c \<longleftrightarrow> (handlerMode c \<noteq> None \<longrightarrow> client_inv c) \<and> framed (written (cl_io c))"

lemma client_step_good:
  assumes "client_step E c d" and "client_good c"
  shows "client_good d"
proof -
  have "handlerMode d = handlerMode c" using client_step_who [OF assms(1)] by (simp add: who_def)
  moreover obtain ps where "written (cl_io d) = written (cl_io c) @ concat (map MakeFrame ps)"
    using client_step_grows [OF assms(1)] by (auto simp: grows_def)
  moreover have "framed (concat (map MakeFrame ps))" unfolding framed_def by blast
  ultimately show ?thesis
    using assms client_step_inv [OF assms(1)] by (auto simp: client_good_def framed_append)
qed

interpretation dialled: step_invariant "client_step E" client_good for E
  by unfold_locales (rule client_step_good)

lemma client_good_new:
  "client_good (client_Start (NewConnection d i addr h [WithDialTimeout t]))"
  "client_good (NewConnection d i addr None [])"
proof -
  have "client_inv (NewConnection d i addr h [WithDialTimeout t])" if "h \<noteq> None"
    using that by (intro NewConnection_inv) (auto simp: WithDialTimeout_def ctl_def)
  then have "client_inv (client_Start (NewConnection d i addr h [WithDialTimeout t]))" if "h \<noteq> None"
    using that by (auto simp: client_inv_def client_Start_def NewConnection_def WithDialTimeout_def)
  then show "client_good (client_Start (NewConnection d i addr h [WithDialTimeout t]))"
    by (simp add: client_good_def) (simp add: NewConnection_def WithDialTimeout_def client_Start_def)
  show "client_good (NewConnection d i addr None [])"
    by (simp add: client_good_def NewConnection_def)
qed

section \<open>The connection objects of a node\<close>

definition heap_steps :: "env \<Rightarrow> 'a node_scheme \<Rightarrow> 'a node_scheme \<Rightarrow> bool" where
  "heap_steps E s t \<longleftrightarrow> fresh t = fresh s \<and> conns t = conns s
     \<and> (\<forall>a. (conn_step E)\<^sup>*\<^sup>* (inb s a) (inb t a)) \<and> (\<forall>a. (client_step E)\<^sup>*\<^sup>* (outb s a) (outb t a))"

named_theorems heap_intros

lemma heap_refl: "heap_steps E s s"
  by (simp add: heap_steps_def)

lemma heap_trans: "heap_steps E s t \<Longrightarrow> heap_steps E t u \<Longrightarrow> heap_steps E s u"
  unfolding heap_steps_def by (metis rtranclp_trans)

lemma heap_set_inb: "conn_step E (inb s a) c \<Longrightarrow> heap_steps E s (set_inb a s c)"
  by (simp add: heap_steps_def)

lemma heap_set_outb: "client_step E (outb s a) c \<Longrightarrow> heap_steps E s (set_outb a s c)"
  by (simp add: heap_steps_def)

lemma outside: "outside_step E c d \<Longrightarrow> client_step E c d"
  by (simp add: client_step_def)

lemma heap_ref_Send: "heap_steps E s (res_state (ref_Send E ref p s))"
proof (cases ref)
  case (InConn a)
  then show ?thesis using heap_set_inb [OF conn_send, of E s a p] by simp
next
  case (OutConn a)
  then show ?thesis using heap_set_outb [OF outside [OF out_send], of E s a p] by simp
qed

lemma heap_ref_SetEstablished: "heap_steps E s (ref_SetEstablished ref s)"
proof (cases ref)
  case (InConn a)
  then show ?thesis using heap_set_inb [OF conn_set, of E s a] by simp
next
  case (OutConn a)
  have "client_SetEstablished (outb s a) = client_NotifyEstablish (outb s a)"
    by (simp add: client_SetEstablished_def client_NotifyEstablish_def)
  then show ?thesis using OutConn heap_set_outb [OF outside [OF out_notify], of E s a] by simp
qed

lemma heap_ref_NotifyEstablish: "heap_steps E s (ref_NotifyEstablish ref s)"
proof (cases ref)
  case (InConn a)
  then show ?thesis using heap_set_inb [OF conn_notify, of E s a] by simp
next
  case (OutConn a)
  then show ?thesis using heap_set_outb [OF outside [OF out_notify], of E s a] by simp
qed

lemma heap_ops [heap_intros]:
  "heap_steps E s0 s \<Longrightarrow> heap_steps E s0 (res_state (ref_Send E ref p s))"
  "heap_steps E s0 s \<Longrightarrow> heap_steps E s0 (ref_SetEstablished ref s)"
  "heap_steps E s0 s \<Longrightarrow> heap_steps E s0 (ref_NotifyEstablish ref s)"
  by (erule heap_trans, rule heap_ref_Send heap_ref_SetEstablished heap_ref_NotifyEstablish)+

lemma heap_reply [heap_intros]:
  "heap_steps E s0 s \<Longrightarrow> heap_steps E s0 (res_state (reply E ref h m s))"
  by (simp add: reply_def heap_intros split: sum.split)

section \<open>Heartbeats and handshake requests\<close>

lemma send_logged_steps: "(conn_step E)\<^sup>*\<^sup>* c (res_state (send_logged E h m c))"
proof (cases "EncodePayload E h m")
  case (Inr p)
  have "res_state (send_logged E h m c) = res_state (connection_Send E p c)"
    using Inr by (cases "connection_Send E p c") (simp_all add: send_logged_def)
  then show ?thesis using conn_send [of E c p] by simp
qed (simp add: send_logged_def)

text \<open>A method that encodes a packet and sends it on the connection moves that connection only.\<close>

lemma encode_and_send:
  obtains c where "(conn_step E)\<^sup>*\<^sup>* (inb s a) c"
    and "res_state (case EncodePayload E h m of
           Inl err \<Rightarrow> Ok () s
         | Inr p \<Rightarrow> bind_res (map_state (set_inb a s) (connection_Send E p (inb s a))) (\<lambda>err t. Ok () t))
       = set_inb a s c"
proof (cases "EncodePayload E h m")
  case (Inl err)
  then show thesis using that [of "inb s a"] by (simp add: set_inb_same)
next
  case (Inr p)
  then show thesis
    using that [of "res_state (connection_Send E p (inb s a))"] conn_send [of E "inb s a" p]
    by (cases "connection_Send E p (inb s a)") auto
qed

lemma heap_set_inb_steps:
  "(conn_step E)\<^sup>*\<^sup>* (inb s a) c \<Longrightarrow> heap_steps E s (set_inb a s c)"
  by (simp add: heap_steps_def)

context heartbeat
begin

lemma tick_heap: "heap_steps E s (res_state (tick E a s))"
proof (cases "established (inb s a)")
  case True
  let ?c = "res_state (send_logged E \<lparr>Uri = MetaShakeHand, SeqId = ctr s + 1\<rparr> MShakeHandReq (inb s a))"
  have "heap_steps E s (bump s)" by (simp add: heap_steps_def bump_frame)
  moreover have "heap_steps E (bump s) (set_inb a (bump s) ?c)"
    by (rule heap_set_inb_steps) (simp add: bump_frame send_logged_steps)
  ultimately show ?thesis using True by (simp add: tick_eq) (rule heap_trans)
qed (simp add: tick_eq heap_refl)

lemma round_heap: "heap_steps E s (res_state (round E order s))"
proof (induction order arbitrary: s)
  case (Cons k order)
  show ?case
  proof (cases "conns s k")
    case (Some a)
    have "heap_steps E s (res_state (tick E a s))" by (rule tick_heap)
    then show ?thesis
      using Some Cons.IH by (cases "tick E a s") (auto simp: round_Cons intro: heap_trans)
  qed (use Cons.IH in \<open>simp add: round_Cons\<close>)
qed (simp add: round_Nil heap_refl)

end

end
