(* ===== verification/NodeSteps.thy ===== *)
theory NodeSteps
  imports HeapSteps
begin

text \<open>
  The events that every node reacts to, as the step relation \<open>node_step\<close>, and the interface
  \<open>node_server\<close>: a node whose packet handlers only move connection objects as \<open>HeapSteps\<close>
  describes, and whose own invariant depends on the connections only through their identity, keeps
  its invariant under all these events. Each node adds its own events to \<open>node_step\<close>.
\<close>

section \<open>Allocation\<close>

fun ctx_alloc :: "conn_ref gnet_ctx \<Rightarrow> 'a node_scheme \<Rightarrow> bool" where
  "ctx_alloc (CtxConn ref) s = ref_alloc ref s"
| "ctx_alloc CtxNil s = True"
| "ctx_alloc CtxOther s = True"

text \<open>\<open>dials a s\<close>: the object at \<open>a\<close> is a dialling connection that the node has created.\<close>

definition dials :: "nat \<Rightarrow> 'a node_scheme \<Rightarrow> bool" where
  "dials a s \<longleftrightarrow> a < fresh s \<and> handlerMode (outb s a) \<noteq> None"

section \<open>Events\<close>

text \<open>
  The gnet engine calls \<^verbatim>\<open>OnClose\<close> and \<^verbatim>\<open>OnTraffic\<close> of the manager, the global client calls
  \<^verbatim>\<open>OnOpen\<close>, \<^verbatim>\<open>OnClose\<close> and \<^verbatim>\<open>OnPacket\<close> of a dialling connection; the goroutine of such a
  connection and everybody who holds it move it by \<open>client_step\<close>; an accepted connection may be
  closed. A handler that panics or waits leaves the state it had reached.
\<close>

inductive node_quiet :: "env \<Rightarrow> int32 \<Rightarrow> 'a node_scheme \<Rightarrow> 'a node_scheme \<Rightarrow> bool" for E mode where
  quiet_start: "node_quiet E mode s (node_Start s)"
| quiet_connect: "node_quiet E mode s (snd (cm_AddConnection mode done addr s))"
| quiet_close: "node_quiet E mode s (cm_OnClose ctx s)"
| quiet_client_open: "node_quiet E mode s (eventHandler_OnOpen ctx l s)"
| quiet_client_close: "node_quiet E mode s (eventHandler_OnClose ctx s)"
| quiet_client: "dials a s \<Longrightarrow> client_step E (outb s a) c \<Longrightarrow> node_quiet E mode s (set_outb a s c)"
| quiet_conn_close: "a < fresh s \<Longrightarrow> node_quiet E mode s (set_inb a s (connection_Close (inb s a)))"

inductive node_step ::
  "'c gnet_ops \<Rightarrow> env \<Rightarrow> int32 \<Rightarrow> (conn_ref \<Rightarrow> 'a node_scheme handler) \<Rightarrow> (conn_ref \<Rightarrow> 'a node_scheme handler)
    \<Rightarrow> 'a node_scheme \<Rightarrow> 'a node_scheme \<Rightarrow> bool"
  for ops E mode onPacket handlePacket where
  node_by_quiet: "node_quiet E mode s t \<Longrightarrow> node_step ops E mode onPacket handlePacket s t"
| node_traffic: "ctx_alloc ctx s \<Longrightarrow> cm_OnTraffic ops E onPacket ctx c s = Some (r, c') \<Longrightarrow>
    node_step ops E mode onPacket handlePacket s (res_state r)"
| node_packet: "dials a s \<Longrightarrow>
    node_step ops E mode onPacket handlePacket s (res_state (client_OnPacket now handlePacket a h m s))"

text \<open>
  What the packets of one call of \<^verbatim>\<open>OnTraffic\<close> or \<^verbatim>\<open>OnPacket\<close> have been: the notes that are taken, in the
  state before each packet that reaches the handler.
\<close>

definition cm_notes ::
  "'c gnet_ops \<Rightarrow> env \<Rightarrow> (conn_ref \<Rightarrow> 'a node_scheme handler) \<Rightarrow> (Header \<Rightarrow> pb_msg \<Rightarrow> 'a node_scheme \<Rightarrow> 'n list)
     \<Rightarrow> conn_ref gnet_ctx \<Rightarrow> 'c \<Rightarrow> 'a node_scheme \<Rightarrow> 'n list" where
  "cm_notes ops E onPacket jot ctx c s =
    (if \<not> started s then []
     else case ctx of
       CtxConn ref \<Rightarrow> traffic_notes ops E (onPacket ref) jot c s
     | CtxNil \<Rightarrow> []
     | CtxOther \<Rightarrow> [])"

definition client_notes ::
  "int \<Rightarrow> (Header \<Rightarrow> pb_msg \<Rightarrow> 'a node_scheme \<Rightarrow> 'n list) \<Rightarrow> nat \<Rightarrow> Header \<Rightarrow> pb_msg \<Rightarrow> 'a node_scheme \<Rightarrow> 'n list" where
  "client_notes now jot a h m s =
    (let (v, c1) = client_receive now h m (outb s a) in
     if v = Forward \<and> handlerMode c1 \<noteq> None then jot h m (set_outb a s c1) else [])"

section \<open>What every event keeps\<close>

text \<open>
  \<open>node_good\<close>: the table is well-formed and every connection object is good. \<open>node_next s t\<close>: from
  \<open>s\<close> to \<open>t\<close> no connection was lost and none has changed its identity.
\<close>

definition node_good :: "'a node_scheme \<Rightarrow> bool" where
  "node_good s \<longleftrightarrow> node_inv s \<and> (\<forall>a. conn_good (inb s a)) \<and> (\<forall>a. client_good (outb s a))"

definition node_next :: "'a node_scheme \<Rightarrow> 'a node_scheme \<Rightarrow> bool" where
  "node_next s t \<longleftrightarrow> fresh s \<le> fresh t \<and>
     (\<forall>a < fresh s. conn_id (inb t a) = conn_id (inb s a) \<and> conn_remote (inb t a) = conn_remote (inb s a)
        \<and> who (outb t a) = who (outb s a) \<and> (established (inb s a) \<longrightarrow> established (inb t a)))"

lemma node_next_refl [simp]: "node_next s s"
  by (simp add: node_next_def)

lemma node_next_trans:
  assumes "node_next s t" and "node_next t u"
  shows "node_next s u"
proof -
  have "a < fresh t" if "a < fresh s" for a
    using that assms(1) by (simp add: node_next_def)
  then show ?thesis using assms by (simp add: node_next_def)
qed

lemma node_next_ref:
  assumes "node_next s t" and "ref_alloc ref s"
  shows "ref_Remote ref t = ref_Remote ref s" "ref_ID ref t = ref_ID ref s" "ref_alloc ref t"
  using assms by (cases ref; auto simp: node_next_def who_def)+

lemma conn_steps_keep:
  assumes "(conn_step E)\<^sup>*\<^sup>* c d"
  shows "conn_id d = conn_id c \<and> conn_remote d = conn_remote c \<and> (established c \<longrightarrow> established d)"
  using assms by (induction rule: rtranclp_induct) (auto dest: conn_step_ident conn_step_established)

lemma client_steps_who:
  assumes "(client_step E)\<^sup>*\<^sup>* c d"
  shows "who d = who c"
  using assms by (induction rule: rtranclp_induct) (auto dest: client_step_who)

lemma heap_steps_next: "heap_steps E s t \<Longrightarrow> node_next s t"
  using conn_steps_keep client_steps_who by (simp add: heap_steps_def node_next_def) blast

lemma heap_steps_good:
  assumes "heap_steps E s t" and "node_good s"
  shows "node_good t"
proof -
  have "node_inv t"
    using assms conn_steps_keep [of E "inb s a" "inb t a" for a]
    by (intro node_inv_cong [of s t]) (auto simp: node_good_def heap_steps_def)
  moreover have "conn_good (inb t a)" "client_good (outb t a)" for a
    using assms accepted.reach_inv [of E "inb s a" "inb t a"] dialled.reach_inv [of E "outb s a" "outb t a"]
    by (simp_all add: node_good_def heap_steps_def)
  ultimately show ?thesis by (simp add: node_good_def)
qed

lemma node_good_fields:
  assumes "node_good s" and "fresh t = fresh s" "conns t = conns s" "inb t = inb s" "outb t = outb s"
  shows "node_good t \<and> node_next s t"
  using assms by (simp add: node_good_def node_next_def node_inv_def)

lemma node_good_OnOpen:
  assumes "node_good s"
  shows "node_good (snd (cm_OnOpen g r s)) \<and> node_next s (snd (cm_OnOpen g r s))"
  using assms cm_OnOpen_inv [of s g r]
  by (simp add: node_good_def) (simp add: cm_OnOpen_def node_next_def Let_def)

lemma node_good_AddConnection:
  assumes "node_good s"
  shows "node_good (snd (cm_AddConnection mode d addr s)) \<and> node_next s (snd (cm_AddConnection mode d addr s))"
  using assms cm_AddConnection_inv [of s mode d addr]
  by (simp add: node_good_def) (simp add: cm_AddConnection_def node_next_def Let_def client_good_new)

lemma node_good_file:
  assumes "node_good s" and "a < fresh s"
  shows "node_good (s\<lparr>conns := (conns s)(KUint64 (conn_id (inb s a)) := Some a)\<rparr>)
    \<and> node_next s (s\<lparr>conns := (conns s)(KUint64 (conn_id (inb s a)) := Some a)\<rparr>)"
  using assms by (auto simp: node_good_def node_next_def node_inv_def)

lemma node_good_OnClose:
  assumes "node_good s"
  shows "node_good (cm_OnClose ctx s) \<and> node_next s (cm_OnClose ctx s)"
  using assms cm_OnClose_inv [of s ctx]
  by (simp add: node_good_def) (simp add: cm_OnClose_def node_next_def split: gnet_ctx.split)

lemma more_ops [simp]:
  "node.more (set_inb a s c) = node.more s" "node.more (set_outb a s cl) = node.more s"
  "node.more (node_Start s) = node.more s" "node.more (cm_OnClose ctx s) = node.more s"
  "node.more (snd (cm_OnOpen g r s)) = node.more s"
  "node.more (snd (cm_AddConnection mode d addr s)) = node.more s"
  by (simp_all add: set_inb_def set_outb_def node_Start_def cm_OnClose_def cm_OnOpen_def
      cm_AddConnection_def Let_def split: gnet_ctx.split)

lemma node_Ontick_more: "node.more (res_state (node_Ontick E order s)) = node.more s"
proof (induction order arbitrary: s)
  case (Cons k order)
  show ?case
  proof (cases "conns s k")
    case (Some a)
    obtain seq r where r: "connection_Ontick E (nextID s) (inb s a) = (seq, r)"
      by (cases "connection_Ontick E (nextID s) (inb s a)")
    show ?thesis using Some r Cons.IH by (cases r) simp_all
  qed (use Cons.IH in simp)
qed simp

text \<open>A turn of the dormant loop of an accepted connection files the connection at most.\<close>

lemma node_good_token:
  assumes good: "node_good s" and a: "a < fresh s"
    and ch: "try_recv (establishChan (inb s a)) = Some ((), ch)"
    and s1: "s1 = set_inb a s ((inb s a)\<lparr>establishChan := ch, established := True\<rparr>)"
  shows "node_good (s1\<lparr>conns := (conns s1)(KUint64 (conn_id (inb s1 a)) := Some a)\<rparr>)
    \<and> node_next s (s1\<lparr>conns := (conns s1)(KUint64 (conn_id (inb s1 a)) := Some a)\<rparr>)"
proof -
  have step: "heap_steps (table_env []) s s1" unfolding s1 by (intro heap_set_inb conn_token ch)
  have a1: "a < fresh s1" using a by (simp add: s1)
  show ?thesis
    using node_good_file [OF heap_steps_good [OF step good] a1] node_next_trans [OF heap_steps_next [OF step]]
    by blast
qed

text \<open>An event in which no packet is handled moves connections only.\<close>

lemma node_quiet_keeps:
  assumes "node_quiet E mode s t" and good: "node_good s"
  shows "node_good t" and "node_next s t" and "node.more t = node.more s"
proof -
  have heap: "node_good t \<and> node_next s t" if "heap_steps E s t"
    using that good heap_steps_good heap_steps_next by blast
  from assms(1) have "node_good t \<and> node_next s t \<and> node.more t = node.more s"
  proof cases
    case quiet_start
    have "node_good t \<and> node_next s t"
      unfolding quiet_start by (rule node_good_fields [OF good]) (simp_all add: node_Start_def)
    then show ?thesis using quiet_start by simp
  next
    case (quiet_connect d addr)
    then show ?thesis using node_good_AddConnection [OF good] by simp
  next
    case (quiet_close ctx)
    then show ?thesis using node_good_OnClose [OF good] by simp
  next
    case (quiet_client_open ctx l)
    have "heap_steps E s t"
      unfolding quiet_client_open eventHandler_OnOpen_def
      by (auto split: gnet_ctx.split conn_ref.split
          intro!: heap_refl heap_set_outb outside out_local)
    moreover have "node.more t = node.more s"
      unfolding quiet_client_open eventHandler_OnOpen_def by (simp split: gnet_ctx.split conn_ref.split)
    ultimately show ?thesis using heap by blast
  next
    case (quiet_client_close ctx)
    have "heap_steps E s t"
      unfolding quiet_client_close eventHandler_OnClose_def
      by (auto split: gnet_ctx.split conn_ref.split
          intro!: heap_refl heap_set_outb outside out_closed)
    moreover have "node.more t = node.more s"
      unfolding quiet_client_close eventHandler_OnClose_def by (simp split: gnet_ctx.split conn_ref.split)
    ultimately show ?thesis using heap by blast
  next
    case (quiet_client a c)
    then show ?thesis using heap by (auto intro: heap_set_outb)
  next
    case (quiet_conn_close a)
    then show ?thesis using heap by (auto intro: heap_set_inb conn_close)
  qed
  then show "node_good t" "node_next s t" "node.more t = node.more s" by blast+
qed

section \<open>The interface of a node\<close>

locale node_server =
  fixes E :: env
    and onPacket handlePacket :: "conn_ref \<Rightarrow> 'a node_scheme handler"
    and Inv :: "'a node_scheme \<Rightarrow> bool"
  assumes onPacket_heap: "heap_steps E s (res_state (onPacket ref h m s))"
    and handlePacket_heap: "heap_steps E s (res_state (handlePacket ref h m s))"
    and onPacket_inv: "Inv s \<Longrightarrow> ref_alloc ref s \<Longrightarrow> Inv (res_state (onPacket ref h m s))"
    and handlePacket_inv: "Inv s \<Longrightarrow> ref_alloc ref s \<Longrightarrow> Inv (res_state (handlePacket ref h m s))"
    and Inv_next: "Inv s \<Longrightarrow> node_next s t \<Longrightarrow> node_inv t \<Longrightarrow> node.more t = node.more s \<Longrightarrow> Inv t"
begin

lemma Inv_heap:
  assumes "Inv s" and "node_good s" and "heap_steps E s t" and "node.more t = node.more s"
  shows "Inv t"
  using assms heap_steps_good [OF assms(3,2)]
  by (intro Inv_next [OF assms(1) heap_steps_next]) (simp_all add: node_good_def)

lemma OnTraffic_keeps:
  assumes ret: "cm_OnTraffic ops E onPacket ctx c s = Some (r, c')"
    and inv: "Inv s" and ctx: "ctx_alloc ctx s"
  shows "Inv (res_state r) \<and> heap_steps E s (res_state r)"
proof (cases ctx)
  case (CtxConn ref)
  let ?P = "\<lambda>t. Inv t \<and> heap_steps E s t \<and> ref_alloc ref t"
  have kept: "packet_handler (onPacket ref) ?P"
  proof
    fix t h m
    assume t: "?P t"
    have "heap_steps E t (res_state (onPacket ref h m t))" by (rule onPacket_heap)
    with t show "?P (res_state (onPacket ref h m t))"
      using onPacket_inv node_next_ref(3) [OF heap_steps_next] by (auto intro: heap_trans)
  qed
  show ?thesis
  proof (cases "started s")
    case True
    then have "traffic_loop ops E (onPacket ref) c s = Some (r, c')"
      using ret CtxConn by (simp add: cm_OnTraffic_def)
    from packet_handler.traffic_loop_inv [OF kept this] inv ctx CtxConn show ?thesis
      by (simp add: heap_refl)
  next
    case False
    then show ?thesis using ret inv by (auto simp: cm_OnTraffic_def heap_refl)
  qed
qed (use ret inv in \<open>auto simp: cm_OnTraffic_def heap_refl split: if_splits\<close>)

lemma client_OnPacket_keeps:
  assumes inv: "Inv s" and good: "node_good s" and a: "a < fresh s"
  shows "Inv (res_state (client_OnPacket now handlePacket a h m s))
    \<and> heap_steps E s (res_state (client_OnPacket now handlePacket a h m s))"
proof -
  define s1 where "s1 = set_outb a s (snd (client_receive now h m (outb s a)))"
  have heap: "heap_steps E s s1"
    unfolding s1_def by (intro heap_set_outb outside out_packet)
  have inv1: "Inv s1" by (rule Inv_heap [OF inv good heap]) (simp add: s1_def)
  have a1: "ref_alloc (OutConn a) s1" using a by (simp add: s1_def)
  let ?r = "handlePacket (OutConn a) h m s1"
  have "res_state (client_OnPacket now handlePacket a h m s) \<in> {s1, res_state ?r}"
    by (cases ?r) (auto simp: client_OnPacket_def s1_def Let_def split: prod.split verdict.split)
  then show ?thesis
    using heap inv1 handlePacket_inv [OF inv1 a1] heap_trans [OF heap handlePacket_heap] by auto
qed

text \<open>Every event keeps the invariants and the identities.\<close>

lemma node_step_keeps:
  assumes "node_step ops E mode onPacket handlePacket s t" and good: "node_good s" and inv: "Inv s"
  shows "node_good t \<and> node_next s t \<and> Inv t"
proof -
  have heap: ?thesis if "heap_steps E s t" "Inv t"
    using that good heap_steps_good heap_steps_next by blast
  from assms(1) show ?thesis
  proof cases
    case node_by_quiet
    note keeps = node_quiet_keeps [OF node_by_quiet good]
    then show ?thesis using Inv_next [OF inv keeps(2) _ keeps(3)] by (simp add: node_good_def)
  next
    case (node_traffic ctx c r c')
    then show ?thesis using heap OnTraffic_keeps [OF node_traffic(3) inv node_traffic(2)] by simp
  next
    case (node_packet a now h m)
    then show ?thesis using heap client_OnPacket_keeps [OF inv good] by (simp add: dials_def)
  qed
qed

end

end
