(* ===== verification/TaskPool.thy ===== *)
theory TaskPool
  imports Scheduler Steps
begin

text \<open>
  What the scheduler is for, without connections, packets and bytes: a pool of tasks with a bounded
  queue, a table of the tasks that were handed out and not answered, and whether anybody is there to
  work. \<open>SchedulerSteps\<close> names the events of the pool that a call of the scheduler stands for, from
  the state before the call and the packets in it, and proves that the pool then goes through them.
  \<open>Accept k\<close> is the one event with no guard: it stands for an answer that accepts \<open>k\<close>, which the code
  takes from anyone, and deletes a key that may be absent.
\<close>

record pool =
  queue :: "Task list"
  room :: nat
  waiting :: "string \<Rightarrow> Task option"
  crew :: bool

datatype pool_event =
    Submit Task | Assign Task | Drop Task | Accept string | Retry string Task | Lose string Task | Ignore string | Hire

inductive pool_step :: "pool \<Rightarrow> pool_event \<Rightarrow> pool \<Rightarrow> bool" where
  pool_submit: "length (queue p) < room p \<Longrightarrow> pool_step p (Submit t) (p\<lparr>queue := queue p @ [t]\<rparr>)"
| pool_assign: "queue p = t # q \<Longrightarrow> crew p \<Longrightarrow>
    pool_step p (Assign t) (p\<lparr>queue := q, waiting := (waiting p)(ID t \<mapsto> t)\<rparr>)"
| pool_drop: "queue p = t # q \<Longrightarrow> \<not> crew p \<Longrightarrow> pool_step p (Drop t) (p\<lparr>queue := q\<rparr>)"
| pool_accept: "pool_step p (Accept k) (p\<lparr>waiting := (waiting p)(k := None)\<rparr>)"
| pool_retry: "waiting p k = Some t \<Longrightarrow> length (queue p) < room p \<Longrightarrow>
    pool_step p (Retry k t) (p\<lparr>queue := queue p @ [t], waiting := (waiting p)(k := None)\<rparr>)"
| pool_lose: "waiting p k = Some t \<Longrightarrow> room p \<le> length (queue p) \<Longrightarrow>
    pool_step p (Lose k t) (p\<lparr>waiting := (waiting p)(k := None)\<rparr>)"
| pool_ignore: "waiting p k = None \<Longrightarrow> pool_step p (Ignore k) p"
| pool_hire: "pool_step p Hire (p\<lparr>crew := True\<rparr>)"

fun submitted :: "pool_event \<Rightarrow> Task list" where
  "submitted (Submit t) = [t]"
| "submitted _ = []"

section \<open>What the pool guarantees\<close>

definition pool_held :: "pool \<Rightarrow> Task set" where
  "pool_held p = set (queue p) \<union> ran (waiting p)"

definition pool_inv :: "pool \<Rightarrow> bool" where
  "pool_inv p \<longleftrightarrow> length (queue p) \<le> room p \<and> (\<forall>k t. waiting p k = Some t \<longrightarrow> ID t = k)"

lemma pool_step_inv: "pool_step p e q \<Longrightarrow> pool_inv p \<Longrightarrow> pool_inv q"
  by (induction rule: pool_step.induct) (auto simp: pool_inv_def split: if_splits)

text \<open>The only event that brings a task in is its submission.\<close>

lemma pool_step_held: "pool_step p e q \<Longrightarrow> pool_held q \<subseteq> pool_held p \<union> set (submitted e)"
  by (induction rule: pool_step.induct) (auto simp: pool_held_def ran_def split: if_splits)

lemma pool_run_held:
  "run pool_step p tr q \<Longrightarrow> pool_held q \<subseteq> pool_held p \<union> set (concat (map submitted tr))"
  by (induction rule: run.induct) (auto dest: pool_step_held)

text \<open>
  \<open>ends t e\<close>: after the event \<open>e\<close> the pool may have let go of the task \<open>t\<close>: it was accepted, or
  dropped with nobody to work, or rejected while the queue was full, or another task with its id was
  handed out.
\<close>

fun ends :: "Task \<Rightarrow> pool_event \<Rightarrow> bool" where
  "ends t (Submit u) = False"
| "ends t (Assign u) = (u \<noteq> t \<and> ID u = ID t)"
| "ends t (Drop u) = (u = t)"
| "ends t (Accept k) = (k = ID t)"
| "ends t (Retry k u) = False"
| "ends t (Lose k u) = (u = t)"
| "ends t (Ignore k) = False"
| "ends t Hire = False"

lemma pool_held_iff:
  "pool_inv p \<Longrightarrow> t \<in> pool_held p \<longleftrightarrow> t \<in> set (queue p) \<or> waiting p (ID t) = Some t"
  by (auto simp: pool_held_def pool_inv_def ran_def)

lemma pool_step_keeps:
  assumes "pool_step p e q" and "pool_inv p" and "t \<in> pool_held p" and "\<not> ends t e"
  shows "t \<in> pool_held q"
proof -
  have q: "pool_inv q" using pool_step_inv assms by blast
  have p: "t \<in> set (queue p) \<or> waiting p (ID t) = Some t"
    using assms(2,3) by (simp add: pool_held_iff)
  from assms(1) have "t \<in> set (queue q) \<or> waiting q (ID t) = Some t"
  proof cases
    case (pool_retry k u)
    then have "t = u" if "ID t = k" "waiting p (ID t) = Some t" using that by simp
    then show ?thesis using p unfolding pool_retry(2) by (cases "ID t = k") auto
  next
    case (pool_lose k u)
    then have "t = u" if "ID t = k" "waiting p (ID t) = Some t" using that by simp
    moreover have "t \<noteq> u" using assms(4) pool_lose(1) by simp
    ultimately show ?thesis using p unfolding pool_lose(2) by (cases "ID t = k") auto
  qed (use p assms(4) in auto)
  then show ?thesis by (simp add: pool_held_iff [OF q])
qed

lemma pool_run_inv: "run pool_step p tr q \<Longrightarrow> pool_inv p \<Longrightarrow> pool_inv q"
  by (induction rule: run.induct) (auto intro: pool_step_inv)

lemma pool_run_keeps:
  assumes "run pool_step p tr q" and "pool_inv p"
    and "t \<in> pool_held p \<union> set (concat (map submitted tr))"
  shows "t \<in> pool_held q \<or> (\<exists>e \<in> set tr. ends t e)"
  using assms
proof (induction rule: run.induct)
  case (run_Nil p)
  then show ?case by simp
next
  case (run_snoc p tr q e r)
  have inv: "pool_inv q" using pool_run_inv run_snoc by blast
  show ?case
  proof (cases "t \<in> set (submitted e)")
    case True
    then have "e = Submit t" by (cases e) auto
    with run_snoc.hyps(2) show ?thesis
      by (auto elim: pool_step.cases simp: pool_held_def)
  next
    case False
    then have "t \<in> pool_held q \<or> (\<exists>e \<in> set tr. ends t e)" using run_snoc by auto
    then show ?thesis using pool_step_keeps [OF run_snoc.hyps(2) inv] by auto
  qed
qed

text \<open>A task that was submitted is held from then on, until an event ends it.\<close>

lemma pool_run_after:
  assumes "run pool_step p (xs @ Submit t # ys) q" and "pool_inv p"
  shows "t \<in> pool_held q \<or> (\<exists>e \<in> set ys. ends t e)"
proof -
  obtain r where r: "run pool_step p (xs @ [Submit t]) r" "run pool_step r ys q"
    using run_split [of pool_step p "xs @ [Submit t]" ys q] assms(1) by auto
  then obtain v where "pool_step v (Submit t) r" by (auto dest!: run_split [of _ _ xs] elim: run.cases)
  then have "t \<in> pool_held r" by (auto elim: pool_step.cases simp: pool_held_def)
  then show ?thesis using pool_run_keeps [OF r(2) pool_run_inv [OF r(1) assms(2)], of t] by blast
qed

text \<open>The queue never holds more than it has room for, and the room never changes.\<close>

lemma pool_run_room: "run pool_step p tr q \<Longrightarrow> room q = room p"
  by (induction rule: run.induct) (auto elim: pool_step.cases)

text \<open>Once somebody works, the loop drops nothing.\<close>

lemma pool_run_crew:
  assumes "run pool_step p tr q" and "crew p"
  shows "crew q \<and> (\<forall>t. Drop t \<notin> set tr)"
  using assms
proof (induction rule: run.induct)
  case (run_snoc p tr q e r)
  then have "crew q" "\<forall>t. Drop t \<notin> set tr" by auto
  with run_snoc.hyps(2) show ?case by (cases rule: pool_step.cases) auto
qed simp

end
