(* ===== verification/SchedulerSteps.thy ===== *)
theory SchedulerSteps
  imports NodeSteps TaskPool
begin

text \<open>
  The scheduler as a transition system: everything that can happen to it, in any order, from
  \<^verbatim>\<open>NewScheduler\<close> on. Its invariant holds in every reachable state, and it refines the task pool
  of \<open>TaskPool\<close>: the label of an event says what it should be for the pool, computed from the
  state before it and from the packets in it, and seen through \<open>pool_of\<close> the scheduler does just that.
\<close>

section \<open>Events\<close>

text \<open>
  What an answer of a worker is for the pool: it accepts a task, puts a pending one back, finds no place
  to put it back, or is about no pending task.
\<close>

definition answer_event :: "AssignTaskResponse \<Rightarrow> scheduler \<Rightarrow> pool_event" where
  "answer_event r s =
    (let k = AssignTaskResponse_TaskId r in
     if AssignTaskResponse_Accepted r then Accept k
     else case pendingTasks s k of
       None \<Rightarrow> Ignore k
     | Some t \<Rightarrow> if length (buf (taskChan s)) < chan_slots (taskChan s) then Retry k t else Lose k t)"

text \<open>What a packet is for the pool: an answer, or the greeting of a worker.\<close>

definition packet_events :: "Header \<Rightarrow> pb_msg \<Rightarrow> scheduler \<Rightarrow> pool_event list" where
  "packet_events h m s =
    (if Uri h = MetaEstablishAck then
       (case as_EstablishResponse m of
          None \<Rightarrow> [] | Some r \<Rightarrow> if EstablishResponse_Mode r = ModeWorker then [Hire] else [])
     else if Uri h = RayAssignTaskResp then
       (case as_AssignTaskResponse m of None \<Rightarrow> [] | Some r \<Rightarrow> [answer_event r s])
     else [])"

text \<open>What a round of \<^verbatim>\<open>Loop\<close> is, which ranges over the workers in \<open>order\<close>.\<close>

definition round_events :: "string list \<Rightarrow> scheduler \<Rightarrow> pool_event list" where
  "round_events order s =
    (case buf (taskChan s) of [] \<Rightarrow> [] | t # q \<Rightarrow> if order = [] then [Drop t] else [Assign t])"

text \<open>
  The label of an event is what it is for the pool: the submission of the task that a call of
  \<^verbatim>\<open>PushTask\<close> has added, the answers and greetings among the packets that \<^verbatim>\<open>OnTraffic\<close> or \<^verbatim>\<open>OnPacket\<close>
  hands to the handler, what a round does with the oldest task. Besides the events of every node
  (\<^verbatim>\<open>OnClose\<close>, \<^verbatim>\<open>OnTraffic\<close>, \<^verbatim>\<open>Connect\<close>, \<^verbatim>\<open>Start\<close>, the dialling connections): an accepted
  connection, a round of \<^verbatim>\<open>Loop\<close> (which ranges over all registered workers, in any order), the
  heartbeat, and the methods of an accepted connection.
\<close>

inductive scheduler_step ::
  "'c gnet_ops \<Rightarrow> env \<Rightarrow> scheduler \<Rightarrow> pool_event list \<Rightarrow> scheduler \<Rightarrow> bool" for ops E where
  sched_quiet: "node_quiet E scheduler_GetMode s t \<Longrightarrow> scheduler_step ops E s [] t"
| sched_traffic: "ctx_alloc ctx s \<Longrightarrow> cm_OnTraffic ops E (scheduler_OnPacket E) ctx c s = Some (r, c') \<Longrightarrow>
    scheduler_step ops E s (cm_notes ops E (scheduler_OnPacket E) packet_events ctx c s) (res_state r)"
| sched_packet: "dials a s \<Longrightarrow>
    scheduler_step ops E s (client_notes now packet_events a h m s)
      (res_state (client_OnPacket now (scheduler_HandlePacket E) a h m s))"
| sched_open: "scheduler_step ops E s [] (snd (scheduler_OnOpen g remote s))"
| sched_push: "PushTask task s = (None, t) \<Longrightarrow> scheduler_step ops E s [Submit task] t"
| sched_refuse: "PushTask task s = (Some err, t) \<Longrightarrow> scheduler_step ops E s [] t"
| sched_round: "distinct order \<Longrightarrow> set order = dom (workerConns s) \<Longrightarrow>
    scheduler_step ops E s (round_events order s) (res_state (scheduler_Loop_round E order s))"
| sched_tick: "scheduler_step ops E s [] (res_state (scheduler_Ontick E keys s))"
| sched_establish: "a < fresh s \<Longrightarrow> scheduler_step ops E s [] (res_state (scheduler_conn_Establish E a s))"
| sched_conn_loop: "a < fresh s \<Longrightarrow> scheduler_conn_Loop timeout a s = Some (d, t) \<Longrightarrow>
    scheduler_step ops E s [] t"

section \<open>The connections under the scheduler's operations\<close>

lemma heap_scheduler_fields [simp]:
  "heap_steps E s0 ((s :: scheduler)\<lparr>nextID := i\<rparr>) = heap_steps E s0 s"
  "heap_steps E s0 (s\<lparr>workerConns := w\<rparr>) = heap_steps E s0 s"
  "heap_steps E s0 (s\<lparr>gcsConns := w\<rparr>) = heap_steps E s0 s"
  "heap_steps E s0 (s\<lparr>taskChan := ch\<rparr>) = heap_steps E s0 s"
  "heap_steps E s0 (s\<lparr>pendingTasks := p\<rparr>) = heap_steps E s0 s"
  by (simp_all add: heap_steps_def)

lemma PushTask_heap [simp]: "heap_steps E s0 (snd (PushTask t s)) = heap_steps E s0 s"
  by (simp add: PushTask_def split: option.split)

lemma scheduler_OnPacket_heap: "heap_steps E s (res_state (scheduler_OnPacket E ref h m s))"
  by (simp add: scheduler_OnPacket_def scheduler_onEstablish_def scheduler_onEstablishAck_def
      onAssignTaskResp_def Let_def heap_refl heap_intros split: option.split)

lemma handleServerReq_heap [heap_intros]:
  "heap_steps E s0 s \<Longrightarrow> heap_steps E s0 (res_state (handleServerReq E ref req s))"
  by (cases req) (simp_all add: handleServerReq_def Let_def heap_intros)

lemma assign_loop_heap [heap_intros]:
  "heap_steps E s0 s \<Longrightarrow> heap_steps E s0 (res_state (assign_loop E task order s))"
proof (induction order arbitrary: s)
  case (Cons k order)
  show ?case
  proof (cases "workerConns s k")
    case (Some ref)
    let ?r = "handleServerReq E ref (MAssignTaskRequest (assign_request task))
      (s\<lparr>pendingTasks := (pendingTasks s)(ID task \<mapsto> task)\<rparr>)"
    have "heap_steps E s0 (res_state ?r)"
      by (rule handleServerReq_heap) (simp add: Cons.prems)
    then show ?thesis using Cons.IH Some by (cases ?r) simp_all
  qed (use Cons in simp)
qed simp

lemma scheduler_Loop_round_heap: "heap_steps E s (res_state (scheduler_Loop_round E order s))"
proof -
  have "heap_steps E s (res_state (AssignTask E order s))"
    by (simp add: AssignTask_def heap_refl heap_intros split: option.split)
  then show ?thesis
    by (cases "AssignTask E order s") (simp_all add: scheduler_Loop_round_def heap_refl)
qed

section \<open>The pool of a scheduler\<close>

definition pool_of :: "scheduler \<Rightarrow> pool" where
  "pool_of s = \<lparr>queue = buf (taskChan s), room = chan_slots (taskChan s), waiting = pendingTasks s,
     crew = (workerConns s \<noteq> Map.empty)\<rparr>"

text \<open>The pool is a part of the scheduler that the operations on connections do not touch.\<close>

lemma scheduler_more:
  assumes "node.more t = node.more (s :: scheduler)"
  shows "taskChan t = taskChan s" and "pendingTasks t = pendingTasks s" and "workerConns t = workerConns s"
proof -
  show "taskChan t = taskChan s"
    using assms by (cases s, cases t) (simp only: scheduler.simps node.simps)
  show "pendingTasks t = pendingTasks s"
    using assms by (cases s, cases t) (simp only: scheduler.simps node.simps)
  show "workerConns t = workerConns s"
    using assms by (cases s, cases t) (simp only: scheduler.simps node.simps)
qed

lemma pool_of_more:
  assumes "node.more t = node.more (s :: scheduler)"
  shows "pool_of t = pool_of s"
  by (simp only: pool_of_def scheduler_more [OF assms])

lemma pool_of_ops [simp]:
  "pool_of (res_state (reply E ref h m s)) = pool_of s"
  "pool_of (s\<lparr>nextID := i\<rparr>) = pool_of s" "pool_of (s\<lparr>gcsConns := w\<rparr>) = pool_of s"
  "pool_of (ref_SetEstablished ref s) = pool_of s" "pool_of (ref_NotifyEstablish ref s) = pool_of s"
  by (simp_all add: pool_of_def)

lemma pool_of_handleServerReq [simp]: "pool_of (res_state (handleServerReq E ref req s)) = pool_of s"
  by (cases req) (simp_all add: handleServerReq_def Let_def)

text \<open>\<open>pool_run s l t\<close>: from \<open>s\<close> to \<open>t\<close> the pool of the scheduler goes through the events \<open>l\<close>.\<close>

definition pool_run :: "scheduler \<Rightarrow> pool_event list \<Rightarrow> scheduler \<Rightarrow> bool" where
  "pool_run s l t \<longleftrightarrow> run pool_step (pool_of s) l (pool_of t)"

lemma pool_run_same: "pool_of t = pool_of s \<Longrightarrow> pool_run s [] t"
  by (simp add: pool_run_def run_Nil)

lemma pool_run_trans: "pool_run s l t \<Longrightarrow> pool_run t l' u \<Longrightarrow> pool_run s (l @ l') u"
  unfolding pool_run_def by (rule run_append)

lemma pool_run_step: "pool_step (pool_of s) e (pool_of t) \<Longrightarrow> pool_run s [e] t"
  unfolding pool_run_def by (rule run_single)

lemma PushTask_pool:
  "PushTask t s = (None, s') \<Longrightarrow> pool_step (pool_of s) (Submit t) (pool_of s')"
  "PushTask t s = (Some err, s') \<Longrightarrow> s' = s"
  using pool_submit [of "pool_of s" t]
  by (auto simp: PushTask_def try_send_def pool_of_def chan_slots_def split: option.splits if_splits)

text \<open>An answer accepts the task, puts it back, or finds the queue full and loses it.\<close>

lemma onAssignTaskResp_pool: "pool_run s [answer_event resp s] (res_state (onAssignTaskResp resp s))"
proof -
  define k where "k = AssignTaskResponse_TaskId resp"
  define s1 where "s1 = s\<lparr>pendingTasks := (pendingTasks s)(k := None)\<rparr>"
  have p1: "pool_of s1 = (pool_of s)\<lparr>waiting := (waiting (pool_of s))(k := None)\<rparr>"
    by (simp add: s1_def pool_of_def)
  show ?thesis
  proof (cases "AssignTaskResponse_Accepted resp")
    case True
    then have "res_state (onAssignTaskResp resp s) = s1" "answer_event resp s = Accept k"
      by (simp_all add: onAssignTaskResp_def answer_event_def Let_def s1_def k_def)
    then show ?thesis using pool_run_step [of s "Accept k" s1] pool_accept [of "pool_of s" k] p1 by simp
  next
    case rejected: False
    show ?thesis
    proof (cases "pendingTasks s k")
      case None
      then have "res_state (onAssignTaskResp resp s) = s" "answer_event resp s = Ignore k"
        using rejected by (simp_all add: onAssignTaskResp_def answer_event_def Let_def k_def)
      then show ?thesis using None pool_run_step [of s "Ignore k" s] pool_ignore [of "pool_of s" k] by (simp add: pool_of_def)
    next
      case (Some task)
      then have r: "res_state (onAssignTaskResp resp s) = snd (PushTask task s1)"
        using rejected by (simp add: onAssignTaskResp_def Let_def s1_def k_def)
      have w: "waiting (pool_of s) k = Some task" using Some by (simp add: pool_of_def)
      show ?thesis
      proof (cases "length (buf (taskChan s)) < chan_slots (taskChan s)")
        case True
        then have "pool_of (snd (PushTask task s1))
            = (pool_of s)\<lparr>queue := queue (pool_of s) @ [task], waiting := (waiting (pool_of s))(k := None)\<rparr>"
          by (simp add: PushTask_def try_send_def s1_def pool_of_def chan_slots_def)
        moreover have "answer_event resp s = Retry k task"
          using rejected Some True by (simp add: answer_event_def Let_def k_def)
        ultimately show ?thesis
          using pool_retry [OF w] True unfolding r
          by (simp add: pool_run_step pool_of_def)
      next
        case False
        then have "snd (PushTask task s1) = s1"
          by (simp add: PushTask_def try_send_def s1_def chan_slots_def)
        moreover have "answer_event resp s = Lose k task"
          using rejected Some False by (simp add: answer_event_def Let_def k_def)
        ultimately show ?thesis
          using pool_lose [OF w] False p1 unfolding r
          by (simp add: pool_run_step pool_of_def)
      qed
    qed
  qed
qed

lemma scheduler_onEstablishAck_pool:
  "pool_run s (if EstablishResponse_Mode resp = ModeWorker then [Hire] else []) (res_state (scheduler_onEstablishAck ref resp s))"
proof (cases "EstablishResponse_Mode resp = ModeWorker")
  case True
  then have "pool_of (res_state (scheduler_onEstablishAck ref resp s)) = (pool_of s)\<lparr>crew := True\<rparr>"
    by (auto simp: scheduler_onEstablishAck_def Let_def pool_of_def fun_eq_iff)
  then show ?thesis using True pool_run_step [of s Hire] pool_hire [of "pool_of s"] by simp
next
  case False
  then have "pool_of (res_state (scheduler_onEstablishAck ref resp s)) = pool_of s"
    by (simp add: scheduler_onEstablishAck_def Let_def)
  then show ?thesis using False by (simp add: pool_run_same)
qed

lemma scheduler_OnPacket_pool: "pool_run s (packet_events h m s) (res_state (scheduler_OnPacket E ref h m s))"
proof -
  have "pool_run s [] (res_state (scheduler_onEstablish E ref h req s))" for req
    by (rule pool_run_same) (simp add: scheduler_onEstablish_def Let_def)
  then show ?thesis
    using scheduler_onEstablishAck_pool onAssignTaskResp_pool
    by (auto simp: scheduler_OnPacket_def packet_events_def pool_run_same const_defs split: option.split)
qed

lemma scheduler_HandlePacket_pool: "pool_run s (packet_events h m s) (res_state (scheduler_HandlePacket E ref h m s))"
  unfolding scheduler_HandlePacket_def by (rule scheduler_OnPacket_pool)

text \<open>The packets of one call, in their order.\<close>

lemma scheduler_OnTraffic_pool:
  assumes "cm_OnTraffic ops E (scheduler_OnPacket E) ctx c s = Some (r, c')"
  shows "pool_run s (cm_notes ops E (scheduler_OnPacket E) packet_events ctx c s) (res_state r)"
proof (cases "\<exists>ref. started s \<and> ctx = CtxConn ref")
  case True
  then obtain ref where ref: "started s" "ctx = CtxConn ref" by blast
  then have "traffic_loop ops E (scheduler_OnPacket E ref) c s = Some (r, c')"
    using assms by (simp add: cm_OnTraffic_def)
  then have "pool_run s (traffic_notes ops E (scheduler_OnPacket E ref) packet_events c s) (res_state r)"
    by (rule traffic_notes_sound) (auto intro: pool_run_same pool_run_trans scheduler_OnPacket_pool)
  then show ?thesis using ref by (simp add: cm_notes_def)
next
  case False
  then show ?thesis
    using assms by (auto simp: cm_OnTraffic_def cm_notes_def pool_run_same split: if_splits gnet_ctx.splits)
qed

lemma scheduler_client_pool:
  "pool_run s (client_notes now packet_events a h m s) (res_state (client_OnPacket now (scheduler_HandlePacket E) a h m s))"
proof -
  obtain v c1 where v: "client_receive now h m (outb s a) = (v, c1)" by (cases "client_receive now h m (outb s a)")
  have "pool_of (set_outb a s c1) = pool_of s" by (rule pool_of_more) simp
  then have "pool_run s [] (set_outb a s c1)" by (rule pool_run_same)
  from pool_run_trans [OF this scheduler_HandlePacket_pool, of h m E "OutConn a"] this show ?thesis
    by (cases "scheduler_HandlePacket E (OutConn a) h m (set_outb a s c1)")
      (auto simp: client_OnPacket_def client_notes_def v Let_def split: verdict.split)
qed

text \<open>A round of \<^verbatim>\<open>Loop\<close> hands out the oldest task if a worker is registered, and else drops it.\<close>

lemma assign_loop_pool:
  "pool_of (res_state (assign_loop E task order s)) =
    (if \<exists>k \<in> set order. workerConns s k \<noteq> None
     then (pool_of s)\<lparr>waiting := (waiting (pool_of s))(ID task \<mapsto> task)\<rparr> else pool_of s)"
proof (induction order arbitrary: s)
  case (Cons k order)
  show ?case
  proof (cases "workerConns s k")
    case (Some ref)
    let ?s1 = "s\<lparr>pendingTasks := (pendingTasks s)(ID task \<mapsto> task)\<rparr>"
    let ?r = "handleServerReq E ref (MAssignTaskRequest (assign_request task)) ?s1"
    have r: "pool_of (res_state ?r) = (pool_of s)\<lparr>waiting := (waiting (pool_of s))(ID task \<mapsto> task)\<rparr>"
      by simp (simp add: pool_of_def)
    then show ?thesis using Cons.IH Some by (cases ?r) simp_all
  qed (use Cons in simp)
qed simp

lemma scheduler_Loop_round_pool:
  assumes "set order = dom (workerConns s)"
  shows "pool_run s (round_events order s) (res_state (scheduler_Loop_round E order s))"
proof (cases "buf (taskChan s)")
  case Nil
  then show ?thesis by (simp add: scheduler_Loop_round_def round_events_def chan_len_def pool_run_same)
next
  case (Cons t q)
  define s1 where "s1 = s\<lparr>taskChan := (taskChan s)\<lparr>buf := q\<rparr>\<rparr>"
  have s1: "pool_of s1 = (pool_of s)\<lparr>queue := q\<rparr>" "workerConns s1 = workerConns s"
    by (simp_all add: s1_def pool_of_def chan_slots_def)
  have "AssignTask E order s = assign_loop E t order s1"
    using Cons by (simp add: AssignTask_def try_recv_def s1_def)
  then have "res_state (scheduler_Loop_round E order s) = res_state (assign_loop E t order s1)"
    using Cons by (cases "assign_loop E t order s1") (simp_all add: scheduler_Loop_round_def chan_len_def)
  moreover have "(\<exists>k \<in> set order. workerConns s1 k \<noteq> None) = crew (pool_of s)"
    using assms by (auto simp: s1(2) pool_of_def fun_eq_iff)
  ultimately have after: "pool_of (res_state (scheduler_Loop_round E order s)) =
      (if crew (pool_of s)
       then (pool_of s)\<lparr>queue := q, waiting := (waiting (pool_of s))(ID t \<mapsto> t)\<rparr>
       else (pool_of s)\<lparr>queue := q\<rparr>)"
    using assign_loop_pool [of E t order s1] s1(1) by simp
  have queue: "queue (pool_of s) = t # q" using Cons by (simp add: pool_of_def)
  have events: "round_events order s = (if crew (pool_of s) then [Assign t] else [Drop t])"
  proof -
    have "order = [] \<longleftrightarrow> workerConns s = Map.empty" using assms by (metis dom_eq_empty_conv set_empty)
    then show ?thesis using Cons by (simp add: round_events_def pool_of_def)
  qed
  show ?thesis
  proof (cases "crew (pool_of s)")
    case True
    then show ?thesis using pool_assign [OF queue True] after by (simp add: events pool_run_step)
  next
    case False
    then show ?thesis using pool_drop [OF queue False] after by (simp add: events pool_run_step)
  qed
qed

section \<open>The scheduler is a node\<close>

lemma scheduler_inv_next:
  assumes inv: "scheduler_inv s" and nxt: "node_next s t" and node: "node_inv t"
    and more: "node.more t = node.more s"
  shows "scheduler_inv t"
proof -
  note same = scheduler_more [OF more]
  have "ref_Remote ref t = k \<and> ref_alloc ref t" if "workerConns s k = Some ref" for k ref
    using inv that node_next_ref [OF nxt, of ref] unfolding scheduler_inv_def by blast
  then show ?thesis
    using inv node unfolding scheduler_inv_def same by blast
qed

interpretation sched_node: node_server E "scheduler_OnPacket E" "scheduler_HandlePacket E" scheduler_inv for E
proof
  fix s ref h m
  show "heap_steps E s (res_state (scheduler_OnPacket E ref h m s))"
    "heap_steps E s (res_state (scheduler_HandlePacket E ref h m s))"
    by (simp_all add: scheduler_HandlePacket_def scheduler_OnPacket_heap)
  assume "scheduler_inv s" "ref_alloc ref s"
  then show "scheduler_inv (res_state (scheduler_OnPacket E ref h m s))"
    "scheduler_inv (res_state (scheduler_HandlePacket E ref h m s))"
    using scheduler_OnPacket_inv by (auto simp: scheduler_HandlePacket_def)
qed (rule scheduler_inv_next)

section \<open>The scheduler's own events\<close>

lemma conn_Establish_heap:
  "heap_steps E s (res_state (scheduler_conn_Establish E a s))
    \<and> node.more (res_state (scheduler_conn_Establish E a s)) = node.more s"
proof -
  let ?s1 = "s\<lparr>nextID := nextID s + 1\<rparr>"
  obtain c where c: "(conn_step E)\<^sup>*\<^sup>* (inb ?s1 a) c"
    "res_state (scheduler_conn_Establish E a s) = set_inb a ?s1 c"
    unfolding scheduler_conn_Establish_def scheduler_conn_Send_def Let_def by (rule encode_and_send)
  have "heap_steps E s ?s1" by (simp add: heap_refl)
  from heap_trans [OF this heap_set_inb_steps [OF c(1)]] show ?thesis unfolding c(2) by simp
qed

text \<open>Every event keeps the invariants and is the run of the pool that its label says.\<close>

lemma scheduler_step_keeps:
  assumes "scheduler_step ops E s l t" and good: "node_good s" and inv: "scheduler_inv s"
  shows "node_good t \<and> node_next s t \<and> scheduler_inv t \<and> pool_run s l t"
proof -
  have heap: ?thesis if "heap_steps E s t" "scheduler_inv t" "pool_run s l t"
    using that heap_steps_good [OF that(1) good] heap_steps_next by auto
  have wire: ?thesis if "node_good t" "node_next s t" "node.more t = node.more s" "l = []"
    using that scheduler_inv_next [OF inv] pool_run_same [OF pool_of_more] by (auto simp: node_good_def)
  have beat: ?thesis if "heap_steps E s t" "node.more t = node.more s" "l = []"
    using that heap_steps_good [OF that(1) good] heap_steps_next [OF that(1)] by (intro wire) auto
  from assms(1) show ?thesis
  proof cases
    case sched_quiet
    then show ?thesis using wire node_quiet_keeps [OF _ good] by blast
  next
    case (sched_traffic ctx c r c')
    from sched_node.node_step_keeps [OF node_traffic [OF sched_traffic(3,4)] good inv] show ?thesis
      using scheduler_OnTraffic_pool [OF sched_traffic(4)] sched_traffic(1,2) by simp
  next
    case (sched_packet a now h m)
    from sched_node.node_step_keeps [OF node_packet [OF sched_packet(3)] good inv] show ?thesis
      using scheduler_client_pool sched_packet(1,2) by simp
  next
    case (sched_open g remote)
    then show ?thesis using wire node_good_OnOpen [OF good] by (simp add: scheduler_OnOpen_def)
  next
    case (sched_push task)
    have "heap_steps E s t" using PushTask_heap [of E s task s] sched_push(2) by (simp add: heap_refl)
    moreover have "scheduler_inv t" using PushTask_inv [OF inv, of task] sched_push(2) by simp
    ultimately show ?thesis
      using heap pool_run_step [OF PushTask_pool(1) [OF sched_push(2)]] sched_push(1) by simp
  next
    case (sched_refuse task err)
    then have "t = s" using PushTask_pool(2) by blast
    then show ?thesis using heap sched_refuse(1) by (simp add: inv heap_refl pool_run_same)
  next
    case (sched_round order)
    have "scheduler_inv t"
      using inv AssignTask_inv [OF inv, of E order] unfolding sched_round(2)
      by (cases "AssignTask E order s") (simp_all add: scheduler_Loop_round_def)
    then show ?thesis
      using heap scheduler_Loop_round_heap scheduler_Loop_round_pool [OF sched_round(4)] sched_round(1,2) by simp
  next
    case (sched_tick keys)
    have "heap_steps E s t" using sched_beat.round_heap [of E s keys] sched_tick(2) by simp
    then show ?thesis
      using sched_tick(1) by (intro beat) (simp_all add: sched_tick(2) scheduler_Ontick_def node_Ontick_more)
  next
    case (sched_establish a)
    then show ?thesis using beat conn_Establish_heap by blast
  next
    case (sched_conn_loop a timeout d)
    show ?thesis
    proof (cases timeout)
      case True
      then have "t = s" using sched_conn_loop(3) by (simp add: scheduler_conn_Loop_def)
      then show ?thesis using wire good sched_conn_loop(1) by simp
    next
      case False
      then obtain ch where ch: "try_recv (establishChan (inb s a)) = Some ((), ch)"
        using sched_conn_loop(3) by (auto simp: scheduler_conn_Loop_def split: option.splits)
      define s1 where "s1 = set_inb a s ((inb s a)\<lparr>establishChan := ch, established := True\<rparr>)"
      have t: "t = s1\<lparr>conns := (conns s1)(KUint64 (conn_id (inb s1 a)) := Some a)\<rparr>"
        using sched_conn_loop(3) False ch by (auto simp: scheduler_conn_Loop_def Let_def s1_def)
      from node_good_token [OF good sched_conn_loop(2) ch s1_def] have "node_good t" "node_next s t"
        unfolding t by blast+
      moreover have "node.more t = node.more s" unfolding t s1_def by (simp add: set_inb_def)
      ultimately show ?thesis using wire sched_conn_loop(1) by blast
    qed
  qed
qed

text \<open>The tasks that an event has pushed.\<close>

definition pushed :: "pool_event list \<Rightarrow> Task list" where
  "pushed l = concat (map submitted l)"

lemma pushed_simps [simp]: "pushed [] = []" "pushed [Submit t] = [t]"
  by (simp_all add: pushed_def)

lemma concat_pushed: "concat (map pushed ls) = concat (map submitted (concat ls))"
  by (induction ls) (simp_all add: pushed_def)

interpretation sched_pool: labelled_refinement "scheduler_step ops E" "\<lambda>s. node_good s \<and> scheduler_inv s"
    pool_step pool_of "\<lambda>l. l" "\<lambda>e. [e]" for ops E
proof
  fix s l t assume "scheduler_step ops E s l t" "node_good s \<and> scheduler_inv s"
  then have "node_good t \<and> scheduler_inv t \<and> pool_run s l t" using scheduler_step_keeps by blast
  then show "node_good t \<and> scheduler_inv t" "\<exists>tr. run pool_step (pool_of s) tr (pool_of t) \<and> concat (map (\<lambda>e. [e]) tr) = l"
    by (auto simp: pool_run_def)
qed

lemma scheduler_pool:
  assumes "run (scheduler_step ops E) s ls t" and "node_good s \<and> scheduler_inv s"
  shows "run pool_step (pool_of s) (concat ls) (pool_of t)"
  using sched_pool.run_sim [OF assms] by auto

section \<open>Properties\<close>

text \<open>The pool of a scheduler that was just made.\<close>

definition pool_start :: "option_fun list \<Rightarrow> pool" where
  "pool_start opts = \<lparr>queue = [], room = nat (TaskChanSize (apply_options opts)), waiting = (\<lambda>_. None), crew = False\<rparr>"

lemma NewScheduler_start:
  assumes "NewScheduler listen advertise opts = Some s"
  shows "node_good s \<and> scheduler_inv s \<and> pool_of s = pool_start opts"
proof -
  have "node_inv s"
    using assms by (auto simp: NewScheduler_def node_inv_def split: if_splits)
  then show ?thesis
    using assms
    by (auto simp: NewScheduler_def node_good_def scheduler_inv_def pool_of_def pool_start_def chan_slots_def
        client_good_new split: if_splits)
qed

text \<open>
  C25. Every reachable state of the scheduler is well-formed. Whatever its workers, the GCS, callers of
  \<^verbatim>\<open>PushTask\<close>, timers and transports do, in any order, from \<^verbatim>\<open>NewScheduler\<close> on: its invariant
  holds (the table, the pending tasks, the registered workers), the queue is within the capacity of
  the options, every connection has written a sequence of complete frames, and every dialling
  connection is in a state from which its loop does not panic.
\<close>

theorem scheduler_reach_inv:
  assumes "NewScheduler listen advertise opts = Some s0" and "run (scheduler_step ops E) s0 ls s"
  shows "scheduler_inv s
    \<and> length (buf (taskChan s)) \<le> nat (TaskChanSize (apply_options opts))
    \<and> framed (ref_stream ref s)
    \<and> (dials a s \<longrightarrow> client_inv (outb s a))"
proof -
  have s: "node_good s \<and> scheduler_inv s"
    using sched_pool.run_inv [OF assms(2)] NewScheduler_start [OF assms(1)] by blast
  have "run pool_step (pool_of s0) (concat ls) (pool_of s)"
    using scheduler_pool [OF assms(2)] NewScheduler_start [OF assms(1)] by blast
  then have "room (pool_of s) = nat (TaskChanSize (apply_options opts))"
    using pool_run_room NewScheduler_start [OF assms(1)] by (force simp: pool_start_def)
  moreover have "length (queue (pool_of s)) \<le> room (pool_of s)"
    using s by (simp add: scheduler_inv_def pool_of_def)
  ultimately have "length (buf (taskChan s)) \<le> nat (TaskChanSize (apply_options opts))"
    by (simp add: pool_of_def)
  moreover have "framed (ref_stream ref s)"
    using s by (cases ref) (simp_all add: node_good_def conn_good_def client_good_def)
  ultimately show ?thesis
    using s by (simp add: node_good_def client_good_def dials_def)
qed

definition one_slot :: scheduler where
  "one_slot = the (NewScheduler [] [] [WithTaskChanSize 1])"

definition one_task :: scheduler where
  "one_task = snd (PushTask sample_task one_slot)"

lemma one_slot_run:
  "NewScheduler [] [] [WithTaskChanSize 1] = Some one_slot"
  "run (scheduler_step buf_ops (table_env [])) one_slot [[Submit sample_task]] one_task"
  "buf (taskChan one_task) = [sample_task]"
proof -
  note defs = one_slot_def NewScheduler_def apply_options_def WithTaskChanSize_def zero_options_def
  show "NewScheduler [] [] [WithTaskChanSize 1] = Some one_slot" by (simp add: defs)
  have "PushTask sample_task one_slot = (None, one_task)"
    by (simp add: one_task_def) (simp add: PushTask_def try_send_def make_chan_def defs)
  then show "run (scheduler_step buf_ops (table_env [])) one_slot [[Submit sample_task]] one_task"
    by (intro run_single sched_push)
  show "buf (taskChan one_task) = [sample_task]"
    by (simp add: one_task_def PushTask_def try_send_def make_chan_def defs)
qed

lemma scheduler_reach_inv_witness:
  "scheduler_inv one_task \<and> length (buf (taskChan one_task)) \<le> 1 \<and> framed (ref_stream (InConn 0) one_task)"
  using scheduler_reach_inv [OF one_slot_run(1,2), of "InConn 0" 0]
  by (simp add: apply_options_def WithTaskChanSize_def)

text \<open>
  C11. The scheduler refines the task pool. Every execution of the scheduler, seen through its queue, its
  pending table and whether a worker is registered, is the execution of the pool that its labels
  spell out, event by event and in their order: a submission for each call of \<^verbatim>\<open>PushTask\<close> that
  returned no error, and only for these; for each answer of a worker among the packets it was handed,
  that the task is accepted, or goes back to the end of the queue, or is lost because the queue is full,
  or was not pending; for each greeting of a worker, that there is one; for each round of the loop,
  that the oldest task is handed out, or dropped if no worker is registered.
\<close>

theorem scheduler_refines_pool:
  assumes "NewScheduler listen advertise opts = Some s0" and "run (scheduler_step ops E) s0 ls s"
  shows "run pool_step (pool_start opts) (concat ls) (pool_of s)
    \<and> concat (map submitted (concat ls)) = concat (map pushed ls)"
  using scheduler_pool [OF assms(2)] NewScheduler_start [OF assms(1)] concat_pushed by simp

text \<open>
  C12. Every task is accounted for. In every reachable state the scheduler holds (queued or pending)
  only tasks that were pushed; and a task that was pushed is held from then on, unless one of the later
  events of the execution says why not: an answer that accepts its id was read, it was taken from the
  queue while no worker was registered, an answer rejected it while the queue was full, or another task
  with its id was handed out. Once a worker is registered no task is dropped for want of one.
\<close>

theorem tasks_accounted_for:
  assumes "NewScheduler listen advertise opts = Some s0" and "run (scheduler_step ops E) s0 ls s"
    and "run (scheduler_step ops E) s ls' s'"
  shows "held s' \<subseteq> set (concat (map pushed (ls @ ls')))
    \<and> (\<forall>xs t ys. concat (ls @ ls') = xs @ Submit t # ys \<longrightarrow> t \<in> held s' \<or> (\<exists>e \<in> set ys. ends t e))
    \<and> (workerConns s \<noteq> Map.empty \<longrightarrow> workerConns s' \<noteq> Map.empty \<and> (\<forall>t. Drop t \<notin> set (concat ls')))"
proof -
  note start = NewScheduler_start [OF assms(1)]
  have good: "node_good s \<and> scheduler_inv s" using sched_pool.run_inv [OF assms(2)] start by blast
  have later: "run pool_step (pool_of s) (concat ls') (pool_of s')" by (rule scheduler_pool [OF assms(3) good])
  have all: "run pool_step (pool_start opts) (concat (ls @ ls')) (pool_of s')"
    using run_append [OF later] scheduler_pool [OF assms(2)] start by simp
  have empty: "pool_held (pool_start opts) = {}" "pool_inv (pool_start opts)"
    by (simp_all add: pool_held_def pool_start_def pool_inv_def)
  have held: "held s' = pool_held (pool_of s')" by (simp add: held_def pool_held_def pool_of_def)
  have "held s' \<subseteq> set (concat (map pushed (ls @ ls')))"
    using pool_run_held [OF all] unfolding held empty(1) concat_pushed by blast
  moreover have "t \<in> held s' \<or> (\<exists>e \<in> set ys. ends t e)" if "concat (ls @ ls') = xs @ Submit t # ys" for xs t ys
    using pool_run_after [OF _ empty(2)] all unfolding held that by blast
  moreover have "workerConns s' \<noteq> Map.empty \<and> (\<forall>t. Drop t \<notin> set (concat ls'))" if "workerConns s \<noteq> Map.empty"
    using pool_run_crew [OF later] that by (simp add: pool_of_def)
  ultimately show ?thesis by blast
qed

section \<open>A run\<close>

text \<open>A worker greets, a task is pushed and handed out, and the worker rejects it.\<close>

definition hire_msg :: pb_msg where
  "hire_msg = MEstablishResponse \<lparr>EstablishResponse_Mode = ModeWorker, EstablishResponse_Err = ''OK''\<rparr>"

definition reject_msg :: pb_msg where
  "reject_msg = MAssignTaskResponse \<lparr>AssignTaskResponse_Accepted = False, AssignTaskResponse_WorkerId = [],
     AssignTaskResponse_TaskId = ID sample_task\<rparr>"

definition crew_env :: env where
  "crew_env = table_env [(hire_msg, [1]), (reject_msg, [2])]"

lemma crew_reads:
  assumes m: "unmarshalByURI crew_env u [b] = Inr m"
    and heard: "scheduler_OnPacket crew_env (InConn 0) \<lparr>Uri = u, SeqId = 1\<rparr> m s = Ok None t"
    and s: "started s" "0 < fresh s"
  shows "scheduler_step buf_ops crew_env s (packet_events \<lparr>Uri = u, SeqId = 1\<rparr> m s) t"
proof -
  let ?h = "\<lparr>Uri = u, SeqId = 1\<rparr>" and ?on = "scheduler_OnPacket crew_env (InConn 0)"
  let ?ctx = "CtxConn (InConn 0)" and ?c = "wire_frame ?h [b]"
  have "ZeroCopyDecode buf_ops crew_env ?c = (Inr (?h, m), [])"
    using ZeroCopyDecode_refines [OF buf_ops_ok, of crew_env ?c] decode_bytes_wire_frame [of "[b]" crew_env ?h "[]"] m
    by (simp add: prod_eq_iff)
  moreover have "?c \<noteq> []" by (simp add: wire_frame_def MakeFrame_def)
  ultimately have loop: "traffic_loop buf_ops crew_env on ?c p = Some (Ok ActNone q, [])"
    if "on ?h m p = Ok None q" for on :: "'s handler" and p q
    using that by (subst traffic_loop.simps, subst traffic_loop.simps) (simp add: buf_ops_def)
  have "noted ?on packet_events ?h m (s, []) = Ok None (t, packet_events ?h m s)"
    using heard by (simp add: noted_def)
  then have "cm_notes buf_ops crew_env (scheduler_OnPacket crew_env) packet_events ?ctx ?c s = packet_events ?h m s"
    using s(1) loop [of "noted ?on packet_events" "(s, [])"] by (simp add: cm_notes_def traffic_notes_def)
  moreover have "cm_OnTraffic buf_ops crew_env (scheduler_OnPacket crew_env) ?ctx ?c s = Some (Ok ActNone t, [])"
    using s(1) loop [of ?on s, OF heard] by (simp add: cm_OnTraffic_def)
  ultimately show ?thesis
    using sched_traffic [of ?ctx s buf_ops crew_env ?c "Ok ActNone t" "[]"] s(2) by simp
qed

definition crew0 :: scheduler where
  "crew0 = snd (scheduler_OnOpen 0 None (node_Start one_slot))"

definition crew1 :: scheduler where
  "crew1 = res_state (scheduler_OnPacket crew_env (InConn 0) \<lparr>Uri = MetaEstablishAck, SeqId = 1\<rparr> hire_msg crew0)"

definition crew2 :: scheduler where
  "crew2 = snd (PushTask sample_task crew1)"

definition crew3 :: scheduler where
  "crew3 = res_state (scheduler_Loop_round crew_env [ref_Remote (InConn 0) crew2] crew2)"

definition crew4 :: scheduler where
  "crew4 = res_state (scheduler_OnPacket crew_env (InConn 0) \<lparr>Uri = RayAssignTaskResp, SeqId = 1\<rparr> reject_msg crew3)"

lemma crew_unmarshals: "unmarshalByURI crew_env MetaEstablishAck [1] = Inr hire_msg"
  "unmarshalByURI crew_env RayAssignTaskResp [2] = Inr reject_msg"
  by code_simp+

lemma crew_up: "started crew0" "0 < fresh crew0" "started crew3" "0 < fresh crew3"
  "fst (PushTask sample_task crew1) = None"
  by code_simp+

lemma crew_events:
  "packet_events \<lparr>Uri = MetaEstablishAck, SeqId = 1\<rparr> hire_msg crew0 = [Hire]"
  "round_events [ref_Remote (InConn 0) crew2] crew2 = [Assign sample_task]"
  "packet_events \<lparr>Uri = RayAssignTaskResp, SeqId = 1\<rparr> reject_msg crew3 = [Retry (ID sample_task) sample_task]"
  by code_simp+

lemma crew_heard:
  "scheduler_OnPacket crew_env (InConn 0) \<lparr>Uri = MetaEstablishAck, SeqId = 1\<rparr> hire_msg crew0 = Ok None crew1"
  "scheduler_OnPacket crew_env (InConn 0) \<lparr>Uri = RayAssignTaskResp, SeqId = 1\<rparr> reject_msg crew3 = Ok None crew4"
proof -
  have "case scheduler_OnPacket crew_env (InConn 0) \<lparr>Uri = MetaEstablishAck, SeqId = 1\<rparr> hire_msg crew0 of Ok None s \<Rightarrow> True | _ \<Rightarrow> False"
    "case scheduler_OnPacket crew_env (InConn 0) \<lparr>Uri = RayAssignTaskResp, SeqId = 1\<rparr> reject_msg crew3 of Ok None s \<Rightarrow> True | _ \<Rightarrow> False"
    by code_simp+
  then show "scheduler_OnPacket crew_env (InConn 0) \<lparr>Uri = MetaEstablishAck, SeqId = 1\<rparr> hire_msg crew0 = Ok None crew1"
    "scheduler_OnPacket crew_env (InConn 0) \<lparr>Uri = RayAssignTaskResp, SeqId = 1\<rparr> reject_msg crew3 = Ok None crew4"
    by (auto simp: crew1_def crew4_def split: res.splits option.splits)
qed

lemma crew_workers: "workerConns crew2 = [ref_Remote (InConn 0) crew2 \<mapsto> InConn 0]"
proof -
  have "workerConns crew0 = Map.empty"
    by (simp add: crew0_def one_slot_def NewScheduler_def scheduler_OnOpen_def cm_OnOpen_def node_Start_def
        apply_options_def WithTaskChanSize_def Let_def)
  moreover have "ref_Remote (InConn 0) crew1 = ref_Remote (InConn 0) crew0"
    using heap_steps_next [OF scheduler_OnPacket_heap] crew_up(2) unfolding crew1_def
    by (intro node_next_ref(1)) simp_all
  ultimately have "workerConns crew1 = [ref_Remote (InConn 0) crew1 \<mapsto> InConn 0]"
    by (simp add: crew1_def scheduler_OnPacket_def scheduler_onEstablishAck_def hire_msg_def const_defs set_inb_def Let_def)
  then show ?thesis by (simp add: crew2_def PushTask_def split: option.split)
qed

lemma crew_run: "run (scheduler_step buf_ops crew_env) one_slot
  [[], [], [Hire], [Submit sample_task], [Assign sample_task], [Retry (ID sample_task) sample_task]] crew4"
proof -
  have "PushTask sample_task crew1 = (None, crew2)" using crew_up(5) unfolding crew2_def by (metis prod.collapse)
  then have push: "scheduler_step buf_ops crew_env crew1 [Submit sample_task] crew2" by (rule sched_push)
  have hire: "scheduler_step buf_ops crew_env crew0 [Hire] crew1"
    using crew_reads [OF crew_unmarshals(1) _ crew_up(1,2)] crew_heard(1) crew_events(1) by simp
  have hand: "scheduler_step buf_ops crew_env crew2 [Assign sample_task] crew3"
    using sched_round [of "[ref_Remote (InConn 0) crew2]" crew2 buf_ops crew_env] crew_events(2) crew_workers
    unfolding crew3_def by simp
  have reject: "scheduler_step buf_ops crew_env crew3 [Retry (ID sample_task) sample_task] crew4"
    using crew_reads [OF crew_unmarshals(2) _ crew_up(3,4)] crew_heard(2) crew_events(3) by simp
  have begins: "scheduler_step buf_ops crew_env one_slot [] (node_Start one_slot)" by (rule sched_quiet [OF quiet_start])
  have opens: "scheduler_step buf_ops crew_env (node_Start one_slot) [] crew0" unfolding crew0_def by (rule sched_open)
  show ?thesis
    by (intro run_Cons [of "scheduler_step buf_ops crew_env"]) (rule begins opens hire push hand reject run_Nil)+
qed

lemma scheduler_refines_pool_witness:
  "run pool_step (pool_start [WithTaskChanSize 1])
    [Hire, Submit sample_task, Assign sample_task, Retry (ID sample_task) sample_task] (pool_of crew4)"
  using scheduler_refines_pool [OF one_slot_run(1) crew_run] by simp

lemma tasks_accounted_for_witness: "sample_task \<in> held crew4 \<and> workerConns crew4 \<noteq> Map.empty"
proof -
  have first: "run (scheduler_step buf_ops crew_env) one_slot [] one_slot" by (rule run_Nil)
  have "concat ([] @ [[], [], [Hire], [Submit sample_task], [Assign sample_task], [Retry (ID sample_task) sample_task]])
    = [Hire] @ Submit sample_task # [Assign sample_task, Retry (ID sample_task) sample_task]" by simp
  with tasks_accounted_for [OF one_slot_run(1) first crew_run]
  have "sample_task \<in> held crew4 \<or> (\<exists>e \<in> set [Assign sample_task, Retry (ID sample_task) sample_task]. ends sample_task e)"
    by blast
  moreover have "ref_Remote (InConn 0) crew2 \<in> dom (workerConns crew4)" by code_simp
  ultimately show ?thesis by auto
qed

end
