(* ===== verification/GcsSteps.thy ===== *)
theory GcsSteps
  imports NodeSteps
begin

text \<open>
  The global control store as a transition system, and what holds of its directory in every
  reachable state: each location it has is the address of a connection it has.
\<close>

section \<open>Events\<close>

inductive gcs_step :: "'c gnet_ops \<Rightarrow> env \<Rightarrow> gcs \<Rightarrow> gcs \<Rightarrow> bool" for ops E where
  gcs_node: "node_step ops E gcs_GetMode (gcs_OnPacket E) (gcs_HandlePacket E) s t \<Longrightarrow> gcs_step ops E s t"
| gcs_open: "gcs_step ops E s (snd (gcs_OnOpen g remote s))"
| gcs_turn: "gcs_step ops E s (res_state (gcs_Loop_round E keys s))"
| gcs_establish: "a < fresh s \<Longrightarrow> gcs_step ops E s (res_state (gcs_conn_Establish E a s))"
| gcs_conn_turn: "a < fresh s \<Longrightarrow> gcs_conn_Loop timeout a s = Some (d, t) \<Longrightarrow> gcs_step ops E s t"

section \<open>The directory\<close>

definition gcs_inv :: "gcs \<Rightarrow> bool" where
  "gcs_inv s \<longleftrightarrow> node_inv s \<and>
     (\<forall>obj addr. objectLocationMap s obj = Some addr \<longrightarrow> (\<exists>ref. ref_alloc ref s \<and> ref_Remote ref s = addr))"

lemma heap_gcs_fields [simp]:
  "heap_steps E s0 ((s :: gcs)\<lparr>nextID := i\<rparr>) = heap_steps E s0 s"
  "heap_steps E s0 (s\<lparr>nextSeq := i\<rparr>) = heap_steps E s0 s"
  "heap_steps E s0 (s\<lparr>objectLocationMap := m\<rparr>) = heap_steps E s0 s"
  by (simp_all add: heap_steps_def)

lemma gcs_OnPacket_heap: "heap_steps E s (res_state (gcs_OnPacket E ref h m s))"
  by (simp add: gcs_OnPacket_def gcs_onEstablish_def gcs_onEstablishAck_def gcs_onReportTaskResult_def
      gcs_onGetObjectLocation_def Let_def heap_refl heap_intros split: option.split)

lemma gcs_inv_dir:
  assumes "gcs_inv s" and "node_next s t" and "node_inv t" and "objectLocationMap t = objectLocationMap s"
  shows "gcs_inv t"
proof -
  have "\<exists>ref. ref_alloc ref t \<and> ref_Remote ref t = addr" if "objectLocationMap s obj = Some addr" for obj addr
  proof -
    from assms(1) that obtain ref where "ref_alloc ref s" "ref_Remote ref s = addr"
      unfolding gcs_inv_def by blast
    then show ?thesis using node_next_ref [OF assms(2), of ref] by auto
  qed
  then show ?thesis using assms(3,4) unfolding gcs_inv_def by simp
qed

lemma gcs_more:
  assumes "node.more t = node.more (s :: gcs)"
  shows "objectLocationMap t = objectLocationMap s"
  using assms by (cases s, cases t) (simp only: gcs.simps node.simps)

lemma objectLocationMap_ops [simp]:
  "objectLocationMap (res_state (ref_Send E ref p s)) = objectLocationMap s"
  "objectLocationMap (ref_SetEstablished ref s) = objectLocationMap s"
  "objectLocationMap (ref_NotifyEstablish ref s) = objectLocationMap s"
  by (cases ref; simp add: set_inb_def set_outb_def)+

lemma objectLocationMap_reply [simp]:
  "objectLocationMap (res_state (reply E ref h m s)) = objectLocationMap s"
  by (simp add: reply_def split: sum.split)

lemma gcs_OnPacket_dir:
  "Uri h \<noteq> RayReportTaskResult \<or> as_ReportTaskResultRequest m = None \<Longrightarrow>
    objectLocationMap (res_state (gcs_OnPacket E ref h m s)) = objectLocationMap s"
  by (cases "as_ReportTaskResultRequest m"; cases "as_EstablishReq m"; cases "as_GetObjectDataRequest m")
    (simp_all add: gcs_OnPacket_def gcs_onEstablish_def gcs_onEstablishAck_def
      gcs_onGetObjectLocation_def Let_def split: option.split)

lemma gcs_OnPacket_gcs_inv:
  assumes inv: "gcs_inv s" and ref: "ref_alloc ref s"
  shows "gcs_inv (res_state (gcs_OnPacket E ref h m s))"
proof -
  let ?t = "res_state (gcs_OnPacket E ref h m s)"
  have step: "node_next s ?t" by (rule heap_steps_next [OF gcs_OnPacket_heap])
  have node: "node_inv ?t" using inv by (intro gcs_OnPacket_inv) (simp add: gcs_inv_def)
  show ?thesis
  proof (cases "Uri h = RayReportTaskResult \<and> as_ReportTaskResultRequest m \<noteq> None")
    case False
    then have "objectLocationMap ?t = objectLocationMap s"
      by (intro gcs_OnPacket_dir) auto
    then show ?thesis using gcs_inv_dir [OF inv step node] by simp
  next
    case True
    then obtain req where uri: "Uri h = RayReportTaskResult" "as_ReportTaskResultRequest m = Some req"
      by blast
    have t: "?t = s\<lparr>objectLocationMap :=
        (objectLocationMap s)(ReportTaskResultRequest_ObjectId req \<mapsto> ref_Remote ref s)\<rparr>"
      using uri by (simp add: gcs_OnPacket_def gcs_onReportTaskResult_def const_defs)
    have same: "ref_alloc r ?t = ref_alloc r s" "ref_Remote r ?t = ref_Remote r s" for r
      unfolding t by (cases r; simp)+
    show ?thesis
      unfolding gcs_inv_def same using node inv ref unfolding t by (auto simp: gcs_inv_def)
  qed
qed

interpretation gcs_nd: node_server E "gcs_OnPacket E" "gcs_HandlePacket E" gcs_inv for E
proof
  fix s ref h m
  show "heap_steps E s (res_state (gcs_OnPacket E ref h m s))"
    "heap_steps E s (res_state (gcs_HandlePacket E ref h m s))"
    by (simp_all add: gcs_HandlePacket_def gcs_OnPacket_heap)
  assume "gcs_inv s" "ref_alloc ref s"
  then show "gcs_inv (res_state (gcs_OnPacket E ref h m s))"
    "gcs_inv (res_state (gcs_HandlePacket E ref h m s))"
    by (simp_all add: gcs_HandlePacket_def gcs_OnPacket_gcs_inv)
next
  fix s t :: gcs
  assume "gcs_inv s" "node_next s t" "node_inv t" "node.more t = node.more s"
  then show "gcs_inv t" using gcs_inv_dir gcs_more by blast
qed

section \<open>The store's own events\<close>

lemma gcs_Ontick_dir: "objectLocationMap (res_state (gcs_Ontick E order s)) = objectLocationMap s"
proof (induction order arbitrary: s)
  case (Cons k order)
  show ?case
  proof (cases "conns s k")
    case (Some a)
    obtain seq r where r: "connection_Ontick E (nextSeq s) (inb s a) = (seq, r)"
      by (cases "connection_Ontick E (nextSeq s) (inb s a)")
    show ?thesis using Some r Cons.IH by (cases r) (simp_all add: set_inb_def)
  qed (use Cons.IH in simp)
qed simp

lemma gcs_conn_Establish_heap:
  "heap_steps E s (res_state (gcs_conn_Establish E a s))
    \<and> objectLocationMap (res_state (gcs_conn_Establish E a s)) = objectLocationMap s"
proof -
  let ?s1 = "s\<lparr>nextSeq := nextSeq s + 1\<rparr>"
  obtain c where c: "(conn_step E)\<^sup>*\<^sup>* (inb ?s1 a) c"
    "res_state (gcs_conn_Establish E a s) = set_inb a ?s1 c"
    unfolding gcs_conn_Establish_def gcs_conn_Send_def Let_def by (rule encode_and_send)
  have "heap_steps E s ?s1" by (simp add: heap_refl)
  from heap_trans [OF this heap_set_inb_steps [OF c(1)]] show ?thesis unfolding c(2) by (simp add: set_inb_def)
qed

lemma gcs_step_keeps:
  assumes "gcs_step ops E s t" and good: "node_good s" and inv: "gcs_inv s"
  shows "node_good t \<and> node_next s t \<and> gcs_inv t"
proof -
  have dir: ?thesis if "node_good t" "node_next s t" "objectLocationMap t = objectLocationMap s"
    using that gcs_inv_dir [OF inv] by (auto simp: node_good_def)
  have beat: ?thesis if "heap_steps E s t" "objectLocationMap t = objectLocationMap s"
    using that heap_steps_good [OF that(1) good] heap_steps_next [OF that(1)] by (intro dir) auto
  from assms(1) show ?thesis
  proof cases
    case gcs_node
    then show ?thesis using gcs_nd.node_step_keeps [OF _ good inv] by blast
  next
    case (gcs_open g remote)
    have "objectLocationMap t = objectLocationMap s"
      by (rule gcs_more) (simp add: gcs_open gcs_OnOpen_def)
    then show ?thesis
      using node_good_OnOpen [OF good, of g remote] by (intro dir) (simp_all add: gcs_open gcs_OnOpen_def)
  next
    case (gcs_turn keys)
    then show ?thesis
      using gcs_beat.round_heap [of E s keys]
      by (intro beat) (simp_all add: gcs_Loop_round_def gcs_Ontick_dir)
  next
    case (gcs_establish a)
    then show ?thesis using gcs_conn_Establish_heap by (intro beat) simp_all
  next
    case (gcs_conn_turn a timeout d)
    show ?thesis
    proof (cases timeout)
      case True
      then have "t = s" using gcs_conn_turn(2) by (simp add: gcs_conn_Loop_def)
      then show ?thesis using good inv by simp
    next
      case False
      then obtain ch where ch: "try_recv (establishChan (inb s a)) = Some ((), ch)"
        using gcs_conn_turn(2) by (auto simp: gcs_conn_Loop_def split: option.splits)
      define s1 where "s1 = set_inb a s ((inb s a)\<lparr>establishChan := ch, established := True\<rparr>)"
      have t: "t = s1\<lparr>conns := (conns s1)(KUint64 (conn_id (inb s1 a)) := Some a)\<rparr>"
        using gcs_conn_turn(2) False ch by (auto simp: gcs_conn_Loop_def Let_def s1_def)
      from node_good_token [OF good gcs_conn_turn(1) ch s1_def] have "node_good t" "node_next s t"
        unfolding t by blast+
      moreover have "objectLocationMap t = objectLocationMap s" unfolding t s1_def by (simp add: set_inb_def)
      ultimately show ?thesis by (rule dir)
    qed
  qed
qed

interpretation gcs_sys: step_invariant "gcs_step ops E" "\<lambda>s. node_good s \<and> gcs_inv s" for ops E
  by unfold_locales (use gcs_step_keeps in blast)

section \<open>Properties\<close>

lemma NewGCS_start: "node_good (NewGCS l a opts) \<and> gcs_inv (NewGCS l a opts)"
  by (simp add: node_good_def gcs_inv_def node_inv_NewGCS) (simp add: NewGCS_def client_good_new)

text \<open>
  C27. Every reachable state of the GCS is well-formed, whatever arrives, in any order, from
  \<^verbatim>\<open>NewGCS\<close> on: each entry of the connection table is an allocated connection filed under its own
  id; each location in the directory is the remote address of a connection that the GCS has
  accepted or dialled; every connection has written a sequence of complete frames; and every
  dialling connection is in a state from which its loop does not panic.
\<close>

theorem gcs_reach_inv:
  assumes "(gcs_step ops E)\<^sup>*\<^sup>* (NewGCS listen advertise opts) s"
  shows "node_inv s
    \<and> (objectLocationMap s obj = Some addr \<longrightarrow> (\<exists>ref. ref_alloc ref s \<and> ref_Remote ref s = addr))
    \<and> framed (ref_stream ref s)
    \<and> (dials a s \<longrightarrow> client_inv (outb s a))"
proof -
  have s: "node_good s \<and> gcs_inv s" by (rule gcs_sys.reach_inv [OF assms NewGCS_start])
  have "framed (ref_stream ref s)"
    using s by (cases ref) (simp_all add: node_good_def conn_good_def client_good_def)
  then show ?thesis using s by (auto simp: gcs_inv_def node_good_def client_good_def dials_def)
qed

lemma gcs_reach_inv_witness:
  "node_inv (snd (gcs_OnOpen 3 (Some ''w2:8'') (NewGCS [] [] [])))
    \<and> framed (ref_stream (InConn 0) (snd (gcs_OnOpen 3 (Some ''w2:8'') (NewGCS [] [] []))))"
proof -
  have "(gcs_step buf_ops (table_env []))\<^sup>*\<^sup>* (NewGCS [] [] []) (snd (gcs_OnOpen 3 (Some ''w2:8'') (NewGCS [] [] [])))"
    by (rule r_into_rtranclp) (rule gcs_open)
  from gcs_reach_inv [OF this] show ?thesis by blast
qed

end
