(* ===== verification/WorkerSteps.thy ===== *)
theory WorkerSteps
  imports NodeSteps
begin

text \<open>
  The worker as a transition system, and what holds in every reachable state: beside the invariant
  of \<open>Worker\<close>, that the references it keeps are its own connections and that it announces only
  objects it stores.
\<close>

section \<open>Events\<close>

text \<open>
  The report loop waits in its \<^verbatim>\<open>select\<close> as a parked receiver: a task may then hand it an object
  id even when the channel has no buffer (\<open>work_wait\<close>, \<open>work_wake\<close>), and the end of the context
  takes it out of the wait (\<open>work_leave\<close>). A loop that has panicked may take further turns in this
  relation, which only adds executions; \<open>ReportLoop\<close> follows the loop itself.
\<close>

definition with_reports :: "(string chan \<Rightarrow> string chan) \<Rightarrow> worker \<Rightarrow> worker" where
  "with_reports f s = s\<lparr>registerObjectChan := f (registerObjectChan s)\<rparr>"

inductive worker_step ::
  "'c gnet_ops \<Rightarrow> env \<Rightarrow> (nat \<Rightarrow> int64) \<Rightarrow> worker \<Rightarrow> worker \<Rightarrow> bool" for ops E clock where
  work_node: "node_step ops E worker_GetMode (worker_OnPacket E clock) worker_HandlePacket s t \<Longrightarrow>
    worker_step ops E clock s t"
| work_open: "worker_step ops E clock s (snd (worker_OnOpen g remote s))"
| work_tick: "worker_step ops E clock s (res_state (worker_Ontick E keys s))"
| work_establish: "a < fresh s \<Longrightarrow> worker_step ops E clock s (res_state (worker_conn_Establish E a s))"
| work_conn_loop: "a < fresh s \<Longrightarrow> worker_conn_Loop timeout a s = Some (d, t) \<Longrightarrow> worker_step ops E clock s t"
| work_report: "worker_step ops E clock s (res_state (worker_Loop_round E pick s))"
| work_wait: "worker_Loop_round E pick s = Block s \<Longrightarrow> worker_step ops E clock s (with_reports park s)"
| work_wake: "buf (registerObjectChan s) \<noteq> [] \<Longrightarrow> 0 < parked (registerObjectChan s) \<Longrightarrow>
    worker_step ops E clock s (res_state (worker_Loop_round E True (with_reports unpark s)))"
| work_leave: "buf (registerObjectChan s) = [] \<Longrightarrow> worker_ctxDone s \<Longrightarrow>
    worker_step ops E clock s (with_reports unpark s)"
| work_fetch: "worker_step ops E clock s (res_state (getRemoteObject E pick1 pick2 objectID u1 u2 s))"
| work_ctx: "worker_step ops E clock s (s\<lparr>worker_ctxDone := True\<rparr>)"

section \<open>References and announcements\<close>

definition worker_links :: "worker \<Rightarrow> bool" where
  "worker_links s \<longleftrightarrow>
     set (buf (registerObjectChan s)) \<subseteq> dom (objectStorage s) \<and>
     (\<forall>ref. gcsConn s = Some ref \<longrightarrow> ref_alloc ref s) \<and>
     (\<forall>addr ref. connAddrs s addr = Some ref \<longrightarrow> ref_alloc ref s \<and> ref_Remote ref s = addr)"

lemma worker_more:
  assumes "node.more t = node.more (s :: worker)"
  shows "worker_data t = worker_data s"
  using assms by (cases s, cases t) (simp only: worker.simps node.simps worker_data_def)

text \<open>
  How the links survive: the data may lose announcements and gain objects, and a new reference to
  the GCS or to an address is a connection of the worker.
\<close>

lemma worker_links_next:
  assumes inv: "worker_links s" and nxt: "node_next s t"
    and ann: "set (buf (registerObjectChan t)) \<subseteq> dom (objectStorage t)"
    and gcs: "gcsConn t = gcsConn s \<or> (\<exists>ref. gcsConn t = Some ref \<and> ref_alloc ref s)"
    and addrs: "connAddrs t = connAddrs s"
  shows "worker_links t"
proof -
  have keep: "ref_alloc ref t \<and> ref_Remote ref t = ref_Remote ref s" if "ref_alloc ref s" for ref
    using node_next_ref [OF nxt that] by simp
  have old: "\<And>ref. gcsConn s = Some ref \<Longrightarrow> ref_alloc ref s"
    "\<And>addr ref. connAddrs s addr = Some ref \<Longrightarrow> ref_alloc ref s \<and> ref_Remote ref s = addr"
    using inv unfolding worker_links_def by blast+
  have "ref_alloc ref t" if "gcsConn t = Some ref" for ref
    using gcs that old(1) keep by auto
  moreover have "ref_alloc ref t \<and> ref_Remote ref t = addr" if "connAddrs s addr = Some ref" for addr ref
    using old(2) [OF that] keep by blast
  ultimately show ?thesis using ann unfolding worker_links_def addrs by blast
qed

lemma worker_links_data:
  assumes "worker_links s" and "node_next s t" and "worker_data t = worker_data s"
  shows "worker_links t"
proof (rule worker_links_next [OF assms(1,2)])
  note same = worker_dataD [OF assms(3)]
  show "set (buf (registerObjectChan t)) \<subseteq> dom (objectStorage t)"
    using assms(1) unfolding same worker_links_def by blast
  show "gcsConn t = gcsConn s \<or> (\<exists>ref. gcsConn t = Some ref \<and> ref_alloc ref s)"
    "connAddrs t = connAddrs s" using same by blast+
qed

lemma heap_worker_fields [simp]:
  "heap_steps E s0 ((s :: worker)\<lparr>nextID := i\<rparr>) = heap_steps E s0 s"
  "heap_steps E s0 (s\<lparr>gcsConn := g\<rparr>) = heap_steps E s0 s"
  "heap_steps E s0 (s\<lparr>registerObjectChan := ch\<rparr>) = heap_steps E s0 s"
  "heap_steps E s0 (s\<lparr>objectStorage := ob\<rparr>) = heap_steps E s0 s"
  "heap_steps E s0 (s\<lparr>time_calls := n\<rparr>) = heap_steps E s0 s"
  "heap_steps E s0 (s\<lparr>getObjectLocationChan := ls\<rparr>) = heap_steps E s0 s"
  "heap_steps E s0 (s\<lparr>getObjectChan := os\<rparr>) = heap_steps E s0 s"
  "heap_steps E s0 (s\<lparr>worker_ctxDone := b\<rparr>) = heap_steps E s0 s"
  by (simp_all add: heap_steps_def)

section \<open>Packets\<close>

lemma heap_bind_Send [heap_intros]:
  "heap_steps E s0 s \<Longrightarrow> heap_steps E s0 (res_state (bind_res (ref_Send E ref p s) (\<lambda>_ s1. Ok x s1)))"
  using heap_ops(1) [of E s0 s ref p] by (cases "ref_Send E ref p s") simp_all

lemma onAddTowInt_heap [heap_intros]:
  "heap_steps E s0 s \<Longrightarrow> heap_steps E s0 (res_state (onAddTowInt clock task s))"
  by (auto simp: onAddTowInt_def SetObject_def Let_def split: prod.split option.split)

lemma answer_assign_heap [heap_intros]:
  "heap_steps E s0 s \<Longrightarrow> heap_steps E s0 (res_state (answer_assign E ref seq k err s))"
  by (simp add: answer_assign_def Let_def heap_intros split: sum.split)

lemma run_task_heap:
  assumes "heap_steps E s0 s"
  shows "heap_steps E s0 (res_state (bind_res (dispatch_task clock task s)
    (\<lambda>err s2. answer_assign E ref seq k err s2)))"
proof -
  have "heap_steps E s0 (res_state (dispatch_task clock task s))"
    using assms by (simp add: dispatch_task_def heap_intros)
  then show ?thesis by (cases "dispatch_task clock task s") (simp_all add: heap_intros)
qed

lemma onAssignTask_heap: "heap_steps E s (res_state (onAssignTask E clock ref h req s))"
  using resolve_args_state [of "AssignTaskRequest_ArgsType req" 0 "AssignTaskRequest_Args req" s]
  by (cases "resolve_args (AssignTaskRequest_ArgsType req) 0 (AssignTaskRequest_Args req) s")
    (simp_all add: onAssignTask_def Let_def run_task_heap heap_refl)

lemma worker_OnPacket_heap: "heap_steps E s (res_state (worker_OnPacket E clock ref h m s))"
proof -
  have "heap_steps E s (res_state (onGetObjectData E ref req s))" for req
    by (simp add: onGetObjectData_def reply_dropping_def Let_def heap_refl heap_intros
        split: option.split sum.split)
  moreover have "heap_steps E s (res_state (onGetObjectLocationResp resp s))"
    "heap_steps E s (res_state (onGetObjectDataResp resp' s))" for resp resp'
    by (simp_all add: onGetObjectLocationResp_def onGetObjectDataResp_def Let_def heap_refl split: option.split)
  ultimately show ?thesis
    by (simp add: worker_OnPacket_def worker_onEstablish_def worker_onEstablishAck_def Let_def
        onAssignTask_heap heap_refl heap_intros split: option.split)
qed

text \<open>An executed task announces only what it has stored.\<close>

lemma onAddTowInt_data:
  "gcsConn (res_state (onAddTowInt clock task s)) = gcsConn s"
  "connAddrs (res_state (onAddTowInt clock task s)) = connAddrs s"
  "set (buf (registerObjectChan s)) \<subseteq> dom (objectStorage s) \<Longrightarrow>
    set (buf (registerObjectChan (res_state (onAddTowInt clock task s))))
      \<subseteq> dom (objectStorage (res_state (onAddTowInt clock task s)))"
  by (auto simp: onAddTowInt_def SetObject_def try_send_def Let_def split: prod.split if_splits)

lemma answer_assign_data [simp]: "worker_data (res_state (answer_assign E ref seq k err s)) = worker_data s"
proof -
  have "worker_data (res_state (bind_res (ref_Send E ref p s) (\<lambda>_ s1. Ok x s1))) = worker_data s"
    for p and x :: "go_error option"
    using worker_data_ops(1) [of E ref p s] by (cases "ref_Send E ref p s") simp_all
  then show ?thesis by (simp add: answer_assign_def Let_def split: sum.split)
qed

lemma run_task_data:
  "\<exists>t \<in> {s, res_state (dispatch_task clock task s)}.
    worker_data (res_state (bind_res (dispatch_task clock task s)
      (\<lambda>err s2. answer_assign E ref seq k err s2))) = worker_data t"
  by (cases "dispatch_task clock task s") simp_all

lemma onAssignTask_links:
  assumes links: "worker_links s"
  shows "worker_links (res_state (onAssignTask E clock ref h req s))"
proof -
  let ?t = "res_state (onAssignTask E clock ref h req s)"
  have nxt: "node_next s ?t" by (rule heap_steps_next [OF onAssignTask_heap])
  have ann: "set (buf (registerObjectChan s)) \<subseteq> dom (objectStorage s)"
    using links by (simp add: worker_links_def)
  have "\<exists>u \<in> {s} \<union> {res_state (onAddTowInt clock task s) | task. True}. worker_data ?t = worker_data u"
  proof (cases "resolve_args (AssignTaskRequest_ArgsType req) 0 (AssignTaskRequest_Args req) s")
    case (Ok args s1)
    then have s1: "s1 = s" by (rule resolve_args_OkD)
    show ?thesis
      using run_task_data [of s clock "\<lparr>ID = AssignTaskRequest_TaskId req, FuncName = AssignTaskRequest_FuncName req,
          Args = args, ArgsType = AssignTaskRequest_ArgsType req,
          Dependencies = AssignTaskRequest_Dependencies req\<rparr>" E ref "SeqId h" "AssignTaskRequest_TaskId req"]
        Ok unfolding s1 by (auto simp: onAssignTask_def Let_def dispatch_task_def split: if_splits)
  next
    case (Panic p s1)
    then show ?thesis
      using resolve_args_state [of "AssignTaskRequest_ArgsType req" 0 "AssignTaskRequest_Args req" s]
      by (auto simp: onAssignTask_def)
  next
    case (Block s1)
    then show ?thesis
      using resolve_args_state [of "AssignTaskRequest_ArgsType req" 0 "AssignTaskRequest_Args req" s]
      by (auto simp: onAssignTask_def)
  qed
  then obtain u where u: "u = s \<or> (\<exists>task. u = res_state (onAddTowInt clock task s))"
    and t: "worker_data ?t = worker_data u" by blast
  note same = worker_dataD [OF t]
  have "gcsConn u = gcsConn s" "connAddrs u = connAddrs s"
    "set (buf (registerObjectChan u)) \<subseteq> dom (objectStorage u)"
    using u ann onAddTowInt_data(1,2) onAddTowInt_data(3) [OF ann] by blast+
  then show ?thesis by (intro worker_links_next [OF links nxt]) (simp_all only: same, simp_all)
qed

lemma worker_data_gcsConn:
  "worker_data t = worker_data s \<Longrightarrow> worker_data (t\<lparr>gcsConn := g\<rparr>) = worker_data (s\<lparr>gcsConn := g\<rparr>)"
  by (simp add: worker_data_def)

lemma worker_onEstablish_links:
  assumes links: "worker_links s" and ref: "ref_alloc ref s"
  shows "worker_links (res_state (worker_onEstablish E ref h req s))"
proof -
  let ?t = "res_state (worker_onEstablish E ref h req s)"
  have nxt: "node_next s ?t"
    by (rule heap_steps_next [where E = E])
      (simp add: worker_onEstablish_def Let_def heap_refl heap_intros)
  have "worker_data ?t = worker_data s \<or> worker_data ?t = worker_data (s\<lparr>gcsConn := Some ref\<rparr>)"
    using worker_data_gcsConn [OF worker_data_ops(2) [of ref s]] by (simp add: worker_onEstablish_def Let_def)
  then show ?thesis
  proof
    assume "worker_data ?t = worker_data s"
    with worker_links_data [OF links nxt] show ?thesis by blast
  next
    assume "worker_data ?t = worker_data (s\<lparr>gcsConn := Some ref\<rparr>)"
    from worker_dataD [OF this] links ref show ?thesis
      by (intro worker_links_next [OF links nxt]) (auto simp: worker_links_def)
  qed
qed

text \<open>The other packets leave the worker's data alone: the channels they send on do not exist.\<close>

lemma worker_OnPacket_links:
  assumes inv: "worker_inv s" and links: "worker_links s" and ref: "ref_alloc ref s"
  shows "worker_links (res_state (worker_OnPacket E clock ref h m s))"
proof -
  have same: "worker_links t" if "heap_steps E s t" "worker_data t = worker_data s" for t
    using worker_links_data [OF links heap_steps_next [OF that(1)] that(2)] .
  have "worker_links (res_state (onGetObjectData E ref req s))" for req
  proof (rule same)
    show "heap_steps E s (res_state (onGetObjectData E ref req s))"
      by (simp add: onGetObjectData_def reply_dropping_def Let_def heap_refl heap_intros
          split: option.split sum.split)
    have "worker_data (res_state (bind_res (ref_Send E ref p s1) (\<lambda>_ s2. Ok x s2))) = worker_data s1"
      for p s1 and x :: "go_error option"
      using worker_data_ops(1) [of E ref p s1] by (cases "ref_Send E ref p s1") simp_all
    then show "worker_data (res_state (onGetObjectData E ref req s)) = worker_data s"
      by (simp add: onGetObjectData_def reply_dropping_def Let_def split: option.split sum.split)
  qed
  moreover have "res_state (onGetObjectLocationResp resp s) = s" "res_state (onGetObjectDataResp resp' s) = s"
    for resp resp'
    using inv by (simp_all add: onGetObjectLocationResp_def onGetObjectDataResp_def Let_def worker_inv_def)
  moreover have "worker_links (ref_NotifyEstablish ref s)"
    by (rule same) (simp_all add: heap_refl heap_intros)
  ultimately show ?thesis
    using links onAssignTask_links [OF links] worker_onEstablish_links [OF links ref]
    by (simp add: worker_OnPacket_def worker_onEstablishAck_def split: option.split)
qed

interpretation work_node: node_server E "worker_OnPacket E clock" worker_HandlePacket
    "\<lambda>s. worker_inv s \<and> worker_links s" for E clock
proof
  fix s ref h m
  show "heap_steps E s (res_state (worker_OnPacket E clock ref h m s))"
    "heap_steps E s (res_state (worker_HandlePacket ref h m s))"
    by (simp_all add: worker_OnPacket_heap worker_HandlePacket_def heap_refl)
  assume "worker_inv s \<and> worker_links s" "ref_alloc ref s"
  then show "worker_inv (res_state (worker_OnPacket E clock ref h m s))
      \<and> worker_links (res_state (worker_OnPacket E clock ref h m s))"
    "worker_inv (res_state (worker_HandlePacket ref h m s))
      \<and> worker_links (res_state (worker_HandlePacket ref h m s))"
    by (simp_all add: worker_OnPacket_inv worker_OnPacket_links worker_HandlePacket_def)
next
  fix s t :: worker
  assume st: "worker_inv s \<and> worker_links s" "node_next s t" "node_inv t" "node.more t = node.more s"
  show "worker_inv t \<and> worker_links t"
    using st worker_inv_data [OF _ worker_more [OF st(4)]] worker_links_data [OF _ st(2) worker_more [OF st(4)]]
    by blast
qed

section \<open>The worker's own events\<close>

lemma ref_Send_more [simp]: "node.more (res_state (ref_Send E ref p s)) = node.more s"
  by (cases ref) simp_all

lemma getRemoteObject_quiet:
  assumes none: "getObjectLocationChan s = (\<lambda>_. None)"
  shows "heap_steps E s (res_state (getRemoteObject E p1 p2 obj u1 u2 s))
    \<and> node.more (res_state (getRemoteObject E p1 p2 obj u1 u2 s)) = node.more s"
proof (cases "gcsConn s")
  case None
  then show ?thesis by (simp add: getRemoteObject_def heap_refl)
next
  case (Some ref)
  let ?s1 = "s\<lparr>nextID := nextID s + 1\<rparr>"
  let ?e = "EncodePayload E \<lparr>Uri = RayGetObjectLocation, SeqId = nextID s + 1\<rparr>
    (MGetObjectLocationRequest \<lparr>GetObjectLocationRequest_ObjectId = obj, GetObjectLocationRequest_Uuid = u1\<rparr>)"
  have s1: "heap_steps E s ?s1" by (simp add: heap_refl)
  show ?thesis
  proof (cases ?e)
    case (Inl err)
    then show ?thesis using Some s1 by (simp add: getRemoteObject_def Let_def)
  next
    case (Inr p)
    have "getObjectLocationChan (res_state (ref_Send E ref p ?s1)) = (\<lambda>_. None)"
      using worker_dataD(4) [OF worker_data_ops(1) [of E ref p ?s1]] none by simp
    then have r: "res_state (getRemoteObject E p1 p2 obj u1 u2 s) = res_state (ref_Send E ref p ?s1)"
      using Some Inr by (cases "ref_Send E ref p ?s1") (simp_all add: getRemoteObject_def Let_def)
    show ?thesis using heap_trans [OF s1 heap_ref_Send] unfolding r by simp
  qed
qed

lemma worker_conn_Establish_quiet:
  "heap_steps E s (res_state (worker_conn_Establish E a s))
    \<and> node.more (res_state (worker_conn_Establish E a s)) = node.more s"
proof -
  let ?s1 = "s\<lparr>nextID := nextID s + 1\<rparr>"
  obtain c where c: "(conn_step E)\<^sup>*\<^sup>* (inb ?s1 a) c"
    "res_state (worker_conn_Establish E a s) = set_inb a ?s1 c"
    unfolding worker_conn_Establish_def worker_conn_Send_def Let_def by (rule encode_and_send)
  have "heap_steps E s ?s1" by (simp add: heap_refl)
  from heap_trans [OF this heap_set_inb_steps [OF c(1)]] show ?thesis unfolding c(2) by simp
qed

text \<open>The report loop announces from the front of its queue and changes no other data.\<close>

lemma worker_Loop_round_quiet:
  obtains q where "heap_steps E s (res_state (worker_Loop_round E pick s))"
    and "worker_data (res_state (worker_Loop_round E pick s)) = worker_data (s\<lparr>registerObjectChan := q\<rparr>)"
    and "q = registerObjectChan s \<and> \<not> (pick \<and> buf (registerObjectChan s) \<noteq> [])
      \<or> (\<exists>obj. try_recv (registerObjectChan s) = Some (obj, q))"
proof -
  note result = that
  have same: thesis if "res_state (worker_Loop_round E pick s) = s" "\<not> (pick \<and> buf (registerObjectChan s) \<noteq> [])"
    using that(2) by (intro result [of "registerObjectChan s"]) (simp_all add: that(1) heap_refl)
  show thesis
  proof (cases "try_recv (registerObjectChan s)")
    case None
    moreover from None have "buf (registerObjectChan s) = []" by (simp only: chq.pop_None_iff)
    ultimately show thesis by (intro same) (simp_all add: worker_Loop_round_def)
  next
    case (Some r)
    then obtain obj ch where recv: "try_recv (registerObjectChan s) = Some (obj, ch)" by (cases r) auto
    show thesis
    proof (cases "worker_ctxDone s \<and> \<not> pick")
      case True
      then show thesis using recv by (intro same) (simp_all add: worker_Loop_round_def)
    next
      case False
      let ?s1 = "s\<lparr>registerObjectChan := ch, nextID := nextID s + 1\<rparr>"
      have s1: "heap_steps E s ?s1" by (simp add: heap_refl)
      have data: "worker_data ?s1 = worker_data (s\<lparr>registerObjectChan := ch\<rparr>)" by (simp add: worker_data_def)
      have "\<exists>ref p. res_state (worker_Loop_round E pick s) \<in> {?s1, res_state (ref_Send E ref p ?s1)}"
      proof -
        have "res_state (bind_res (ref_Send E ref p ?s1) (\<lambda>_ t. Ok True t)) = res_state (ref_Send E ref p ?s1)" for ref p
          by (cases "ref_Send E ref p ?s1") simp_all
        then show ?thesis
          using recv False by (auto simp: worker_Loop_round_def Let_def split: sum.split option.split)
      qed
      then have "heap_steps E s (res_state (worker_Loop_round E pick s))"
        "worker_data (res_state (worker_Loop_round E pick s)) = worker_data ?s1"
        using s1 heap_trans [OF s1 heap_ref_Send] worker_data_ops(1) by auto
      then show thesis using data recv by (intro result [of ch]) auto
    qed
  qed
qed

lemma node_inv_next:
  "heap_steps E s t \<Longrightarrow> node_good s \<Longrightarrow> node_good t \<and> node_next s t \<and> node_inv t"
  using heap_steps_good heap_steps_next by (auto simp: node_good_def)

text \<open>Filing one of its connections under the address of that connection.\<close>

lemma file_address:
  assumes good: "node_good u" and inv: "worker_inv u \<and> worker_links u" and ref: "ref_alloc ref u"
    and t: "t = u\<lparr>connAddrs := (connAddrs u)(ref_Remote ref u \<mapsto> ref)\<rparr>"
  shows "node_good t \<and> node_next u t \<and> worker_inv t \<and> worker_links t"
proof -
  have "ref_alloc r t = ref_alloc r u" "ref_Remote r t = ref_Remote r u" for r
    unfolding t by (cases r; simp)+
  then have "worker_inv t \<and> worker_links t"
    using inv ref unfolding worker_links_def by (auto simp: t worker_inv_def split: if_splits)
  moreover have "node_good t \<and> node_next u t"
    unfolding t by (rule node_good_fields [OF good]) simp_all
  ultimately show ?thesis by blast
qed

lemma worker_step_keeps:
  assumes "worker_step ops E clock s t" and good: "node_good s" and inv: "worker_inv s \<and> worker_links s"
  shows "node_good t \<and> node_next s t \<and> worker_inv t \<and> worker_links t"
proof -
  have data: ?thesis if "node_good t" "node_next s t" "worker_data t = worker_data s"
    using that inv worker_inv_data [of s t] worker_links_data [of s t] by (auto simp: node_good_def)
  have quiet: ?thesis if "heap_steps E s t" "node.more t = node.more s"
    using node_inv_next [OF that(1) good] worker_more [OF that(2)] data by blast
  have queue: ?thesis
    if "heap_steps E s t" "worker_data t = worker_data (s\<lparr>registerObjectChan := q\<rparr>)"
      "set (buf q) \<subseteq> set (buf (registerObjectChan s))" "length (buf q) \<le> chan_slots q" for q
  proof -
    note same = worker_dataD [OF that(2)] and nxt = node_inv_next [OF that(1) good]
    have "worker_inv t"
      using inv that(4) nxt unfolding worker_inv_def same by simp
    moreover have "worker_links t"
      using inv that(3) nxt same by (intro worker_links_next [of s t]) (auto simp: worker_links_def)
    ultimately show ?thesis using nxt by blast
  qed
  from assms(1) show ?thesis
  proof cases
    case work_node
    then show ?thesis using work_node.node_step_keeps [OF _ good inv] by blast
  next
    case (work_open g remote)
    let ?u = "snd (cm_OnOpen g remote s)" and ?r = "case remote of Some r \<Rightarrow> r | None \<Rightarrow> []"
    have u: "node_good ?u" "node_next s ?u" "node.more ?u = node.more s"
      using node_good_OnOpen [OF good, of g remote] by simp_all
    have t: "t = ?u\<lparr>connAddrs := (connAddrs ?u)(?r \<mapsto> InConn (fresh s))\<rparr>"
      unfolding work_open worker_OnOpen_def by (simp add: cm_OnOpen_def Let_def)
    have new: "ref_alloc (InConn (fresh s)) ?u" "ref_Remote (InConn (fresh s)) ?u = ?r"
      by (simp_all add: cm_OnOpen_def Let_def newConnection_def)
    have "node_inv ?u" using u(1) unfolding node_good_def by blast
    then have "worker_inv ?u \<and> worker_links ?u" using work_node.Inv_next [OF inv u(2)] u(3) by blast
    from file_address [OF u(1) this new(1), of t] new(2) t show ?thesis
      using node_next_trans [OF u(2)] by auto
  next
    case (work_tick keys)
    then show ?thesis
      using worker_beat.round_heap [of E s keys]
      by (intro quiet) (simp_all add: worker_Ontick_def node_Ontick_more)
  next
    case (work_establish a)
    then show ?thesis using quiet worker_conn_Establish_quiet by blast
  next
    case (work_report pick)
    obtain q where q: "heap_steps E s t" "worker_data t = worker_data (s\<lparr>registerObjectChan := q\<rparr>)"
      "q = registerObjectChan s \<and> \<not> (pick \<and> buf (registerObjectChan s) \<noteq> [])
        \<or> (\<exists>obj. try_recv (registerObjectChan s) = Some (obj, q))"
      unfolding work_report by (rule worker_Loop_round_quiet)
    have "set (buf q) \<subseteq> set (buf (registerObjectChan s))" "length (buf q) \<le> chan_slots q"
      using q(3) inv chq.pop_items [of "registerObjectChan s"] chq.pop_slots [of "registerObjectChan s"]
      by (auto simp: worker_inv_def)
    then show ?thesis using queue [OF q(1,2)] by blast
  next
    case (work_wait pick)
    have "heap_steps E s t" unfolding work_wait by (simp add: with_reports_def heap_refl)
    moreover have "worker_data t = worker_data (s\<lparr>registerObjectChan := park (registerObjectChan s)\<rparr>)"
      unfolding work_wait by (simp add: with_reports_def)
    ultimately show ?thesis
      using inv queue [of "park (registerObjectChan s)"]
      by (auto simp: park_def worker_inv_def chan_slots_def)
  next
    case work_wake
    let ?u = "with_reports unpark s"
    have u: "registerObjectChan ?u = unpark (registerObjectChan s)" "heap_steps E s ?u"
      by (simp_all add: with_reports_def heap_refl)
    obtain q where q: "heap_steps E ?u t" "worker_data t = worker_data (?u\<lparr>registerObjectChan := q\<rparr>)"
      "q = registerObjectChan ?u \<and> \<not> (True \<and> buf (registerObjectChan ?u) \<noteq> [])
        \<or> (\<exists>obj. try_recv (registerObjectChan ?u) = Some (obj, q))"
      unfolding work_wake by (rule worker_Loop_round_quiet)
    have b: "buf (unpark (registerObjectChan s)) = buf (registerObjectChan s)"
      "Suc (chan_slots (unpark (registerObjectChan s))) = chan_slots (registerObjectChan s)"
      using work_wake(3) by (simp_all add: unpark_def chan_slots_def)
    then obtain obj where obj: "try_recv (unpark (registerObjectChan s)) = Some (obj, q)"
      using q(3) work_wake(2) by (auto simp: u)
    have "worker_data t = worker_data (s\<lparr>registerObjectChan := q\<rparr>)"
      using q(2) by (simp add: with_reports_def)
    moreover have "set (buf q) \<subseteq> set (buf (registerObjectChan s))" "length (buf q) \<le> chan_slots q"
      using chq.pop_items [OF obj] chq.pop_slots [OF obj] b inv by (auto simp: worker_inv_def)
    ultimately show ?thesis using queue [OF heap_trans [OF u(2) q(1)]] by blast
  next
    case work_leave
    have "heap_steps E s t" unfolding work_leave by (simp add: with_reports_def heap_refl)
    moreover have "worker_data t = worker_data (s\<lparr>registerObjectChan := unpark (registerObjectChan s)\<rparr>)"
      unfolding work_leave by (simp add: with_reports_def)
    ultimately show ?thesis
      using work_leave(2) queue [of "unpark (registerObjectChan s)"] by (simp add: unpark_def)
  next
    case (work_fetch pick1 pick2 objectID u1 u2)
    have "getObjectLocationChan s = (\<lambda>_. None)" using inv by (simp add: worker_inv_def)
    from getRemoteObject_quiet [OF this] work_fetch show ?thesis using quiet by blast
  next
    case work_ctx
    have "node_good t \<and> node_next s t"
      unfolding work_ctx by (rule node_good_fields [OF good]) simp_all
    moreover have "worker_inv t" using inv unfolding work_ctx worker_inv_def by (auto simp: node_inv_def)
    moreover have "ref_alloc ref t = ref_alloc ref s" "ref_Remote ref t = ref_Remote ref s" for ref
      unfolding work_ctx by (cases ref; simp)+
    ultimately show ?thesis using inv by (auto simp: worker_links_def work_ctx)
  next
    case (work_conn_loop a timeout d)
    show ?thesis
    proof (cases timeout)
      case True
      then have "t = s" using work_conn_loop(2) by (simp add: worker_conn_Loop_def)
      then show ?thesis using good inv by simp
    next
      case False
      then obtain ch where ch: "try_recv (establishChan (inb s a)) = Some ((), ch)"
        using work_conn_loop(2) by (auto simp: worker_conn_Loop_def split: option.splits)
      define s1 where "s1 = set_inb a s ((inb s a)\<lparr>establishChan := ch, established := True\<rparr>)"
      let ?u = "s1\<lparr>conns := (conns s1)(KUint64 (conn_id (inb s1 a)) := Some a)\<rparr>"
      have t: "t = ?u\<lparr>connAddrs := (connAddrs ?u)(ref_Remote (InConn a) ?u \<mapsto> InConn a)\<rparr>"
        using work_conn_loop(2) False ch by (auto simp: worker_conn_Loop_def Let_def s1_def)
      have u: "node_good ?u" "node_next s ?u"
        using node_good_token [OF good work_conn_loop(1) ch s1_def] by blast+
      have "node.more ?u = node.more s" unfolding s1_def by (simp add: set_inb_def)
      moreover have "node_inv ?u" using u(1) unfolding node_good_def by blast
      ultimately have "worker_inv ?u \<and> worker_links ?u" using work_node.Inv_next [OF inv u(2)] by blast
      moreover have "ref_alloc (InConn a) ?u" using work_conn_loop(1) by (simp add: s1_def)
      ultimately show ?thesis using file_address [OF u(1) _ _ t] node_next_trans [OF u(2)] by blast
    qed
  qed
qed

interpretation work_sys: step_invariant "worker_step ops E clock"
    "\<lambda>s. node_good s \<and> worker_inv s \<and> worker_links s" for ops E clock
  by unfold_locales (use worker_step_keeps in blast)

section \<open>Properties\<close>

lemma NewWorker_start:
  assumes "NewWorker listen advertise opts = Some s"
  shows "node_good s \<and> worker_inv s \<and> worker_links s"
proof -
  have "node_inv s" using assms by (auto simp: NewWorker_def node_inv_def split: if_splits)
  then show ?thesis
    using assms
    by (auto simp: NewWorker_def node_good_def worker_inv_def worker_links_def client_good_new split: if_splits)
qed

text \<open>
  C26. Every reachable state of the worker is well-formed, whatever packets, tasks, timers and
  transports do, in any order, from \<^verbatim>\<open>NewWorker\<close> on. Its invariant holds; every object id it is
  about to announce is one it stores; every stored object is an eight byte integer; the GCS
  connection it reports to and the connections it files by address are its own; every connection
  has written a sequence of complete frames; and every dialling connection is in a state from which
  its loop does not panic.
\<close>

theorem worker_reach_inv:
  assumes "NewWorker listen advertise opts = Some s0" and "(worker_step ops E clock)\<^sup>*\<^sup>* s0 s"
  shows "worker_inv s
    \<and> (obj \<in> set (buf (registerObjectChan s)) \<longrightarrow>
        (\<exists>object. GetObject obj s = Some object \<and> ObjType object = ObjectTypeInt \<and> length (ObjData object) = 8))
    \<and> (gcsConn s = Some ref \<longrightarrow> ref_alloc ref s)
    \<and> (connAddrs s addr = Some ref \<longrightarrow> ref_alloc ref s \<and> ref_Remote ref s = addr)
    \<and> framed (ref_stream ref s)
    \<and> (dials a s \<longrightarrow> client_inv (outb s a))"
proof -
  have s: "node_good s \<and> worker_inv s \<and> worker_links s"
    by (rule work_sys.reach_inv [OF assms(2) NewWorker_start [OF assms(1)]])
  have "\<exists>object. GetObject obj s = Some object \<and> ObjType object = ObjectTypeInt \<and> length (ObjData object) = 8"
    if "obj \<in> set (buf (registerObjectChan s))"
    using s that unfolding worker_links_def worker_inv_def GetObject_def by blast
  moreover have "framed (ref_stream ref s)"
    using s by (cases ref) (simp_all add: node_good_def conn_good_def client_good_def)
  moreover have "dials a s \<longrightarrow> client_inv (outb s a)"
    using s by (simp add: node_good_def client_good_def dials_def)
  ultimately show ?thesis using s unfolding worker_links_def by blast
qed

definition open_worker :: worker where
  "open_worker = snd (worker_OnOpen 3 (Some ''s:7'') (the (NewWorker [] [] [])))"

lemma worker_reach_inv_witness:
  "worker_inv open_worker \<and> connAddrs open_worker ''s:7'' = Some (InConn 0)
    \<and> ref_Remote (InConn 0) open_worker = ''s:7''"
proof -
  note defs = NewWorker_def apply_options_def zero_options_def
  have start: "NewWorker [] [] [] = Some (the (NewWorker [] [] []))" by (simp add: defs)
  have "(worker_step buf_ops (table_env []) (\<lambda>_. 0))\<^sup>*\<^sup>* (the (NewWorker [] [] [])) open_worker"
    unfolding open_worker_def by (rule r_into_rtranclp) (rule work_open)
  from worker_reach_inv [OF start this, of _ "InConn 0" "''s:7''"]
  have "worker_inv open_worker" "connAddrs open_worker ''s:7'' = Some (InConn 0) \<longrightarrow>
      ref_Remote (InConn 0) open_worker = ''s:7''" by blast+
  moreover have "connAddrs open_worker ''s:7'' = Some (InConn 0)"
    by (simp add: open_worker_def worker_OnOpen_def cm_OnOpen_def Let_def defs)
  ultimately show ?thesis by blast
qed

end
