(* ===== verification/Exit.thy ===== *)
theory Exit
  imports ClientConn
begin

text \<open>
  The life of the process outside its servers: the global gnet client and its start,
  \<^verbatim>\<open>common/eventHandler.go\<close>, and the exit handlers, \<^verbatim>\<open>common/safe_exit.go\<close>. The list of
  handlers is guarded by a lock, so a registration and a round of calls do not interleave.
  What an engine or a client of gnet does when it is stopped is third-party: a stop is an
  \<open>exit_call\<close> in a trace.
\<close>

section \<open>Exit handlers\<close>

datatype signal = SIGHUP | SIGINT | SIGTERM | OtherSignal nat

text \<open>A \<^verbatim>\<open>Handler\<close> is its method \<^verbatim>\<open>SafeExit\<close>, which acts on a state \<open>'p\<close> of the process.\<close>

type_synonym 'p exit_handler = "signal \<Rightarrow> 'p \<Rightarrow> (unit, 'p) res"

definition RegisterHandler :: "'p exit_handler option \<Rightarrow> 'p exit_handler list \<Rightarrow> 'p exit_handler list" where
  "RegisterHandler h handlers = (case h of None \<Rightarrow> handlers | Some f \<Rightarrow> handlers @ [f])"

fun callHandlers :: "signal \<Rightarrow> 'p exit_handler list \<Rightarrow> 'p \<Rightarrow> (unit, 'p) res" where
  "callHandlers s [] p = Ok () p"
| "callHandlers s (h # handlers) p = bind_res (h s p) (\<lambda>_ p1. callHandlers s handlers p1)"

text \<open>
  \<open>arrived\<close> are the signals the process gets while it waits, oldest first; \<^verbatim>\<open>signal.Notify\<close>
  relays those of its list, and all of them for an empty list. \<open>pick\<close> decides for the context when
  both cases of the \<^verbatim>\<open>select\<close> are ready.
\<close>

definition relayed :: "signal list \<Rightarrow> signal list \<Rightarrow> signal list" where
  "relayed signals arrived = filter (\<lambda>s. signals = [] \<or> s \<in> set signals) arrived"

definition RegisterSignal ::
  "bool \<Rightarrow> bool \<Rightarrow> signal list \<Rightarrow> signal list \<Rightarrow> 'p exit_handler list \<Rightarrow> 'p \<Rightarrow> (unit, 'p) res" where
  "RegisterSignal ctx_done pick signals arrived handlers p =
    (case relayed signals arrived of
       [] \<Rightarrow> if ctx_done then callHandlers SIGHUP handlers p else Block p
     | s # _ \<Rightarrow> if ctx_done \<and> pick then callHandlers SIGHUP handlers p else callHandlers s handlers p)"

section \<open>The global client\<close>

datatype exit_call = StopEngine "nat option" | StopClient nat

text \<open>\<open>eh_eng\<close> is the engine that \<^verbatim>\<open>OnBoot\<close> stored, if any; \<open>gcli\<close> the client, nil before \<^verbatim>\<open>init\<close>.\<close>

record gnet_client =
  eh_eng :: "nat option"
  gcli :: "nat option"
  stops :: "exit_call list"

definition eventHandler_OnBoot :: "nat \<Rightarrow> gnet_client \<Rightarrow> gnet_client" where
  "eventHandler_OnBoot eng g = g\<lparr>eh_eng := Some eng\<rparr>"

text \<open>The errors of both stops are dropped.\<close>

definition eventHandler_SafeExit :: "gnet_client exit_handler" where
  "eventHandler_SafeExit s g =
    (let g1 = g\<lparr>stops := stops g @ [StopEngine (eh_eng g)]\<rparr> in
     case gcli g1 of
       None \<Rightarrow> Panic NilDeref g1
     | Some c \<Rightarrow> Ok () (g1\<lparr>stops := stops g1 @ [StopClient c]\<rparr>))"

text \<open>
  \<^verbatim>\<open>init\<close>: \<open>made\<close> is what \<^verbatim>\<open>gnet.NewClient\<close> returned, \<open>started\<close> the error of its \<^verbatim>\<open>Start\<close>,
  during which gnet calls \<^verbatim>\<open>OnBoot\<close> with the engine \<open>boot\<close>, if it does.
\<close>

definition common_init ::
  "go_error + nat \<Rightarrow> go_error option \<Rightarrow> nat option \<Rightarrow> gnet_client exit_handler list \<Rightarrow> gnet_client
     \<Rightarrow> (gnet_client exit_handler list, gnet_client) res" where
  "common_init made start_err boot handlers g =
    (case made of
       Inl err \<Rightarrow> Panic PanicCall g
     | Inr c \<Rightarrow>
         let g1 = g\<lparr>gcli := Some c\<rparr>;
             g2 = (case boot of None \<Rightarrow> g1 | Some eng \<Rightarrow> eventHandler_OnBoot eng g1)
         in if start_err \<noteq> None then Panic PanicCall g2
            else Ok (RegisterHandler (Some eventHandler_SafeExit) handlers) g2)"

text \<open>
  \<^verbatim>\<open>DialWithTimeout\<close>: \<open>net_dial\<close> and \<open>enroll\<close> are \<^verbatim>\<open>net.DialTimeout\<close> and \<^verbatim>\<open>EnrollContext\<close>.
  Its result is what \<open>dialOnce\<close> works on.
\<close>

definition DialWithTimeout ::
  "(string \<Rightarrow> int \<Rightarrow> go_error + nat) \<Rightarrow> (nat \<Rightarrow> go_error + nat) \<Rightarrow> string \<Rightarrow> int \<Rightarrow> go_error + nat" where
  "DialWithTimeout net_dial enroll endpoint timeout =
    (case net_dial endpoint timeout of Inl err \<Rightarrow> Inl err | Inr conn \<Rightarrow> enroll conn)"

section \<open>Properties\<close>

lemma fold_RegisterHandler:
  "fold RegisterHandler hs handlers = handlers @ List.map_filter (\<lambda>h. h) hs"
  by (induction hs arbitrary: handlers)
    (simp_all add: RegisterHandler_def map_filter_simps split: option.split)

lemma callHandlers_total:
  "callHandlers s (map (\<lambda>n s p. Ok () (act n s p)) ns) p = Ok () (fold (\<lambda>n. act n s) ns p)"
  by (induction ns arbitrary: p) simp_all

lemma map_filter_map_option:
  "List.map_filter (\<lambda>h. h) (map (map_option f) ns) = map f (List.map_filter (\<lambda>n. n) ns)"
  by (induction ns) (simp_all add: map_filter_simps split: option.split)

text \<open>
  The exit handlers run once each, in the order of their registration, nil ones left out: on the
  first signal of the list that arrives, with that signal, or with SIGHUP when the context ends
  first; and until one of the two happens the call waits and no handler runs.
\<close>

theorem exit_handlers_in_order:
  shows "let hs = fold RegisterHandler (map (map_option (\<lambda>n s p. Ok () (act n s p))) names) [];
             ns = List.map_filter (\<lambda>n. n) names
    in RegisterSignal ctx_done pick signals arrived hs p =
      (if ctx_done \<and> (relayed signals arrived = [] \<or> pick) then Ok () (fold (\<lambda>n. act n SIGHUP) ns p)
       else if relayed signals arrived = [] then Block p
       else Ok () (fold (\<lambda>n. act n (hd (relayed signals arrived))) ns p))"
  by (simp add: RegisterSignal_def fold_RegisterHandler map_filter_map_option callHandlers_total Let_def
      split: list.split)

text \<open>
  C40. What the process stops when it exits. After a successful start of the package the one registered
  handler is the global client's: a signal stops the client's engine and then the client, once each,
  and nothing else; no server's engine is among them. If the client cannot be made or started the
  package panics before anything is registered.
\<close>

theorem exit_stops_the_client_only:
  assumes "common_init made start_err boot [] g = r"
  shows "(made = Inr c \<and> start_err = None \<longrightarrow>
      (\<exists>hs g'. r = Ok hs g' \<and> (relayed signals arrived \<noteq> [] \<longrightarrow>
        (\<exists>g''. RegisterSignal False pick signals arrived hs g' = Ok () g''
          \<and> stops g'' = stops g @ [StopEngine (if boot = None then eh_eng g else boot), StopClient c])))
      )
    \<and> ((\<exists>err. made = Inl err) \<or> start_err \<noteq> None \<longrightarrow> (\<exists>g'. r = Panic PanicCall g' \<and> stops g' = stops g))"
  using assms
  by (auto simp: common_init_def RegisterHandler_def RegisterSignal_def eventHandler_SafeExit_def
      eventHandler_OnBoot_def Let_def neq_Nil_conv split: sum.splits option.splits)

lemma exit_stops_the_client_only_witness:
  "\<exists>hs g' g''. common_init (Inr 5) None (Some 2) [] \<lparr>eh_eng = None, gcli = None, stops = []\<rparr> = Ok hs g'
    \<and> RegisterSignal False False [SIGINT, SIGTERM] [SIGTERM] hs g' = Ok () g''
    \<and> stops g'' = [StopEngine (Some 2), StopClient 5]"
proof -
  let ?g = "\<lparr>eh_eng = None, gcli = None, stops = []\<rparr>"
  from exit_stops_the_client_only [where made = "Inr 5" and start_err = None and boot = "Some 2" and g = ?g
      and c = 5 and signals = "[SIGINT, SIGTERM]" and arrived = "[SIGTERM]" and pick = False, OF refl]
  show ?thesis by (auto simp: relayed_def)
qed

end
