(* ===== verification/Programs.thy ===== *)
theory Programs
  imports Exit SchedulerSteps
begin

text \<open>
  The four command line programs, \<^verbatim>\<open>core/*/main/main.go\<close>: their logger, and their \<^verbatim>\<open>execute\<close>
  with its wait for a signal. The files are copies of one text and differ in their name and in the
  constructor they call. The command line library is third-party: what it does with the arguments
  is a parameter, and as the programs register no flag the variables keep their zero values.
\<close>

section \<open>The logger\<close>

text \<open>The part of a zap configuration that the program reads or sets; levels are numbers.\<close>

record zap_config =
  EncodeTime :: string
  cfg_Level :: int

record lumberjack =
  Filename :: string
  MaxSize :: int
  MaxAge :: int
  MaxBackups :: int
  LocalTime :: bool
  Compress :: bool

datatype log_core = StdoutCore zap_config int | FileCore zap_config lumberjack int

definition InfoLevel :: int where "InfoLevel = 0"

text \<open>\<open>dev_cfg\<close> and \<open>prod_cfg\<close> are zap's development and production configurations.\<close>

definition initLog ::
  "zap_config \<Rightarrow> zap_config \<Rightarrow> string \<Rightarrow> int \<Rightarrow> int \<Rightarrow> bool \<Rightarrow> log_core list" where
  "initLog dev_cfg prod_cfg path maxAge maxBackups debugEnable =
    (let lcfg = (if debugEnable then dev_cfg else prod_cfg\<lparr>EncodeTime := ''ISO8601''\<rparr>);
         cores = [StdoutCore lcfg InfoLevel]
     in if 0 < length path then
          let l = \<lparr>Filename = path, MaxSize = 50, MaxAge = maxAge, MaxBackups = 0, LocalTime = True,
                   Compress = True\<rparr>;
              l1 = (if maxBackups \<noteq> 0 then l\<lparr>MaxBackups := maxBackups\<rparr> else l)
          in cores @ [FileCore lcfg l1 (cfg_Level lcfg)]
        else cores)"

text \<open>The other programs have their own copies.\<close>

definition worker_initLog ::
  "zap_config \<Rightarrow> zap_config \<Rightarrow> string \<Rightarrow> int \<Rightarrow> int \<Rightarrow> bool \<Rightarrow> log_core list" where
  "worker_initLog dev_cfg prod_cfg path maxAge maxBackups debugEnable =
    (let lcfg = (if debugEnable then dev_cfg else prod_cfg\<lparr>EncodeTime := ''ISO8601''\<rparr>);
         cores = [StdoutCore lcfg InfoLevel]
     in if 0 < length path then
          let l = \<lparr>Filename = path, MaxSize = 50, MaxAge = maxAge, MaxBackups = 0, LocalTime = True,
                   Compress = True\<rparr>;
              l1 = (if maxBackups \<noteq> 0 then l\<lparr>MaxBackups := maxBackups\<rparr> else l)
          in cores @ [FileCore lcfg l1 (cfg_Level lcfg)]
        else cores)"

definition scheduler_initLog ::
  "zap_config \<Rightarrow> zap_config \<Rightarrow> string \<Rightarrow> int \<Rightarrow> int \<Rightarrow> bool \<Rightarrow> log_core list" where
  "scheduler_initLog dev_cfg prod_cfg path maxAge maxBackups debugEnable =
    (let lcfg = (if debugEnable then dev_cfg else prod_cfg\<lparr>EncodeTime := ''ISO8601''\<rparr>);
         cores = [StdoutCore lcfg InfoLevel]
     in if 0 < length path then
          let l = \<lparr>Filename = path, MaxSize = 50, MaxAge = maxAge, MaxBackups = 0, LocalTime = True,
                   Compress = True\<rparr>;
              l1 = (if maxBackups \<noteq> 0 then l\<lparr>MaxBackups := maxBackups\<rparr> else l)
          in cores @ [FileCore lcfg l1 (cfg_Level lcfg)]
        else cores)"

definition driver_initLog ::
  "zap_config \<Rightarrow> zap_config \<Rightarrow> string \<Rightarrow> int \<Rightarrow> int \<Rightarrow> bool \<Rightarrow> log_core list" where
  "driver_initLog dev_cfg prod_cfg path maxAge maxBackups debugEnable =
    (let lcfg = (if debugEnable then dev_cfg else prod_cfg\<lparr>EncodeTime := ''ISO8601''\<rparr>);
         cores = [StdoutCore lcfg InfoLevel]
     in if 0 < length path then
          let l = \<lparr>Filename = path, MaxSize = 50, MaxAge = maxAge, MaxBackups = 0, LocalTime = True,
                   Compress = True\<rparr>;
              l1 = (if maxBackups \<noteq> 0 then l\<lparr>MaxBackups := maxBackups\<rparr> else l)
          in cores @ [FileCore lcfg l1 (cfg_Level lcfg)]
        else cores)"

lemma initLog_copies:
  "worker_initLog = initLog" "scheduler_initLog = initLog" "driver_initLog = initLog"
  by (simp_all add: fun_eq_iff initLog_def worker_initLog_def scheduler_initLog_def driver_initLog_def)

text \<open>
  With a path the log goes to the file too: a rotated file of 50 megabytes, at the level of the
  configuration, while standard output is always at level info.
\<close>

lemma initLog_cores:
  "initLog dcfg pcfg path age backups debug =
    StdoutCore (if debug then dcfg else pcfg\<lparr>EncodeTime := ''ISO8601''\<rparr>) InfoLevel #
    (if path = [] then [] else
      [FileCore (if debug then dcfg else pcfg\<lparr>EncodeTime := ''ISO8601''\<rparr>)
        \<lparr>Filename = path, MaxSize = 50, MaxAge = age, MaxBackups = backups, LocalTime = True, Compress = True\<rparr>
        (cfg_Level (if debug then dcfg else pcfg))])"
  by (simp add: initLog_def Let_def)

section \<open>Running a program\<close>

record flags =
  logPath :: string
  logMaxAge :: int
  logMaxBackups :: int
  debugEnabled :: bool
  pprofEnabled :: bool
  pprofListenAddr :: string
  flag_advertiseAddr :: string
  flag_listenAddr :: string
  metricsEnabled :: bool
  flag_maxConnections :: int

text \<open>Each program declares the same variables.\<close>

type_synonym worker_flags = flags
type_synonym driver_flags = flags
type_synonym scheduler_flags = flags

definition flag_defaults :: flags where
  "flag_defaults = \<lparr>logPath = [], logMaxAge = 0, logMaxBackups = 0, debugEnabled = False,
     pprofEnabled = False, pprofListenAddr = [], flag_advertiseAddr = [], flag_listenAddr = [],
     metricsEnabled = False, flag_maxConnections = 0\<rparr>"

text \<open>
  What a constructor does: it makes a server, panics, or does not return. \<open>Serving s\<close>: the server
  \<open>s\<close> is started and the program waits in \<^verbatim>\<open>RegisterSignal\<close>.
\<close>

datatype 's made = Made 's | MakePanics | MakeDiverges

datatype 's phase = Exited | Crashed | Diverges | Serving 's

datatype pool_task = PprofServer string | ServerLoop

record 's program =
  logger :: "log_core list"
  phase :: "'s phase"
  logged :: "string list"
  submitted_tasks :: "pool_task list"

text \<open>\<open>log\<close> is the program's \<^verbatim>\<open>initLog\<close>, \<open>pool_err\<close> the error of \<^verbatim>\<open>ants.NewPool\<close>; \<open>new\<close> and \<open>start\<close> are the server's.\<close>

definition execute ::
  "(string \<Rightarrow> int \<Rightarrow> int \<Rightarrow> bool \<Rightarrow> log_core list) \<Rightarrow> string \<Rightarrow> (string \<Rightarrow> string \<Rightarrow> option_fun list \<Rightarrow> 's made) \<Rightarrow> ('s \<Rightarrow> 's)
     \<Rightarrow> flags \<Rightarrow> go_error option \<Rightarrow> 's program" where
  "execute log name new start F pool_err =
    (let lg = log (logPath F) (logMaxAge F) (logMaxBackups F) (debugEnabled F);
         started_log = [''--__V__-- '' @ name @ '' starting''] in
     if pool_err \<noteq> None then
       \<lparr>logger = lg, phase = Exited, logged = started_log @ [''Failed to create worker pool''],
        submitted_tasks = []\<rparr>
     else
       let ts = (if pprofEnabled F then [PprofServer (pprofListenAddr F)] else []) in
       if length (flag_advertiseAddr F) = 0 \<or> length (flag_listenAddr F) = 0 then
         \<lparr>logger = lg, phase = Exited, logged = started_log @ [''Failed to get addr''], submitted_tasks = ts\<rparr>
       else
         case new (flag_listenAddr F) (flag_advertiseAddr F) [WithMaxConnections (flag_maxConnections F)] of
           Made s \<Rightarrow> \<lparr>logger = lg, phase = Serving (start s), logged = started_log, submitted_tasks = ts @ [ServerLoop]\<rparr>
         | MakePanics \<Rightarrow> \<lparr>logger = lg, phase = Crashed, logged = started_log, submitted_tasks = ts\<rparr>
         | MakeDiverges \<Rightarrow> \<lparr>logger = lg, phase = Diverges, logged = started_log, submitted_tasks = ts\<rparr>)"

definition gcs_execute :: "zap_config \<Rightarrow> zap_config \<Rightarrow> flags \<Rightarrow> go_error option \<Rightarrow> gcs program" where
  "gcs_execute dev_cfg prod_cfg F pool_err =
     execute (initLog dev_cfg prod_cfg) ''gcs'' (\<lambda>l a opts. Made (NewGCS l a opts)) gcs_Start F pool_err"

definition worker_execute :: "zap_config \<Rightarrow> zap_config \<Rightarrow> worker_flags \<Rightarrow> go_error option \<Rightarrow> worker program" where
  "worker_execute dev_cfg prod_cfg F pool_err =
     execute (worker_initLog dev_cfg prod_cfg) ''worker''
       (\<lambda>l a opts. case NewWorker l a opts of Some w \<Rightarrow> Made w | None \<Rightarrow> MakePanics) worker_Start F pool_err"

definition driver_execute :: "zap_config \<Rightarrow> zap_config \<Rightarrow> driver_flags \<Rightarrow> go_error option \<Rightarrow> driver program" where
  "driver_execute dev_cfg prod_cfg F pool_err =
     execute (driver_initLog dev_cfg prod_cfg) ''driver''
       (\<lambda>l a opts. case NewDriver l a opts of Some d \<Rightarrow> Made d | None \<Rightarrow> MakeDiverges) driver_Start F pool_err"

text \<open>The scheduler's program constructs a driver.\<close>

definition scheduler_execute :: "zap_config \<Rightarrow> zap_config \<Rightarrow> scheduler_flags \<Rightarrow> go_error option \<Rightarrow> driver program" where
  "scheduler_execute dev_cfg prod_cfg F pool_err =
     execute (scheduler_initLog dev_cfg prod_cfg) ''scheduler''
       (\<lambda>l a opts. case NewDriver l a opts of Some d \<Rightarrow> Made d | None \<Rightarrow> MakeDiverges) driver_Start F pool_err"

text \<open>
  The end of \<^verbatim>\<open>execute\<close>: a program that serves waits for SIGINT or SIGTERM, runs the exit handlers,
  says goodbye and returns. The context it passes is never done before.
\<close>

definition await_signal ::
  "bool \<Rightarrow> signal list \<Rightarrow> gnet_client exit_handler list \<Rightarrow> gnet_client \<Rightarrow> 's program
     \<Rightarrow> ('s program, gnet_client) res" where
  "await_signal pick arrived handlers g pg =
    (case phase pg of
       Serving s \<Rightarrow>
         bind_res (RegisterSignal False pick [SIGINT, SIGTERM] arrived handlers g)
           (\<lambda>_ g1. Ok (pg\<lparr>phase := Exited, logged := logged pg @ [''Goodbye'']\<rparr>) g1)
     | _ \<Rightarrow> Ok pg g)"

text \<open>
  \<^verbatim>\<open>main\<close>: \<open>cobra\<close> is what the command line library makes of the arguments: it runs the command,
  prints a help text, or reports an error. The exit status is \<open>None\<close> while the program runs on.
\<close>

datatype cobra_result = RunsCommand | PrintsHelp | CobraError

definition main_program ::
  "('a \<Rightarrow> cobra_result) \<Rightarrow> 'a \<Rightarrow> 's program \<Rightarrow> int option \<times> 's program option" where
  "main_program cobra args pg =
    (case cobra args of
       CobraError \<Rightarrow> (Some 1, None)
     | PrintsHelp \<Rightarrow> (Some 0, None)
     | RunsCommand \<Rightarrow>
         (case phase pg of
            Exited \<Rightarrow> (Some 0, Some pg)
          | Crashed \<Rightarrow> (Some 2, Some pg)
          | _ \<Rightarrow> (None, Some pg)))"

text \<open>The four programs as they are started: no flag is registered, so the variables have their zero values.\<close>

definition gcs_main :: "zap_config \<Rightarrow> zap_config \<Rightarrow> ('a \<Rightarrow> cobra_result) \<Rightarrow> 'a \<Rightarrow> go_error option \<Rightarrow> int option \<times> gcs program option" where
  "gcs_main dev_cfg prod_cfg cobra args pool_err =
     main_program cobra args (gcs_execute dev_cfg prod_cfg flag_defaults pool_err)"

definition worker_main :: "zap_config \<Rightarrow> zap_config \<Rightarrow> ('a \<Rightarrow> cobra_result) \<Rightarrow> 'a \<Rightarrow> go_error option \<Rightarrow> int option \<times> worker program option" where
  "worker_main dev_cfg prod_cfg cobra args pool_err =
     main_program cobra args (worker_execute dev_cfg prod_cfg flag_defaults pool_err)"

definition driver_main :: "zap_config \<Rightarrow> zap_config \<Rightarrow> ('a \<Rightarrow> cobra_result) \<Rightarrow> 'a \<Rightarrow> go_error option \<Rightarrow> int option \<times> driver program option" where
  "driver_main dev_cfg prod_cfg cobra args pool_err =
     main_program cobra args (driver_execute dev_cfg prod_cfg flag_defaults pool_err)"

definition scheduler_main :: "zap_config \<Rightarrow> zap_config \<Rightarrow> ('a \<Rightarrow> cobra_result) \<Rightarrow> 'a \<Rightarrow> go_error option \<Rightarrow> int option \<times> driver program option" where
  "scheduler_main dev_cfg prod_cfg cobra args pool_err =
     main_program cobra args (scheduler_execute dev_cfg prod_cfg flag_defaults pool_err)"

section \<open>Properties\<close>

lemma execute_stops:
  assumes "pool_err \<noteq> None \<or> flag_advertiseAddr F = [] \<or> flag_listenAddr F = []"
  shows "phase (execute log name new boot F pool_err) = Exited"
    and "ServerLoop \<notin> set (submitted_tasks (execute log name new boot F pool_err))"
  using assms by (auto simp: execute_def Let_def)

text \<open>Whatever the command line is, each program ends: with status 1 if cobra rejects it, else with 0.\<close>

lemma mains_end:
  "fst (gcs_main dcfg pcfg cobra args pool_err) = Some (if cobra args = CobraError then 1 else 0)"
  "fst (worker_main dcfg pcfg cobra args pool_err) = Some (if cobra args = CobraError then 1 else 0)"
  "fst (driver_main dcfg pcfg cobra args pool_err) = Some (if cobra args = CobraError then 1 else 0)"
  "fst (scheduler_main dcfg pcfg cobra args pool_err) = Some (if cobra args = CobraError then 1 else 0)"
proof -
  have ends: "fst (main_program cobra args pg) = Some (if cobra args = CobraError then 1 else 0)"
    if "phase pg = Exited" for pg :: "'s program"
    using that by (simp add: main_program_def split: cobra_result.split)
  have stops: "phase (execute log name new boot flag_defaults pool_err) = Exited" for log name new boot
    by (rule execute_stops(1)) (simp add: flag_defaults_def)
  note defs = gcs_main_def worker_main_def driver_main_def scheduler_main_def gcs_execute_def
    worker_execute_def driver_execute_def scheduler_execute_def
  show "fst (gcs_main dcfg pcfg cobra args pool_err) = Some (if cobra args = CobraError then 1 else 0)"
    "fst (worker_main dcfg pcfg cobra args pool_err) = Some (if cobra args = CobraError then 1 else 0)"
    "fst (driver_main dcfg pcfg cobra args pool_err) = Some (if cobra args = CobraError then 1 else 0)"
    "fst (scheduler_main dcfg pcfg cobra args pool_err) = Some (if cobra args = CobraError then 1 else 0)"
    unfolding defs by (rule ends, rule stops)+
qed

lemma execute_serves:
  assumes "flag_advertiseAddr F \<noteq> []" "flag_listenAddr F \<noteq> []"
    and "new (flag_listenAddr F) (flag_advertiseAddr F) [WithMaxConnections (flag_maxConnections F)] = Made s"
  shows "phase (execute log name new boot F None) = Serving (boot s)"
    and "ServerLoop \<in> set (submitted_tasks (execute log name new boot F None))"
  using assms by (simp_all add: execute_def Let_def)

text \<open>
  A program that serves ends with the first SIGINT or SIGTERM and not before: the global client is
  stopped, no engine of a server is, and whatever other signals arrive change nothing.
\<close>

lemma await_signal_ends:
  assumes "common_init (Inr c) None boot [] g = Ok hs g'" and "phase pg = Serving s"
  shows "if SIGINT \<in> set arrived \<or> SIGTERM \<in> set arrived
    then \<exists>g''. await_signal pick arrived hs g' pg
        = Ok (pg\<lparr>phase := Exited, logged := logged pg @ [''Goodbye'']\<rparr>) g''
      \<and> stops g'' = stops g @ [StopEngine (if boot = None then eh_eng g else boot), StopClient c]
    else await_signal pick arrived hs g' pg = Block g'"
proof -
  have some: "relayed [SIGINT, SIGTERM] arrived = [] \<longleftrightarrow> \<not> (SIGINT \<in> set arrived \<or> SIGTERM \<in> set arrived)"
    by (auto simp: relayed_def filter_empty_conv)
  have hs: "hs = [eventHandler_SafeExit]" "gcli g' = Some c" "stops g' = stops g"
    "eh_eng g' = (if boot = None then eh_eng g else boot)"
    using assms(1) by (auto simp: common_init_def RegisterHandler_def eventHandler_OnBoot_def Let_def split: option.splits)
  show ?thesis
    using assms(2) hs some
    by (cases "relayed [SIGINT, SIGTERM] arrived")
      (auto simp: await_signal_def RegisterSignal_def eventHandler_SafeExit_def Let_def)
qed

lemma execute_hangs:
  assumes "\<And>l a opts. new l a opts = MakeDiverges"
  shows "(\<forall>s. phase (execute log name new boot F pool_err) \<noteq> Serving s)"
    and "flag_advertiseAddr F \<noteq> [] \<and> flag_listenAddr F \<noteq> [] \<Longrightarrow> phase (execute log name new boot F None) = Diverges"
    and "ServerLoop \<notin> set (submitted_tasks (execute log name new boot F pool_err))"
  by (simp_all add: execute_def Let_def assms)

text \<open>
  C37. What the four programs come to, for all values of their flags. Without a pool or without both
  addresses each exits, and this is the case for the values that the flags have, since no program
  registers one. With both addresses the GCS and the worker serve: a started node with the flag's
  connection limit and the listen address, its loop submitted, the worker's report channel
  unbuffered; the driver's and the scheduler's programs never get past the constructor of a driver.
  These two never serve and never submit a loop.
\<close>

theorem programs_outcome:
  shows "(pool_err \<noteq> None \<or> flag_advertiseAddr F = [] \<or> flag_listenAddr F = [] \<longrightarrow>
      phase (gcs_execute dcfg pcfg F pool_err) = Exited \<and> phase (worker_execute dcfg pcfg F pool_err) = Exited
      \<and> phase (driver_execute dcfg pcfg F pool_err) = Exited \<and> phase (scheduler_execute dcfg pcfg F pool_err) = Exited)
    \<and> flag_advertiseAddr flag_defaults = [] \<and> flag_listenAddr flag_defaults = []
    \<and> (flag_advertiseAddr F \<noteq> [] \<and> flag_listenAddr F \<noteq> [] \<longrightarrow>
      (\<exists>g. phase (gcs_execute dcfg pcfg F None) = Serving g \<and> started g \<and> maxConnections (options g) = flag_maxConnections F
        \<and> listenAddr g = flag_listenAddr F \<and> ServerLoop \<in> set (submitted_tasks (gcs_execute dcfg pcfg F None)))
      \<and> (\<exists>w. phase (worker_execute dcfg pcfg F None) = Serving w \<and> started w \<and> maxConnections (options w) = flag_maxConnections F
        \<and> listenAddr w = flag_listenAddr F \<and> cap (registerObjectChan w) = 0
        \<and> ServerLoop \<in> set (submitted_tasks (worker_execute dcfg pcfg F None)))
      \<and> phase (driver_execute dcfg pcfg F None) = Diverges \<and> phase (scheduler_execute dcfg pcfg F None) = Diverges)
    \<and> (\<forall>s. phase (driver_execute dcfg pcfg F pool_err) \<noteq> Serving s) \<and> (\<forall>s. phase (scheduler_execute dcfg pcfg F pool_err) \<noteq> Serving s)
    \<and> ServerLoop \<notin> set (submitted_tasks (driver_execute dcfg pcfg F pool_err))
    \<and> ServerLoop \<notin> set (submitted_tasks (scheduler_execute dcfg pcfg F pool_err))"
    (is "?exits \<and> _ \<and> _ \<and> ?serves \<and> ?rest")
proof (intro conjI)
  show "?exits"
    by (simp add: gcs_execute_def worker_execute_def driver_execute_def scheduler_execute_def execute_stops)
  show "?serves"
  proof (intro impI conjI)
    assume F: "flag_advertiseAddr F \<noteq> [] \<and> flag_listenAddr F \<noteq> []"
    let ?opts = "[WithMaxConnections (flag_maxConnections F)]"
    obtain w where w: "NewWorker (flag_listenAddr F) (flag_advertiseAddr F) ?opts = Some w" "cap (registerObjectChan w) = 0"
      "maxConnections (options w) = flag_maxConnections F" "listenAddr w = flag_listenAddr F"
      by (simp add: NewWorker_def apply_options_def WithMaxConnections_def zero_options_def)
    let ?new = "\<lambda>l a opts. case NewWorker l a opts of Some w \<Rightarrow> Made w | None \<Rightarrow> MakePanics"
    have new: "?new (flag_listenAddr F) (flag_advertiseAddr F) ?opts = Made w" using w(1) by simp
    have serves: "phase (execute (worker_initLog dcfg pcfg) ''worker'' ?new worker_Start F None) = Serving (worker_Start w)"
      "ServerLoop \<in> set (submitted_tasks (execute (worker_initLog dcfg pcfg) ''worker'' ?new worker_Start F None))"
      using execute_serves [where new = ?new and F = F and s = w, OF _ _ new] F by blast+
    show "\<exists>w. phase (worker_execute dcfg pcfg F None) = Serving w \<and> started w \<and> maxConnections (options w) = flag_maxConnections F
        \<and> listenAddr w = flag_listenAddr F \<and> cap (registerObjectChan w) = 0
        \<and> ServerLoop \<in> set (submitted_tasks (worker_execute dcfg pcfg F None))"
      unfolding worker_execute_def using w serves
      by (intro exI [of _ "worker_Start w"]) (simp add: worker_Start_def node_Start_def)
    show "\<exists>g. phase (gcs_execute dcfg pcfg F None) = Serving g \<and> started g \<and> maxConnections (options g) = flag_maxConnections F
        \<and> listenAddr g = flag_listenAddr F \<and> ServerLoop \<in> set (submitted_tasks (gcs_execute dcfg pcfg F None))"
      unfolding gcs_execute_def using F
      by (simp add: execute_serves NewGCS_def gcs_Start_def node_Start_def apply_options_def
          WithMaxConnections_def zero_options_def)
    show "phase (driver_execute dcfg pcfg F None) = Diverges" "phase (scheduler_execute dcfg pcfg F None) = Diverges"
      using F by (simp_all add: driver_execute_def scheduler_execute_def NewDriver_None execute_hangs)
  qed
qed (simp_all add: flag_defaults_def driver_execute_def scheduler_execute_def NewDriver_None execute_hangs)

lemma programs_outcome_witness:
  "\<exists>w. phase (worker_execute \<lparr>EncodeTime = [], cfg_Level = -1\<rparr> \<lparr>EncodeTime = [], cfg_Level = 0\<rparr>
      (flag_defaults\<lparr>flag_advertiseAddr := ''a:1'', flag_listenAddr := ''l:1''\<rparr>) None) = Serving w
    \<and> phase (worker_execute \<lparr>EncodeTime = [], cfg_Level = -1\<rparr> \<lparr>EncodeTime = [], cfg_Level = 0\<rparr>
      flag_defaults None) = Exited"
proof -
  let ?F = "flag_defaults\<lparr>flag_advertiseAddr := ''a:1'', flag_listenAddr := ''l:1''\<rparr>"
  let ?dcfg = "\<lparr>EncodeTime = [], cfg_Level = -1\<rparr>" and ?pcfg = "\<lparr>EncodeTime = [], cfg_Level = 0\<rparr>"
  have "flag_advertiseAddr ?F \<noteq> []" "flag_listenAddr ?F \<noteq> []" "flag_listenAddr flag_defaults = []"
    by (simp_all add: flag_defaults_def)
  then show ?thesis
    using programs_outcome [of None ?F ?dcfg ?pcfg] programs_outcome [of None flag_defaults ?dcfg ?pcfg] by blast
qed

text \<open>
  C38. A scheduler made with the options of the programs, which set no size for the task channel,
  never takes a task: in every execution every call of \<^verbatim>\<open>PushTask\<close> is refused, and nothing is
  ever queued or pending.
\<close>

theorem unsized_scheduler_refuses:
  assumes "NewScheduler listen advertise [WithMaxConnections n] = Some s0"
    and "run (scheduler_step ops E) s0 ls s"
  shows "concat (map pushed ls) = [] \<and> held s = {} \<and> fst (PushTask task s) = Some ErrChanFull"
proof -
  let ?p = "pool_start [WithMaxConnections n]"
  have room: "room ?p = 0" by (simp add: pool_start_def apply_options_def WithMaxConnections_def zero_options_def)
  have tr: "run pool_step ?p (concat ls) (pool_of s)"
    using scheduler_pool [OF assms(2)] NewScheduler_start [OF assms(1)] by simp
  have none: "concat (map submitted tr') = [] \<and> pool_held q = {}"
    if "run pool_step p tr' q" "room p = 0" "pool_held p = {}" for p tr' q
    using that
  proof (induction rule: run.induct)
    case (run_snoc p tr' q e r)
    have "room q = 0" using pool_run_room [OF run_snoc.hyps(1)] run_snoc.prems(1) by simp
    with run_snoc.hyps(2) have "submitted e = []" by (auto elim: pool_step.cases)
    then show ?case using run_snoc pool_step_held [OF run_snoc.hyps(2)] by simp
  qed simp
  have "concat (map submitted (concat ls)) = [] \<and> pool_held (pool_of s) = {}"
    by (rule none [OF tr room]) (simp add: pool_held_def pool_start_def)
  moreover have "chan_slots (taskChan s) = 0"
    using pool_run_room [OF tr] room by (simp add: pool_of_def)
  ultimately show ?thesis
    by (simp add: concat_pushed held_def pool_held_def pool_of_def PushTask_def try_send_def chan_slots_def)
qed

lemma unsized_scheduler_refuses_witness:
  "held (node_Start (the (NewScheduler [] [] [WithMaxConnections 9]))) = {}
    \<and> fst (PushTask sample_task (node_Start (the (NewScheduler [] [] [WithMaxConnections 9])))) = Some ErrChanFull"
proof -
  let ?s = "the (NewScheduler [] [] [WithMaxConnections 9])" and ?step = "scheduler_step buf_ops (table_env [])"
  have made: "NewScheduler [] [] [WithMaxConnections 9] = Some ?s"
    by (simp add: NewScheduler_def apply_options_def WithMaxConnections_def zero_options_def)
  have "PushTask sample_task ?s = (Some ErrChanFull, ?s)"
    by (simp add: PushTask_def try_send_def NewScheduler_def apply_options_def WithMaxConnections_def zero_options_def)
  then have refused: "?step ?s [] ?s" by (rule sched_refuse)
  have begins: "?step ?s [] (node_Start ?s)" by (rule sched_quiet [OF quiet_start])
  have "run ?step ?s [[], []] (node_Start ?s)"
    by (intro run_Cons [of ?step]) (rule refused begins run_Nil)+
  from unsized_scheduler_refuses [OF made this] show ?thesis by blast
qed

end
