(* ===== verification/Link.thy ===== *)
theory Link
  imports ClientConn Steps
begin

text \<open>
  The contract of the dialling connection, without timers, counters and packets: a link that is down,
  in its handshake, or up. \<open>client_refines_link\<close> states that the connection never gets from down to
  up but through a dial and then the answer to its handshake, and that it only sends while it is up.
\<close>

datatype link = Down | Handshaking | Up

datatype link_event = Dialled | Answered | Unset | Dropped

inductive link_step :: "link \<Rightarrow> link_event \<Rightarrow> link \<Rightarrow> bool" where
  link_dial: "link_step Down Dialled Handshaking"
| link_answer: "link_step Handshaking Answered Up"
| link_unset: "link_step Up Unset Handshaking"
| link_drop: "l \<noteq> Down \<Longrightarrow> link_step l Dropped Down"

definition link_of :: "client \<Rightarrow> link" where
  "link_of c = (if rawConn c = None then Down else if cl_established c then Up else Handshaking)"

text \<open>
  \<open>answer c d\<close>: the step from \<open>c\<close> to \<open>d\<close> is an answer that was not a refusal, or a call of
  \<^verbatim>\<open>NotifyEstablish\<close>, which the nodes make when they handle such an answer.
\<close>

definition answer :: "client \<Rightarrow> client \<Rightarrow> bool" where
  "answer c d \<longleftrightarrow> d = client_NotifyEstablish c \<or>
     (\<exists>now h m. Uri h = MetaEstablishAck \<and> client_receive now h m c = (Forward, d))"

section \<open>The two flags under each step\<close>

lemma link_same: "rawConn d = rawConn c \<Longrightarrow> cl_established d = cl_established c \<Longrightarrow> link_of d = link_of c"
  by (simp add: link_of_def)

lemma established_ops [simp]:
  "cl_established (notifyReconnect c) = cl_established c"
  "cl_established (client_Start c) = cl_established c" "cl_established (onTick now c) = cl_established c"
  "cl_established (res_state (client_Send E p c)) = cl_established c"
  by (simp_all add: notifyReconnect_def client_Start_def onTick_def client_Send_def client_write_def Let_def
      split: option.split)

lemma established_tick: "cl_established (res_state (loop_tick E now c)) = cl_established c"
  by (auto simp: loop_tick_def maybeShake_def sendShakeHand_def client_write_def Let_def
      split: sum.split option.split)

lemma established_EncodeAndSend:
  "cl_established (res_state (client_EncodeAndSend E now h msg c)) = cl_established c"
  by (simp add: client_EncodeAndSend_def client_Send_def client_write_def Let_def split: sum.split option.split)

text \<open>A dial ends down, or in the handshake.\<close>

lemma loop_dial_link:
  assumes "handlerMode c \<noteq> None" and "rawConn c = None"
  shows "link_of (res_state (loop_dial E now dialed c)) \<in> {Down, Handshaking}"
  using assms
  by (auto simp: loop_dial_def dialOnce_def sendEstablish_def client_write_def link_of_def Let_def
      split: sum.split option.split)

lemma run_link:
  "run link_step l [] l" "run link_step Down [Dialled] Handshaking" "run link_step Handshaking [Answered] Up"
  "run link_step Up [Unset] Handshaking" "l \<noteq> Down \<Longrightarrow> run link_step l [Dropped] Down"
  by (auto intro: run_Nil run_single link_step.intros)

text \<open>Every step is at most one event of the link, and the link comes up by an answer only.\<close>

definition link_sim :: "client \<Rightarrow> client \<Rightarrow> bool" where
  "link_sim c d \<longleftrightarrow> (\<exists>tr. run link_step (link_of c) tr (link_of d) \<and> length tr \<le> 1
     \<and> (Answered \<in> set tr \<longrightarrow> answer c d))"

lemma link_sim_same: "link_of d = link_of c \<Longrightarrow> link_sim c d"
  unfolding link_sim_def by (intro exI [of _ "[]"]) (simp add: run_link)

lemma link_sim_event:
  "link_step (link_of c) e (link_of d) \<Longrightarrow> (e = Answered \<Longrightarrow> answer c d) \<Longrightarrow> link_sim c d"
  unfolding link_sim_def by (intro exI [of _ "[e]"]) (auto intro: run_single)

lemma link_sim_up:
  assumes "rawConn d = rawConn c" and "cl_established d" and "answer c d"
  shows "link_sim c d"
proof (cases "link_of c = Handshaking")
  case True
  then have "link_of d = Up" using assms(1,2) by (simp add: link_of_def split: if_splits)
  then show ?thesis using True link_answer assms(3) by (intro link_sim_event [of c Answered]) simp_all
next
  case False
  then show ?thesis using assms(1,2) by (intro link_sim_same) (simp add: link_of_def split: if_splits)
qed

lemma link_sim_unset:
  assumes "rawConn d = rawConn c" and "\<not> cl_established d"
  shows "link_sim c d"
proof (cases "link_of c = Up")
  case True
  then have "link_of d = Handshaking" using assms by (simp add: link_of_def split: if_splits)
  then show ?thesis using True link_unset by (intro link_sim_event [of c Unset]) simp_all
next
  case False
  then show ?thesis using assms by (intro link_sim_same) (simp add: link_of_def split: if_splits)
qed

lemma loop_step_link:
  assumes "loop_step E c d" and inv: "client_inv c"
  shows "link_sim c d"
  using assms(1)
proof cases
  case (loop_dialed now dialed)
  have down: "handlerMode c \<noteq> None" "rawConn c = None"
    using inv loop_dialed(1) by (auto simp: client_inv_def)
  then have "link_of d \<in> {Down, Handshaking}" "link_of c = Down"
    using loop_dial_link [of c E now dialed] loop_dialed(4) by (simp_all add: link_of_def)
  then show ?thesis
    using link_sim_same link_sim_event [of c Dialled d] link_dial by auto
next
  case (loop_dial_panic now dialed p e)
  then show ?thesis
    using loop_dial_Ok [of c E now dialed] inv by (auto simp: client_inv_def)
next
  case loop_sub_done
  then obtain g where "rawConn c = Some g" using inv by (auto simp: client_inv_def)
  then show ?thesis
    unfolding loop_sub_done(1) by (intro link_sim_unset) (simp_all add: waitClose_begin_def)
next
  case loop_closed
  then have "link_of c \<noteq> Down" "link_of d = Down"
    using inv by (auto simp: client_inv_def link_of_def waitClose_end_def)
  then show ?thesis using link_sim_event [of c Dropped d] link_drop by simp
qed (simp_all add: link_sim_same link_of_def)

lemma tick_step_link:
  assumes "tick_step E c d" and inv: "client_inv c"
  shows "link_sim c d"
  using assms(1)
proof cases
  case (tick_ok now)
  then have "rawConn c \<noteq> None" using inv by (auto simp: client_inv_def)
  from loop_tick_Ok [OF this, of E now] have "ctl d = ctl c" unfolding tick_ok(2) by simp
  then have "rawConn d = rawConn c" by (rule ctl_eqD(3))
  moreover have "cl_established d = cl_established c"
    using established_tick [of E now c] unfolding tick_ok(2) by simp
  ultimately show ?thesis by (intro link_sim_same link_same)
next
  case (tick_panic now p e)
  then show ?thesis using loop_tick_Ok [of c E now] inv by (auto simp: client_inv_def)
qed

lemma outside_step_link:
  assumes "outside_step E c d"
  shows "link_sim c d"
  using assms
proof cases
  case (out_packet now h msg)
  show ?thesis
  proof (cases "cl_established d = cl_established c")
    case True
    then show ?thesis
      using ctl_eqD(3) [OF client_receive_ctl(1), of now h msg c] out_packet
      by (intro link_sim_same link_same) simp_all
  next
    case False
    then have ack: "Uri h = MetaEstablishAck" "fst (client_receive now h msg c) = Forward"
      "cl_established d" "\<not> cl_established c"
      unfolding out_packet by (simp_all add: client_receive_def Let_def split: if_splits)
    then have "client_receive now h msg c = (Forward, d)"
      by (simp add: out_packet prod_eq_iff)
    then have "answer c d" using ack(1) unfolding answer_def by blast
    moreover have "rawConn d = rawConn c"
      unfolding out_packet by (rule ctl_eqD(3) [OF client_receive_ctl(1)])
    ultimately show ?thesis using ack(3) by (intro link_sim_up)
  qed
next
  case out_notify
  then show ?thesis by (intro link_sim_up) (simp_all add: answer_def client_NotifyEstablish_def)
next
  case out_stop
  show ?thesis
  proof (cases "cl_started c")
    case True
    then show ?thesis unfolding out_stop by (intro link_sim_unset) (simp_all add: client_Stop_def)
  next
    case False
    then show ?thesis unfolding out_stop by (intro link_sim_same) (simp add: client_Stop_def)
  qed
next
  case out_start
  then show ?thesis by (intro link_sim_same link_same) (simp_all add: client_Start_def)
next
  case (out_send payload)
  then show ?thesis
    by (intro link_sim_same link_same) (simp_all add: ctl_eqD(3) [OF client_Send_ctl(1)])
next
  case (out_encode_send now h msg)
  then show ?thesis
    by (intro link_sim_same link_same)
      (simp_all add: established_EncodeAndSend ctl_eqD(3) [OF client_EncodeAndSend_ctl(1)])
next
  case out_closed
  then show ?thesis by (intro link_sim_same link_same) (simp_all add: client_OnClose_def)
next
  case (out_local l)
  then show ?thesis by (intro link_sim_same link_same) (simp_all add: client_SetLocal_def)
next
  case out_parent
  then show ?thesis by (intro link_sim_same link_same) simp_all
qed

lemma client_step_link: "client_step E c d \<Longrightarrow> client_inv c \<Longrightarrow> link_sim c d"
  unfolding client_step_def using loop_step_link tick_step_link outside_step_link by blast

definition link_moves :: "link \<Rightarrow> link \<Rightarrow> bool" where
  "link_moves l l' \<longleftrightarrow> (\<exists>e. link_step l e l')"

lemma run_link_moves: "run link_step l tr l' \<Longrightarrow> link_moves\<^sup>*\<^sup>* l l'"
  by (induction rule: run.induct) (auto simp: link_moves_def intro: rtranclp.rtrancl_into_rtrancl)

interpretation link_ref: step_refinement "client_step E" client_inv link_moves link_of for E
  by unfold_locales (use client_step_inv client_step_link run_link_moves in \<open>unfold link_sim_def, blast+\<close>)

lemma client_reach_steps: "client_reach E c0 c \<Longrightarrow> (client_step E)\<^sup>*\<^sup>* c0 c"
  by (induction rule: client_reach.induct) (auto intro: rtranclp.rtrancl_into_rtrancl)

text \<open>
  C16. The dialling connection refines the link automaton. From \<^verbatim>\<open>NewConnection\<close> on, whatever the
  interleaving of its loop, its timers, packets, callers and cancellations, it moves as the automaton
  does, from down; each step is nothing or one event of the link, and it is the answer to the
  handshake that brings the link up, never the dial itself. A \<^verbatim>\<open>Send\<close> that reports no error was
  made while the link was up.
\<close>

theorem client_refines_link:
  assumes "client_reach E (NewConnection parentDone cid endpoint (Some mode) []) c" and "client_step E c d"
  shows "link_moves\<^sup>*\<^sup>* Down (link_of c)
    \<and> (\<exists>tr. run link_step (link_of c) tr (link_of d) \<and> length tr \<le> 1
        \<and> (Answered \<in> set tr \<longrightarrow> answer c d))
    \<and> (client_Send E p c = Ok None e \<longrightarrow> link_of c = Up)"
proof -
  let ?c0 = "NewConnection parentDone cid endpoint (Some mode) []"
  have inv0: "client_inv ?c0" by (rule NewConnection_inv) simp_all
  have "link_of ?c0 = Down" by (simp add: link_of_def NewConnection_def)
  then have "link_moves\<^sup>*\<^sup>* Down (link_of c)"
    using link_ref.reach_sim [OF client_reach_steps [OF assms(1)] inv0] by simp
  moreover have "link_sim c d"
    by (rule client_step_link [OF assms(2) client_reach_inv [OF assms(1) inv0]])
  moreover have "client_Send E p c = Ok None e \<longrightarrow> link_of c = Up"
    by (auto simp: client_Send_spec link_of_def)
  ultimately show ?thesis unfolding link_sim_def by blast
qed

lemma client_refines_link_witness:
  "\<exists>tr. run link_step (link_of sample_client) tr (link_of (client_NotifyEstablish sample_client))
    \<and> length tr \<le> 1"
proof -
  have "client_step (table_env []) sample_client (client_NotifyEstablish sample_client)"
    unfolding client_step_def by (simp add: out_notify)
  then show ?thesis
    using client_refines_link [OF reach_start [of "table_env []" sample_client, unfolded sample_client_def],
        of "client_NotifyEstablish sample_client"]
    by (auto simp: sample_client_def)
qed

end
