(* ===== verification/WorkerSpec.thy ===== *)
theory WorkerSpec
  imports Worker
begin

text \<open>
  What the worker's operations amount to: the arithmetic of \<^verbatim>\<open>AddTowIntFunc\<close>, the resolution of
  arguments, an assigned task from its packet to its answer, the object store's answers, the
  report loop, and the remote fetch that never delivers.
\<close>

section \<open>The task function\<close>

lemma decode_int_args_spec:
  "decode_int_args args acc =
    (case find (\<lambda>a. length a < 8) args of
       Some a \<Rightarrow> Inl (ErrDataTooShort (length a))
     | None \<Rightarrow> Inr (acc @ map Uint64 args))"
  by (induction args arbitrary: acc) (auto simp: DecodeInt_def split: option.split)

text \<open>
  The addition task, on every list of arguments: the first argument shorter than eight bytes is
  the error; else a number of arguments other than two is; else the result is the 64-bit sum of the
  two leading words.
\<close>

theorem AddTowIntFunc_spec:
  "AddTowIntFunc task =
    (case find (\<lambda>a. length a < 8) (Args task) of
       Some a \<Rightarrow> (0, Some (ErrDataTooShort (length a)))
     | None \<Rightarrow>
         if length (Args task) = 2 then (Uint64 (Args task ! 0) + Uint64 (Args task ! 1), None)
         else (0, Some ErrArgNum))"
  by (auto simp: AddTowIntFunc_def decode_int_args_spec split: option.split)

lemma AddTowIntFunc_pair:
  "Args task = [EncodeInt a, EncodeInt b] \<Longrightarrow> AddTowIntFunc task = (a + b, None)"
  by (simp add: AddTowIntFunc_spec) (simp add: EncodeInt_def)

text \<open>
  The sum of two encoded integers wraps around like Go's \<^verbatim>\<open>int\<close>: the bytes the worker stores
  decode to the sum modulo \<open>2 ^ 64\<close>, as a signed number.
\<close>

theorem addTowInt_wraps:
  assumes "Args task = [EncodeInt a, EncodeInt b]"
  shows "\<exists>r. DecodeInt (EncodeInt (fst (AddTowIntFunc task))) = (AnyInt r, None)
    \<and> sint r = (sint a + sint b + 2 ^ 63) mod 2 ^ 64 - 2 ^ 63"
proof -
  have "a + b = word_of_int (sint a + sint b)" by simp
  then have "sint (a + b) = signed_take_bit 63 (sint a + sint b)"
    by (simp only: signed_of_int) simp
  then have "sint (a + b) = (sint a + sint b + 2 ^ 63) mod 2 ^ 64 - 2 ^ 63"
    by (simp add: signed_take_bit_eq_take_bit_shift take_bit_eq_mod)
  then show ?thesis
    using AddTowIntFunc_pair [OF assms] by (simp add: int_codec.dec_enc)
qed

lemma addTowInt_wraps_witness:
  "\<exists>r. DecodeInt (EncodeInt (fst (AddTowIntFunc (sample_task\<lparr>Args := [EncodeInt (2 ^ 63 - 1), EncodeInt 1]\<rparr>))))
      = (AnyInt r, None) \<and> sint r = - (2 ^ 63)"
proof -
  have "sint (2 ^ 63 - 1 :: int64) = 2 ^ 63 - 1" by simp
  then show ?thesis
    using addTowInt_wraps [of "sample_task\<lparr>Args := [EncodeInt (2 ^ 63 - 1), EncodeInt 1]\<rparr>" "2 ^ 63 - 1" 1]
    by simp
qed

section \<open>Arguments\<close>

text \<open>What becomes of one argument of a given type: the stored object's data, or the bytes given.\<close>

definition resolved :: "(string \<Rightarrow> Object option) \<Rightarrow> string \<times> byte list \<Rightarrow> byte list option" where
  "resolved store ta =
    (case ta of (t, a) \<Rightarrow>
       if t = ObjectTypeObject then map_option ObjData (store (string_of_bytes a)) else Some a)"

lemma resolve_args_spec:
  assumes "i + length args \<le> length types"
  shows "resolve_args types i args s =
    (let rs = map (resolved (objectStorage s)) (zip (drop i types) args) in
     if None \<in> set rs then Panic TypeAssertion s else Ok (map the rs) s)"
  using assms
proof (induction args arbitrary: i)
  case Nil
  then show ?case by simp
next
  case (Cons arg args)
  then have i: "i < length types" by simp
  have drop_i: "drop i types = types ! i # drop (Suc i) types"
    using Cons_nth_drop_Suc [OF i] by simp
  have IH: "resolve_args types (Suc i) args s =
    (let rs = map (resolved (objectStorage s)) (zip (drop (Suc i) types) args) in
     if None \<in> set rs then Panic TypeAssertion s else Ok (map the rs) s)"
    using Cons by simp
  show ?case
    using i IH by (auto simp: drop_i resolved_def DecodeString_def GetObject_def Let_def split: option.split)
qed

lemma resolve_args_short:
  assumes "length types < i + length args" and "ObjectTypeObject \<notin> set types"
    and "i \<le> length types"
  shows "resolve_args types i args s = Panic IndexOutOfRange s"
  using assms
proof (induction args arbitrary: i)
  case Nil
  then show ?case by simp
next
  case (Cons arg args)
  show ?case
  proof (cases "i < length types")
    case True
    then have "types ! i \<noteq> ObjectTypeObject" using Cons.prems(2) by (metis nth_mem)
    then show ?thesis using True Cons by simp
  next
    case False
    then show ?thesis by simp
  qed
qed

text \<open>
  An assigned task whose argument types are too few for its arguments crashes the worker: with no
  argument of type object among them, the packet panics with an index out of range, and the worker
  has neither executed nor answered nor stored anything.
\<close>

theorem assign_without_types_panics:
  assumes "length (AssignTaskRequest_ArgsType req) < length (AssignTaskRequest_Args req)"
    and "ObjectTypeObject \<notin> set (AssignTaskRequest_ArgsType req)" and "Uri h = RayAssignTask"
  shows "worker_OnPacket E clock ref h (MAssignTaskRequest req) s = Panic IndexOutOfRange s"
  using resolve_args_short [of "AssignTaskRequest_ArgsType req" 0 "AssignTaskRequest_Args req" s] assms
  by (simp add: worker_OnPacket_def onAssignTask_def const_defs)

definition sample_worker :: worker where
  "sample_worker =
    \<lparr>started = True, listenAddr = [], advertiseAddr = [], options = zero_options,
     nextID = 2, conns = [KUint64 1 \<mapsto> 0, KUint64 2 \<mapsto> 1],
     inb = (\<lambda>_. newConnection 2 ''g'' (Some 8))(0 := newConnection 1 ''s'' (Some 7)),
     outb = (\<lambda>_. NewConnection True 0 [] None []), fresh = 2,
     connAddrs = (\<lambda>_. None), gcsConn = Some (InConn 1),
     registerObjectChan = \<lparr>cap = 2, buf = [], parked = 0\<rparr>,
     getObjectLocationChan = (\<lambda>_. None), getObjectChan = (\<lambda>_. None),
     objectStorage = [''o'' \<mapsto> \<lparr>ObjType = ObjectTypeInt, ObjData = EncodeInt 5\<rparr>],
     worker_ctxDone = False, time_calls = 0\<rparr>"

lemma sample_worker_inv: "worker_inv sample_worker"
  by (simp add: worker_inv_def node_inv_def sample_worker_def chan_slots_def EncodeInt_def newConnection_def)

lemma assign_without_types_panics_witness:
  "worker_OnPacket (table_env []) (\<lambda>_. 0) (InConn 0) \<lparr>Uri = RayAssignTask, SeqId = 3\<rparr>
     (MAssignTaskRequest (assign_request sample_task)) sample_worker = Panic IndexOutOfRange sample_worker"
  by (rule assign_without_types_panics) (simp_all add: assign_request_def sample_task_def)

text \<open>
  C33. An argument that names an object is only ever found in the worker's own store. If every object
  named is stored here the task runs on the stored bytes; if one is not, the packet panics with a
  failed type assertion: the state is unchanged, so no request for its location was sent.
\<close>

theorem assign_resolves_locally:
  assumes "length (AssignTaskRequest_Args req) \<le> length (AssignTaskRequest_ArgsType req)"
    and "rs = map (resolved (objectStorage s))
      (zip (AssignTaskRequest_ArgsType req) (AssignTaskRequest_Args req))"
  shows "onAssignTask E clock ref h req s =
    (if None \<in> set rs then Panic TypeAssertion s
     else bind_res
       (dispatch_task clock
         \<lparr>ID = AssignTaskRequest_TaskId req, FuncName = AssignTaskRequest_FuncName req,
          Args = map the rs, ArgsType = AssignTaskRequest_ArgsType req,
          Dependencies = AssignTaskRequest_Dependencies req\<rparr> s)
       (\<lambda>err s1. answer_assign E ref (SeqId h) (AssignTaskRequest_TaskId req) err s1))"
  using resolve_args_spec [of 0 "AssignTaskRequest_Args req" "AssignTaskRequest_ArgsType req" s] assms
  by (simp add: onAssignTask_def Let_def)

definition object_request :: "string \<Rightarrow> AssignTaskRequest" where
  "object_request k =
    \<lparr>AssignTaskRequest_TaskId = ''t'', AssignTaskRequest_FuncName = TaskFuncAddTowInt,
     AssignTaskRequest_Args = [EncodeInt 1, EncodeString k], AssignTaskRequest_Dependencies = [],
     AssignTaskRequest_ArgsType = [''int'', ''object'']\<rparr>"

lemma assign_resolves_locally_witness:
  "onAssignTask (table_env []) (\<lambda>_. 0) (InConn 0) \<lparr>Uri = RayAssignTask, SeqId = 3\<rparr>
     (object_request ''p'') sample_worker = Panic TypeAssertion sample_worker"
  by (subst assign_resolves_locally [OF _ refl])
    (simp_all add: object_request_def resolved_def sample_worker_def EncodeString_def const_defs)

section \<open>An assigned addition\<close>

definition assign_answer :: "string \<Rightarrow> bool \<Rightarrow> pb_msg" where
  "assign_answer k accepted = MAssignTaskResponse \<lparr>AssignTaskResponse_Accepted = accepted,
     AssignTaskResponse_WorkerId = [], AssignTaskResponse_TaskId = k\<rparr>"

lemma answer_assign_live:
  assumes ok: "transports_ok E" and live: "ref_live ref s"
    and rt: "pb_roundtrips E (assign_answer k (err = None)) body"
  obtains s' where "answer_assign E ref seq k err s = Ok None s'"
    and "ref_stream ref s' = ref_stream ref s @ wire_frame \<lparr>Uri = RayAssignTaskResp, SeqId = seq\<rparr> body"
    and "worker_data s' = worker_data s"
proof -
  let ?h = "\<lparr>Uri = RayAssignTaskResp, SeqId = seq\<rparr>"
  let ?m = "assign_answer k (err = None)"
  obtain s' where
    s': "reply E ref ?h ?m s = Ok None s'" "ref_stream ref s' = ref_stream ref s @ wire_frame ?h body"
    by (rule reply_live [OF ok live rt, of ?h]) (rule that)
  have "answer_assign E ref seq k err s = Ok None s'"
  proof (cases "EncodePayload E ?h ?m")
    case (Inr p)
    then have "ref_Send E ref p s = Ok None s'" using s'(1) by (simp add: reply_def)
    then show ?thesis using Inr by (simp add: answer_assign_def assign_answer_def Let_def)
  qed (use s'(1) in \<open>simp add: reply_def\<close>)
  moreover have "worker_data s' = worker_data s"
    using worker_data_reply [of E ref ?h ?m s] s'(1) by simp
  ultimately show thesis using that s'(2) by blast
qed

lemma run_addTowInt:
  assumes func: "FuncName task = TaskFuncAddTowInt" and run: "AddTowIntFunc task = (v, err)"
    and room: "length (buf (registerObjectChan s)) < chan_slots (registerObjectChan s)"
    and ok: "transports_ok E" and live: "ref_live ref s"
    and rt: "pb_roundtrips E (assign_answer (ID task) (err = None)) body"
  shows "\<exists>s'. bind_res (dispatch_task clock task s) (\<lambda>err s1. answer_assign E ref seq (ID task) err s1)
      = Ok None s'
    \<and> objectStorage s' = (objectStorage s)(object_name clock task s \<mapsto>
        \<lparr>ObjType = ObjectTypeInt, ObjData = EncodeInt v\<rparr>)
    \<and> buf (registerObjectChan s') = buf (registerObjectChan s) @ [object_name clock task s]
    \<and> ref_stream ref s' = ref_stream ref s @ wire_frame \<lparr>Uri = RayAssignTaskResp, SeqId = seq\<rparr> body"
proof -
  let ?k = "object_name clock task s"
  let ?s1 = "s\<lparr>objectStorage := (objectStorage s)(?k \<mapsto> \<lparr>ObjType = ObjectTypeInt, ObjData = EncodeInt v\<rparr>),
    time_calls := Suc (time_calls s),
    registerObjectChan := (registerObjectChan s)\<lparr>buf := buf (registerObjectChan s) @ [?k]\<rparr>\<rparr>"
  have d: "dispatch_task clock task s = Ok err ?s1"
    using func run room
    by (simp add: dispatch_task_def onAddTowInt_def SetObject_def try_send_def chan_slots_def Let_def)
  have same: "ref_live ref ?s1 = ref_live ref s" "ref_stream ref ?s1 = ref_stream ref s"
    by (cases ref; simp)+
  have "ref_live ref ?s1" using live same by simp
  from answer_assign_live [OF ok this rt] obtain s' where
    s': "answer_assign E ref seq (ID task) err ?s1 = Ok None s'"
      "ref_stream ref s' = ref_stream ref ?s1 @ wire_frame \<lparr>Uri = RayAssignTaskResp, SeqId = seq\<rparr> body"
      "worker_data s' = worker_data ?s1" by blast
  then show ?thesis
    using d same worker_dataD [OF s'(3)] by (intro exI [of _ s']) simp
qed

lemma onAssignTask_plain:
  assumes "length (AssignTaskRequest_Args req) \<le> length (AssignTaskRequest_ArgsType req)"
    and "ObjectTypeObject \<notin> set (AssignTaskRequest_ArgsType req)"
  shows "onAssignTask E clock ref h req s =
    bind_res
       (dispatch_task clock
         \<lparr>ID = AssignTaskRequest_TaskId req, FuncName = AssignTaskRequest_FuncName req,
          Args = AssignTaskRequest_Args req, ArgsType = AssignTaskRequest_ArgsType req,
          Dependencies = AssignTaskRequest_Dependencies req\<rparr> s)
       (\<lambda>err s1. answer_assign E ref (SeqId h) (AssignTaskRequest_TaskId req) err s1)"
proof -
  let ?types = "AssignTaskRequest_ArgsType req" and ?args = "AssignTaskRequest_Args req"
  have "map (resolved st) (zip ts as) = map Some as"
    if "length as \<le> length ts" "ObjectTypeObject \<notin> set ts" for st ts as
    using that
  proof (induction as arbitrary: ts)
    case (Cons a as)
    then show ?case by (cases ts) (auto simp: resolved_def)
  qed simp
  then have "resolve_args ?types 0 ?args s = Ok ?args s"
    using resolve_args_spec [of 0 ?args ?types s] assms by (simp add: image_iff comp_def)
  then show ?thesis by (simp add: onAssignTask_def Let_def)
qed

text \<open>
  C22. From packet to answer: an assigned addition of two encoded integers, with both types given,
  stores the wrapped sum under a new object id, puts this id at the tail of the queue of reports,
  and answers on the same connection with exactly one frame that accepts the task, under the
  sequence number of the request; no other object changes.
\<close>

theorem assigned_sum_stored:
  assumes func: "AssignTaskRequest_FuncName req = TaskFuncAddTowInt"
    and args: "AssignTaskRequest_Args req = [EncodeInt a, EncodeInt b]"
    and types: "2 \<le> length (AssignTaskRequest_ArgsType req)"
      "ObjectTypeObject \<notin> set (AssignTaskRequest_ArgsType req)"
    and uri: "Uri h = RayAssignTask"
    and room: "length (buf (registerObjectChan s)) < chan_slots (registerObjectChan s)"
    and ok: "transports_ok E" and live: "ref_live ref s"
    and rt: "pb_roundtrips E (assign_answer (AssignTaskRequest_TaskId req) True) body"
    and name: "k = AssignTaskRequest_TaskId req @ TaskFuncAddTowInt @ FormatInt (clock (time_calls s))"
  shows "\<exists>s'. worker_OnPacket E clock ref h (MAssignTaskRequest req) s = Ok None s'
    \<and> objectStorage s' = (objectStorage s)(k \<mapsto> \<lparr>ObjType = ObjectTypeInt, ObjData = EncodeInt (a + b)\<rparr>)
    \<and> buf (registerObjectChan s') = buf (registerObjectChan s) @ [k]
    \<and> ref_stream ref s' = ref_stream ref s
        @ wire_frame \<lparr>Uri = RayAssignTaskResp, SeqId = SeqId h\<rparr> body"
proof -
  define task where "task = \<lparr>ID = AssignTaskRequest_TaskId req, FuncName = AssignTaskRequest_FuncName req,
    Args = AssignTaskRequest_Args req, ArgsType = AssignTaskRequest_ArgsType req,
    Dependencies = AssignTaskRequest_Dependencies req\<rparr>"
  have task: "FuncName task = TaskFuncAddTowInt" "AddTowIntFunc task = (a + b, None)"
    "ID task = AssignTaskRequest_TaskId req" "object_name clock task s = k"
    using func args name by (simp_all add: task_def AddTowIntFunc_pair object_name_def)
  have "worker_OnPacket E clock ref h (MAssignTaskRequest req) s
      = bind_res (dispatch_task clock task s) (\<lambda>err s1. answer_assign E ref (SeqId h) (ID task) err s1)"
    using onAssignTask_plain [of req E clock ref h s] args types uri
    by (simp add: worker_OnPacket_def const_defs task_def)
  then show ?thesis
    using run_addTowInt [OF task(1,2) room ok live, of body clock "SeqId h"] rt task(3,4) by simp
qed

definition sum_request :: "byte list list \<Rightarrow> AssignTaskRequest" where
  "sum_request args =
    \<lparr>AssignTaskRequest_TaskId = ''t'', AssignTaskRequest_FuncName = TaskFuncAddTowInt,
     AssignTaskRequest_Args = args, AssignTaskRequest_Dependencies = [],
     AssignTaskRequest_ArgsType = [''int'', ''int'']\<rparr>"

lemma sample_worker_live:
  "ref_live (InConn 0) sample_worker" "ref_live (InConn 1) sample_worker"
  "ref_stream (InConn 0) sample_worker = []" "ref_stream (InConn 1) sample_worker = []"
  "length (buf (registerObjectChan sample_worker)) < chan_slots (registerObjectChan sample_worker)"
  by (simp_all add: sample_worker_def newConnection_def chan_slots_def)

lemma FormatInt_0: "FormatInt 0 = ''0''"
  by code_simp

lemma assigned_sum_stored_witness:
  "\<exists>s'. worker_OnPacket (table_env [(assign_answer ''t'' True, [9])]) (\<lambda>_. 0) (InConn 0)
      \<lparr>Uri = RayAssignTask, SeqId = 3\<rparr> (MAssignTaskRequest (sum_request [EncodeInt 2, EncodeInt 3]))
      sample_worker = Ok None s'
    \<and> GetObject ''taddTowInt0'' s' = Some \<lparr>ObjType = ObjectTypeInt, ObjData = EncodeInt 5\<rparr>
    \<and> ref_stream (InConn 0) s' = wire_frame \<lparr>Uri = RayAssignTaskResp, SeqId = 3\<rparr> [9]"
proof -
  let ?req = "sum_request [EncodeInt 2, EncodeInt 3]"
  let ?E = "table_env [(assign_answer ''t'' True, [9])]"
  have k: "''taddTowInt0'' = AssignTaskRequest_TaskId ?req @ TaskFuncAddTowInt
      @ FormatInt ((\<lambda>_. 0) (time_calls sample_worker))"
    by (simp add: sum_request_def FormatInt_0 const_defs)
  have rt: "pb_roundtrips ?E (assign_answer (AssignTaskRequest_TaskId ?req) True) [9]"
    by (simp add: pb_roundtrips_def sum_request_def)
  have req: "AssignTaskRequest_FuncName ?req = TaskFuncAddTowInt"
    "AssignTaskRequest_Args ?req = [EncodeInt 2, EncodeInt 3]"
    "2 \<le> length (AssignTaskRequest_ArgsType ?req)"
    "ObjectTypeObject \<notin> set (AssignTaskRequest_ArgsType ?req)"
    by (simp_all add: sum_request_def const_defs)
  have uri: "Uri \<lparr>Uri = RayAssignTask, SeqId = 3\<rparr> = RayAssignTask" by simp
  from assigned_sum_stored [OF req uri sample_worker_live(5) transports_ok_table_env sample_worker_live(1) rt k]
  obtain s' where "worker_OnPacket ?E (\<lambda>_. 0) (InConn 0) \<lparr>Uri = RayAssignTask, SeqId = 3\<rparr>
      (MAssignTaskRequest ?req) sample_worker = Ok None s'"
    "objectStorage s' ''taddTowInt0'' = Some \<lparr>ObjType = ObjectTypeInt, ObjData = EncodeInt (2 + 3)\<rparr>"
    "ref_stream (InConn 0) s' = ref_stream (InConn 0) sample_worker
      @ wire_frame \<lparr>Uri = RayAssignTaskResp, SeqId = 3\<rparr> [9]" by auto
  then show ?thesis by (intro exI [of _ s']) (simp add: GetObject_def sample_worker_live(3) del: ref_stream.simps)
qed

text \<open>
  A failed addition leaves an object behind: when \<^verbatim>\<open>AddTowIntFunc\<close> returns an error the task is
  answered with a rejection, but an object with the integer 0 is stored all the same and its id is
  queued for a report to the GCS.
\<close>

theorem assigned_failure_stored:
  assumes func: "AssignTaskRequest_FuncName req = TaskFuncAddTowInt"
    and types: "length (AssignTaskRequest_Args req) \<le> length (AssignTaskRequest_ArgsType req)"
      "ObjectTypeObject \<notin> set (AssignTaskRequest_ArgsType req)"
    and bad: "length (AssignTaskRequest_Args req) \<noteq> 2 \<or> (\<exists>a \<in> set (AssignTaskRequest_Args req). length a < 8)"
    and uri: "Uri h = RayAssignTask"
    and room: "length (buf (registerObjectChan s)) < chan_slots (registerObjectChan s)"
    and ok: "transports_ok E" and live: "ref_live ref s"
    and rt: "pb_roundtrips E (assign_answer (AssignTaskRequest_TaskId req) False) body"
    and name: "k = AssignTaskRequest_TaskId req @ TaskFuncAddTowInt @ FormatInt (clock (time_calls s))"
  shows "\<exists>s'. worker_OnPacket E clock ref h (MAssignTaskRequest req) s = Ok None s'
    \<and> objectStorage s' = (objectStorage s)(k \<mapsto> \<lparr>ObjType = ObjectTypeInt, ObjData = EncodeInt 0\<rparr>)
    \<and> buf (registerObjectChan s') = buf (registerObjectChan s) @ [k]
    \<and> ref_stream ref s' = ref_stream ref s
        @ wire_frame \<lparr>Uri = RayAssignTaskResp, SeqId = SeqId h\<rparr> body"
proof -
  define task where "task = \<lparr>ID = AssignTaskRequest_TaskId req, FuncName = AssignTaskRequest_FuncName req,
    Args = AssignTaskRequest_Args req, ArgsType = AssignTaskRequest_ArgsType req,
    Dependencies = AssignTaskRequest_Dependencies req\<rparr>"
  have t: "FuncName task = TaskFuncAddTowInt" "ID task = AssignTaskRequest_TaskId req"
    "object_name clock task s = k" "Args task = AssignTaskRequest_Args req"
    using func name by (simp_all add: task_def object_name_def)
  obtain err where run: "AddTowIntFunc task = (0, Some err)"
  proof (cases "find (\<lambda>a. length a < 8) (Args task)")
    case None
    then have "length (Args task) \<noteq> 2" using bad by (simp add: find_None_iff t(4))
    then show thesis using that [of ErrArgNum] None by (simp add: AddTowIntFunc_spec)
  next
    case (Some a)
    then show thesis using that [of "ErrDataTooShort (length a)"] by (simp add: AddTowIntFunc_spec)
  qed
  have "worker_OnPacket E clock ref h (MAssignTaskRequest req) s
      = bind_res (dispatch_task clock task s) (\<lambda>err s1. answer_assign E ref (SeqId h) (ID task) err s1)"
    using onAssignTask_plain [of req E clock ref h s] types uri
    by (simp add: worker_OnPacket_def const_defs task_def)
  then show ?thesis
    using run_addTowInt [OF t(1) run room ok live, of body clock "SeqId h"] rt t(2,3) by simp
qed

lemma assigned_failure_stored_witness:
  "\<exists>s'. worker_OnPacket (table_env [(assign_answer ''t'' False, [9])]) (\<lambda>_. 0) (InConn 0)
      \<lparr>Uri = RayAssignTask, SeqId = 3\<rparr> (MAssignTaskRequest (sum_request [[1, 2]])) sample_worker = Ok None s'
    \<and> GetObject ''taddTowInt0'' s' = Some \<lparr>ObjType = ObjectTypeInt, ObjData = EncodeInt 0\<rparr>"
proof -
  let ?req = "sum_request [[1, 2]]"
  let ?E = "table_env [(assign_answer ''t'' False, [9])]"
  have k: "''taddTowInt0'' = AssignTaskRequest_TaskId ?req @ TaskFuncAddTowInt
      @ FormatInt ((\<lambda>_. 0) (time_calls sample_worker))"
    by (simp add: sum_request_def FormatInt_0 const_defs)
  have rt: "pb_roundtrips ?E (assign_answer (AssignTaskRequest_TaskId ?req) False) [9]"
    by (simp add: pb_roundtrips_def sum_request_def)
  have req: "AssignTaskRequest_FuncName ?req = TaskFuncAddTowInt"
    "length (AssignTaskRequest_Args ?req) \<le> length (AssignTaskRequest_ArgsType ?req)"
    "ObjectTypeObject \<notin> set (AssignTaskRequest_ArgsType ?req)"
    "length (AssignTaskRequest_Args ?req) \<noteq> 2 \<or> (\<exists>a \<in> set (AssignTaskRequest_Args ?req). length a < 8)"
    by (simp_all add: sum_request_def const_defs)
  have uri: "Uri \<lparr>Uri = RayAssignTask, SeqId = 3\<rparr> = RayAssignTask" by simp
  from assigned_failure_stored [OF req uri sample_worker_live(5) transports_ok_table_env sample_worker_live(1) rt k]
  obtain s' where "worker_OnPacket ?E (\<lambda>_. 0) (InConn 0) \<lparr>Uri = RayAssignTask, SeqId = 3\<rparr>
      (MAssignTaskRequest ?req) sample_worker = Ok None s'"
    "objectStorage s' ''taddTowInt0'' = Some \<lparr>ObjType = ObjectTypeInt, ObjData = EncodeInt 0\<rparr>" by auto
  then show ?thesis by (intro exI [of _ s']) (simp add: GetObject_def)
qed

section \<open>The object store over the network\<close>

definition object_answer :: "string \<Rightarrow> worker \<Rightarrow> pb_msg" where
  "object_answer k s = MGetObjectDataResponse
    (case objectStorage s k of
       Some object \<Rightarrow> \<lparr>GetObjectDataResponse_Found = True, GetObjectDataResponse_Data = ObjData object,
         GetObjectDataResponse_Error = [], GetObjectDataResponse_Uuid = []\<rparr>
     | None \<Rightarrow> \<lparr>GetObjectDataResponse_Found = False, GetObjectDataResponse_Data = [],
         GetObjectDataResponse_Error = ''object not found'', GetObjectDataResponse_Uuid = []\<rparr>)"

text \<open>
  A request for an object is answered with one frame that decodes to what the store holds: the
  bytes of the object, or "object not found". No answer carries the \<^verbatim>\<open>Uuid\<close> of the request, by
  which the asking worker would recognise it, and the stored data are not changed.
\<close>

theorem onGetObjectData_answers:
  assumes ok: "transports_ok E" and live: "ref_live ref s"
    and rt: "pb_roundtrips E (object_answer (GetObjectDataRequest_ObjectId req) s) body"
    and len: "length body < 2 ^ 32 - 10" and uri: "Uri h = RayGetObjectData"
    and hdr: "hr = \<lparr>Uri = RayGetObjectDataResp, SeqId = nextID s + 1\<rparr>"
  shows "\<exists>s'. worker_OnPacket E clock ref h (MGetObjectDataRequest req) s = Ok None s'
    \<and> ref_stream ref s' = ref_stream ref s @ wire_frame hr body
    \<and> decode_bytes E (wire_frame hr body)
        = (Inr (hr, object_answer (GetObjectDataRequest_ObjectId req) s), [])
    \<and> objectStorage s' = objectStorage s"
proof -
  let ?m = "object_answer (GetObjectDataRequest_ObjectId req) s"
  let ?s1 = "s\<lparr>nextID := nextID s + 1\<rparr>"
  have same: "ref_live ref ?s1 = ref_live ref s" "ref_stream ref ?s1 = ref_stream ref s"
    by (cases ref; simp)+
  from reply_live [OF ok _ rt, of ref ?s1 hr] live same obtain s' where
    s': "reply E ref hr ?m ?s1 = Ok None s'" "ref_stream ref s' = ref_stream ref s @ wire_frame hr body"
    by metis
  have "reply_dropping E ref hr ?m ?s1 = Ok None s'"
    using s'(1) by (auto simp: reply_dropping_def reply_def res_iff split: sum.splits)
  then have "worker_OnPacket E clock ref h (MGetObjectDataRequest req) s = Ok None s'"
    using uri hdr
    by (simp add: worker_OnPacket_def onGetObjectData_def object_answer_def GetObject_def Let_def const_defs
        split: option.splits)
  moreover have "unmarshalByURI E (Uri hr) body = Inr ?m"
    by (rule unmarshalByURI_roundtrip [OF rt])
      (simp add: hdr object_answer_def uri_kind_def uri_table_def const_defs)
  moreover have "objectStorage s' = objectStorage s"
    using worker_dataD(6) [of s' s] worker_data_reply [of E ref hr ?m ?s1] s'(1) by simp
  ultimately show ?thesis
    using s'(2) decode_bytes_wire_frame [OF len, of E hr "[]"] by simp
qed

lemma onGetObjectData_answers_witness:
  "\<exists>s'. worker_OnPacket (table_env [(object_answer ''o'' sample_worker, [1])]) (\<lambda>_. 0) (InConn 0)
      \<lparr>Uri = RayGetObjectData, SeqId = 9\<rparr>
      (MGetObjectDataRequest \<lparr>GetObjectDataRequest_ObjectId = ''o'', GetObjectDataRequest_RequesterId = [],
         GetObjectDataRequest_Uuid = ''u''\<rparr>) sample_worker = Ok None s'
    \<and> ref_stream (InConn 0) s' = wire_frame \<lparr>Uri = RayGetObjectDataResp, SeqId = 3\<rparr> [1]"
proof -
  let ?E = "table_env [(object_answer ''o'' sample_worker, [1])]"
  let ?req = "\<lparr>GetObjectDataRequest_ObjectId = ''o'', GetObjectDataRequest_RequesterId = [],
         GetObjectDataRequest_Uuid = ''u''\<rparr>"
  have rt: "pb_roundtrips ?E (object_answer (GetObjectDataRequest_ObjectId ?req) sample_worker) [1]"
    by (simp add: pb_roundtrips_def)
  have id: "nextID sample_worker + 1 = 3" by (simp add: sample_worker_def)
  show ?thesis
    using onGetObjectData_answers [OF transports_ok_table_env sample_worker_live(1) rt _ _ refl,
        of "\<lparr>Uri = RayGetObjectData, SeqId = 9\<rparr>" "\<lambda>_. 0"]
    unfolding id sample_worker_live(3) by auto
qed

section \<open>The report loop\<close>

definition report_msg :: "string \<Rightarrow> pb_msg" where
  "report_msg k = MReportTaskResultRequest \<lparr>ReportTaskResultRequest_TaskId = [],
     ReportTaskResultRequest_Status = [], ReportTaskResultRequest_ObjectId = k,
     ReportTaskResultRequest_ResultData = []\<rparr>"

definition report_header :: "uint64 \<Rightarrow> nat \<Rightarrow> Header" where
  "report_header seq i = \<lparr>Uri = RayReportTaskResult, SeqId = seq + 1 + word_of_nat i\<rparr>"

fun Loop_rounds :: "env \<Rightarrow> bool \<Rightarrow> nat \<Rightarrow> worker \<Rightarrow> (bool, worker) res" where
  "Loop_rounds E pick 0 s = Ok True s"
| "Loop_rounds E pick (Suc n) s =
    bind_res (worker_Loop_round E pick s)
      (\<lambda>more s1. if more then Loop_rounds E pick n s1 else Ok False s1)"

text \<open>
  Before a store has dialled the worker there is no connection to report on: the first result panics
  the loop, and with no receiver left the additions that follow fill the channel and then wait.
\<close>

lemma early_report_panics:
  assumes "gcsConn s = None" and "buf (registerObjectChan s) = k # rest" and "worker_ctxDone s \<longrightarrow> pick"
    and "\<exists>b. pb_Marshal E (MReportTaskResultRequest
      \<lparr>ReportTaskResultRequest_TaskId = [], ReportTaskResultRequest_Status = [],
       ReportTaskResultRequest_ObjectId = k, ReportTaskResultRequest_ResultData = []\<rparr>) = Inr b"
  shows "worker_Loop_round E pick s = Panic NilDeref
    (s\<lparr>registerObjectChan := (registerObjectChan s)\<lparr>buf := rest\<rparr>, nextID := nextID s + 1\<rparr>)"
  using assms by (auto simp: worker_Loop_round_def try_recv_def EncodePayload_def Let_def)

lemma full_reports_block:
  assumes "parked (registerObjectChan s) = 0" and "cap (registerObjectChan s) \<le> length (buf (registerObjectChan s))"
  shows "\<exists>t. onAddTowInt clock task s = Block t"
  using assms by (simp add: onAddTowInt_def try_send_def SetObject_def Let_def split_beta)

lemma Loop_round_live:
  assumes ok: "transports_ok E" and gcs: "gcsConn s = Some ref" and live: "ref_live ref s"
    and buf: "buf (registerObjectChan s) = k # ks" and run: "\<not> worker_ctxDone s"
    and rt: "pb_roundtrips E (report_msg k) body"
  obtains s' where "worker_Loop_round E pick s = Ok True s'"
    and "ref_stream ref s' = ref_stream ref s @ wire_frame (report_header (nextID s) 0) body"
    and "ref_live ref s'" and "nextID s' = nextID s + 1"
    and "worker_data s' = worker_data (s\<lparr>registerObjectChan := (registerObjectChan s)\<lparr>buf := ks\<rparr>\<rparr>)"
proof -
  let ?s1 = "s\<lparr>registerObjectChan := (registerObjectChan s)\<lparr>buf := ks\<rparr>, nextID := nextID s + 1\<rparr>"
  let ?h = "report_header (nextID s) 0"
  have same: "ref_live ref ?s1 = ref_live ref s" "ref_stream ref ?s1 = ref_stream ref s"
    by (cases ref; simp)+
  have live1: "ref_live ref ?s1" using live same by simp
  obtain s' where
    s': "reply E ref ?h (report_msg k) ?s1 = Ok None s'"
      "ref_stream ref s' = ref_stream ref ?s1 @ wire_frame ?h body"
      "\<And>r. ref_live r s' = ref_live r ?s1"
    by (rule reply_live [OF ok live1 rt]) blast
  have "worker_Loop_round E pick s = Ok True s'"
    using s'(1) gcs buf run
    by (auto simp: worker_Loop_round_def try_recv_def Let_def report_msg_def report_header_def reply_def res_iff
        split: sum.splits)
  moreover have "worker_data s' = worker_data ?s1"
    using worker_data_reply [of E ref ?h "report_msg k" ?s1] s'(1) by simp
  moreover have "nextID s' = nextID s + 1"
    using reply_frame(4) [of E ref ?h "report_msg k" ?s1] s'(1) by simp
  ultimately show thesis
    using that s'(2,3) same live by (simp add: worker_data_def)
qed

text \<open>
  The report loop drains the queue in order: after as many rounds as objects are queued the queue is
  empty and the GCS connection carries one report per object, in the order of registration, with
  consecutive sequence numbers.
\<close>

lemma Loop_rounds_live:
  assumes ok: "transports_ok E" and gcs: "gcsConn s = Some ref" and live: "ref_live ref s"
    and ids: "buf (registerObjectChan s) = ks" and run: "\<not> worker_ctxDone s"
    and rt: "\<forall>k \<in> set ks. pb_roundtrips E (report_msg k) (body k)"
  shows "\<exists>s'. Loop_rounds E pick (length ks) s = Ok True s' \<and> buf (registerObjectChan s') = []
    \<and> ref_stream ref s' = ref_stream ref s @
        packet_bytes (map (\<lambda>i. (report_header (nextID s) i, report_msg (ks ! i), body (ks ! i))) [0..<length ks])"
  using gcs live ids run rt
proof (induction ks arbitrary: s)
  case Nil
  then show ?case by (simp add: packet_bytes_def)
next
  case (Cons k ks)
  have rt_k: "pb_roundtrips E (report_msg k) (body k)" using Cons.prems(5) by simp
  obtain s1 where
    s1: "worker_Loop_round E pick s = Ok True s1"
      "ref_stream ref s1 = ref_stream ref s @ wire_frame (report_header (nextID s) 0) (body k)"
      "ref_live ref s1" "nextID s1 = nextID s + 1"
      "worker_data s1 = worker_data (s\<lparr>registerObjectChan := (registerObjectChan s)\<lparr>buf := ks\<rparr>\<rparr>)"
    by (rule Loop_round_live [OF ok Cons.prems(1,2,3,4) rt_k]) blast
  note d = worker_dataD [OF s1(5)]
  have "\<exists>s'. Loop_rounds E pick (length ks) s1 = Ok True s' \<and> buf (registerObjectChan s') = []
    \<and> ref_stream ref s' = ref_stream ref s1 @
        packet_bytes (map (\<lambda>i. (report_header (nextID s1) i, report_msg (ks ! i), body (ks ! i))) [0..<length ks])"
    using d Cons.prems s1(3) by (intro Cons.IH) simp_all
  then obtain s' where s': "Loop_rounds E pick (length ks) s1 = Ok True s'"
    "buf (registerObjectChan s') = []"
    "ref_stream ref s' = ref_stream ref s1 @
        packet_bytes (map (\<lambda>i. (report_header (nextID s1) i, report_msg (ks ! i), body (ks ! i))) [0..<length ks])"
    by blast
  have "report_header (nextID s1) i = report_header (nextID s) (Suc i)" for i
    by (simp add: report_header_def s1(4) algebra_simps)
  then have "packet_bytes (map (\<lambda>i. (report_header (nextID s) i, report_msg ((k # ks) ! i), body ((k # ks) ! i)))
        [0..<length (k # ks)])
      = wire_frame (report_header (nextID s) 0) (body k) @
        packet_bytes (map (\<lambda>i. (report_header (nextID s1) i, report_msg (ks ! i), body (ks ! i))) [0..<length ks])"
    by (simp add: packet_bytes_def upt_conv_Cons map_Suc_upt [symmetric] comp_def del: upt_Suc)
  then show ?case
    using s1(1,2) s' by (intro exI [of _ s']) simp
qed

section \<open>Remote objects\<close>

text \<open>
  The remote fetch never delivers: in every state the worker can be in, \<^verbatim>\<open>getRemoteObject\<close>
  returns an error, or waits (while the context is live) on a channel that is nil; it never returns
  data. Its two maps of channels were never created.
\<close>

theorem getRemoteObject_never_delivers:
  assumes "worker_inv s"
  shows "getRemoteObject E pick1 pick2 objectID u v s \<noteq> Ok (Inr objectData) s'"
proof (cases "gcsConn s")
  case None
  then show ?thesis by (simp add: getRemoteObject_def)
next
  case (Some gcs)
  let ?s1 = "s\<lparr>nextID := nextID s + 1\<rparr>"
  have nil: "getObjectLocationChan (res_state (ref_Send E gcs p ?s1)) = (\<lambda>_. None)" for p
    using worker_dataD(4) [of "res_state (ref_Send E gcs p ?s1)" s] assms by (simp add: worker_inv_def)
  show ?thesis
  proof (cases "EncodePayload E \<lparr>Uri = RayGetObjectLocation, SeqId = nextID s + 1\<rparr>
      (MGetObjectLocationRequest \<lparr>GetObjectLocationRequest_ObjectId = objectID,
         GetObjectLocationRequest_Uuid = u\<rparr>)")
    case (Inr p)
    then show ?thesis
      using Some nil [of p] by (cases "ref_Send E gcs p ?s1") (simp_all add: getRemoteObject_def Let_def)
  qed (simp add: getRemoteObject_def Let_def Some)
qed

lemma getRemoteObject_never_delivers_witness:
  "getRemoteObject (table_env []) True True ''p'' ''u'' ''v'' sample_worker
     \<noteq> Ok (Inr [1]) sample_worker"
  by (rule getRemoteObject_never_delivers [OF sample_worker_inv])

text \<open>
  C32. An answer about a location or an object stops the reader for good: in every state the worker can
  be in, if the packets that arrive before it are handled, the packet of URI 107 or 115 makes the
  goroutine that reads the connection wait on a nil channel, and nothing behind it is ever read.
\<close>

theorem remote_answers_block:
  assumes inv: "worker_inv s" and before: "deliver (worker_OnPacket E clock ref) ps s = Ok ActNone s1"
    and answer: "(Uri h = RayGetObjectLocationResp \<and> kind_of m = KGetObjectLocationResponse)
      \<or> (Uri h = RayGetObjectDataResp \<and> kind_of m = KGetObjectDataResponse)"
  shows "deliver (worker_OnPacket E clock ref) (ps @ (h, m) # qs) s = Block s1"
  using inv before
proof (induction ps arbitrary: s)
  case Nil
  have "worker_OnPacket E clock ref h m s = Block s"
    using answer Nil(1)
    by (cases m)
      (auto simp: worker_OnPacket_def onGetObjectLocationResp_def onGetObjectDataResp_def Let_def
        worker_inv_def const_defs)
  then show ?case using Nil by simp
next
  case (Cons p ps)
  then obtain s2 where p: "worker_OnPacket E clock ref (fst p) (snd p) s = Ok None s2"
    and rest: "deliver (worker_OnPacket E clock ref) ps s2 = Ok ActNone s1"
    by (auto simp: deliver_Cons split: res.splits if_splits)
  have "worker_inv s2"
    using worker_OnPacket_inv [OF Cons.prems(1), of E clock ref "fst p" "snd p"] p by simp
  then show ?case using Cons.IH [OF _ rest] p by (simp add: deliver_Cons)
qed

lemma remote_answers_block_witness:
  "deliver (worker_OnPacket (table_env []) (\<lambda>_. 0) (InConn 0))
     ([(\<lparr>Uri = MetaShakeHand, SeqId = 1\<rparr>, MShakeHandReq)]
      @ (\<lparr>Uri = RayGetObjectDataResp, SeqId = 2\<rparr>, zero_msg KGetObjectDataResponse) # []) sample_worker
   = Block sample_worker"
  by (rule remote_answers_block [OF sample_worker_inv]) (simp_all add: worker_OnPacket_def const_defs)

section \<open>Traffic\<close>

text \<open>
  The worker's invariant survives every batch of bytes, over every transport and with every
  protobuf runtime: its tables stay well-formed, the queue of reports within its capacity, and every
  stored object an encoded integer.
\<close>

theorem worker_OnTraffic_inv:
  assumes "worker_OnTraffic ops E clock ctx c s = Some (r, c')" and "worker_inv s"
  shows "worker_inv (res_state r)"
  using assms workerh.traffic_loop_inv
  by (auto simp: worker_OnTraffic_def cm_OnTraffic_def split: if_splits gnet_ctx.splits)

lemma worker_OnTraffic_inv_witness:
  "worker_inv sample_worker \<and> worker_OnTraffic buf_ops (table_env []) (\<lambda>_. 0) CtxOther [1] sample_worker
     = Some (Ok ActClose sample_worker, [1])"
proof -
  have r: "worker_OnTraffic buf_ops (table_env []) (\<lambda>_. 0) CtxOther [1] sample_worker
     = Some (Ok ActClose sample_worker, [1])"
    by (simp add: worker_OnTraffic_def cm_OnTraffic_def sample_worker_def)
  from worker_OnTraffic_inv [OF r sample_worker_inv] r show ?thesis by simp
qed

end
