(* ===== verification/RoundTrip.thy ===== *)
theory RoundTrip
  imports SchedulerSteps WorkerSpec
begin

text \<open>
  The life of a task between the scheduler and a worker: the assignment, its execution and its answer,
  composed through the bytes that each of them writes.
\<close>

lemma traffic_one_packet:
  assumes ok: "gnet_conn_ok ops content" and good: "good_packet E (hdr, m, body)"
    and bytes: "content c = wire_frame hdr body" and handled: "h hdr m s = Ok None s'"
  shows "\<exists>c'. traffic_loop ops E h c s = Some (Ok ActNone s', c')"
proof -
  have "\<not> frame_ready []" by (simp add: frame_ready_def)
  then show ?thesis
    using traffic_loop_run_bytes [OF ok, of E h c s] run_bytes_packet [OF good, of h "[]" s] handled bytes
    by (auto simp: run_bytes_not_ready)
qed

lemma client_OnPacket_established:
  assumes "cl_established (outb s a)" and "handlerMode (outb s a) \<noteq> None"
    and "Uri h \<notin> {MetaEstablishAck, MetaShakeHand, MetaShakeHandResp}"
    and "handlePacket (OutConn a) h msg (set_outb a s ((outb s a)\<lparr>lastRecv := now, nextDial := now + hour\<rparr>)) = Ok err s'"
  shows "client_OnPacket now handlePacket a h msg s = Ok err s'"
  using assms by (auto simp: client_OnPacket_def client_receive_def Let_def)

text \<open>The three legs of the way: out to the only worker, through the worker, back into the queue.\<close>

lemma assignment_sent:
  assumes queue: "buf (taskChan s) = task # rest"
    and crew: "workerConns s = [k \<mapsto> OutConn a]" and live: "ref_live (OutConn a) s"
    and node: "handlerMode (outb s a) \<noteq> None" and ok: "transports_ok E"
    and rt: "pb_roundtrips E (MAssignTaskRequest (assign_request task)) body"
  obtains s1 where "scheduler_Loop_round E [k] s = Ok () s1"
    and "ref_stream (OutConn a) s1 = ref_stream (OutConn a) s
      @ wire_frame \<lparr>Uri = RayAssignTask, SeqId = nextID s + 1\<rparr> body"
    and "handlerMode (outb s1 a) \<noteq> None" "cl_established (outb s1 a)" "workerConns s1 = workerConns s"
    and "taskChan s1 = (taskChan s)\<lparr>buf := rest\<rparr>" "pendingTasks s1 = (pendingTasks s)(ID task \<mapsto> task)"
proof -
  let ?r = "OutConn a" and ?req = "assign_request task"
  let ?s0 = "s\<lparr>taskChan := (taskChan s)\<lparr>buf := rest\<rparr>, pendingTasks := (pendingTasks s)(ID task \<mapsto> task)\<rparr>"
  have live0: "ref_live ?r ?s0" using live by simp
  obtain s1 where s1: "handleServerReq E ?r (MAssignTaskRequest ?req) ?s0 = Ok None s1"
    "ref_stream ?r s1 = ref_stream ?r ?s0 @ wire_frame \<lparr>Uri = RayAssignTask, SeqId = nextID ?s0 + 1\<rparr> body"
    "\<And>r. ref_live r s1 = ref_live r ?s0" "workerConns s1 = workerConns ?s0" "taskChan s1 = taskChan ?s0"
    "pendingTasks s1 = pendingTasks ?s0"
    by (rule handleServerReq_live [OF ok live0 rt]) blast
  have "scheduler_Loop_round E [k] s = Ok () s1"
    using s1(1) queue crew by (simp add: scheduler_Loop_round_def AssignTask_def try_recv_def chan_len_def)
  moreover have "heap_steps E ?s0 (res_state (handleServerReq E ?r (MAssignTaskRequest ?req) ?s0))"
    by (rule handleServerReq_heap [OF heap_refl])
  then have "handlerMode (outb s1 a) \<noteq> None"
    using s1(1) node by (auto simp: heap_steps_def dest!: spec [of _ a] client_steps_who simp: who_def)
  moreover have "cl_established (outb s1 a)" using s1(3) [of ?r] live0 by simp
  ultimately show thesis using that [of s1] s1 by simp
qed

lemma empty_addition_refused:
  assumes task: "FuncName task = TaskFuncAddTowInt" "Args task = []" and ok: "transports_ok E"
    and rt: "pb_roundtrips E (assign_answer (ID task) False) body" and live: "ref_live wref w"
    and room: "length (buf (registerObjectChan w)) < chan_slots (registerObjectChan w)"
  obtains w1 where "worker_OnPacket E clock wref \<lparr>Uri = RayAssignTask, SeqId = seq\<rparr>
      (MAssignTaskRequest (assign_request task)) w = Ok None w1"
    and "objectStorage w1 = (objectStorage w)(object_name clock task w \<mapsto> \<lparr>ObjType = ObjectTypeInt, ObjData = EncodeInt 0\<rparr>)"
    and "buf (registerObjectChan w1) = buf (registerObjectChan w) @ [object_name clock task w]"
    and "ref_stream wref w1 = ref_stream wref w @ wire_frame \<lparr>Uri = RayAssignTaskResp, SeqId = seq\<rparr> body"
proof -
  let ?h = "\<lparr>Uri = RayAssignTask, SeqId = seq\<rparr>"
  define t where "t = \<lparr>ID = ID task, FuncName = FuncName task, Args = [], ArgsType = [], Dependencies = []\<rparr>"
  have t: "FuncName t = TaskFuncAddTowInt" "AddTowIntFunc t = (0, Some ErrArgNum)"
    "ID t = ID task" "object_name clock t w = object_name clock task w"
    using task by (simp_all add: t_def AddTowIntFunc_def object_name_def)
  have run: "worker_OnPacket E clock wref ?h (MAssignTaskRequest (assign_request task)) w
      = bind_res (dispatch_task clock t w) (\<lambda>err s2. answer_assign E wref (SeqId ?h) (ID t) err s2)"
    using onAssignTask_plain [of "assign_request task" E clock wref ?h w] task
    by (simp add: worker_OnPacket_def assign_request_def t_def const_defs)
  have "pb_roundtrips E (assign_answer (ID t) (Some ErrArgNum = None)) body" using rt t(3) by simp
  from run_addTowInt [OF t(1,2) room ok live this, of clock "SeqId ?h"] show thesis
    using that unfolding run t(4) by auto
qed

lemma refusal_requeued:
  assumes inv: "length rest < chan_slots (taskChan s)"
    and queue: "buf (taskChan s) = rest" and pending: "pendingTasks s (ID task) = Some task"
    and home: "handlerMode (outb s a) \<noteq> None" "cl_established (outb s a)"
  obtains s2 where "client_OnPacket now (scheduler_HandlePacket E) a \<lparr>Uri = RayAssignTaskResp, SeqId = seq\<rparr>
      (assign_answer (ID task) False) s = Ok None s2"
    and "buf (taskChan s2) = rest @ [task]" "pendingTasks s2 = (pendingTasks s)(ID task := None)"
    and "workerConns s2 = workerConns s"
proof -
  let ?h = "\<lparr>Uri = RayAssignTaskResp, SeqId = seq\<rparr>"
  let ?s1 = "set_outb a s ((outb s a)\<lparr>lastRecv := now, nextDial := now + hour\<rparr>)"
  let ?s2 = "?s1\<lparr>pendingTasks := (pendingTasks s)(ID task := None), taskChan := (taskChan s)\<lparr>buf := rest @ [task]\<rparr>\<rparr>"
  have "pendingTasks ?s1 (ID task) = Some task" using pending by (simp add: set_outb_def)
  from rejection_pending [OF this, of ?h E "OutConn a"]
  have "scheduler_HandlePacket E (OutConn a) ?h (assign_answer (ID task) False) ?s1 = Ok None ?s2"
    using inv queue
    by (simp add: scheduler_HandlePacket_def rejection_def assign_answer_def PushTask_def try_send_def
        set_outb_def chan_slots_def)
  from client_OnPacket_established [where handlePacket = "scheduler_HandlePacket E" and now = now, OF home(2,1) _ this]
  have "client_OnPacket now (scheduler_HandlePacket E) a ?h (assign_answer (ID task) False) s = Ok None ?s2"
    by (simp add: const_defs)
  then show thesis by (rule that) (simp_all add: set_outb_def)
qed

text \<open>
  C13. An addition without arguments comes back to the scheduler. Let one worker be registered, everything
  live, and such a task be the oldest of the queue. One round sends it to the worker in one frame; read
  by the worker, the frame makes it store a zero under a new id, queue the id for a report, and
  answer with one frame; read by the scheduler's connection, this answer puts the task back at the
  tail of the queue with nothing pending under its id. With no other task the queue is the one the
  round began with.
\<close>

theorem empty_addition_bounces:
  assumes inv: "scheduler_inv s" and queue: "buf (taskChan s) = task # rest"
    and crew: "workerConns s = [k \<mapsto> OutConn a]" and live: "ref_live (OutConn a) s"
    and node: "handlerMode (outb s a) \<noteq> None"
    and task: "FuncName task = TaskFuncAddTowInt" "Args task = []"
    and ok: "transports_ok E"
    and rt: "pb_roundtrips E (MAssignTaskRequest (assign_request task)) body" "length body < 2 ^ 32 - 10"
      "pb_roundtrips E (assign_answer (ID task) False) body'" "length body' < 2 ^ 32 - 10"
    and conn: "gnet_conn_ok ops content"
    and up: "started w" and wlive: "ref_live wref w"
    and room: "length (buf (registerObjectChan w)) < chan_slots (registerObjectChan w)"
  shows "\<exists>s1 bs w1 as s2. scheduler_Loop_round E [k] s = Ok () s1
    \<and> ref_stream (OutConn a) s1 = ref_stream (OutConn a) s @ bs
    \<and> (\<forall>c. content c = bs \<longrightarrow> (\<exists>c'. worker_OnTraffic ops E clock (CtxConn wref) c w = Some (Ok ActNone w1, c')))
    \<and> objectStorage w1 = (objectStorage w)(object_name clock task w \<mapsto> \<lparr>ObjType = ObjectTypeInt, ObjData = EncodeInt 0\<rparr>)
    \<and> buf (registerObjectChan w1) = buf (registerObjectChan w) @ [object_name clock task w]
    \<and> ref_stream wref w1 = ref_stream wref w @ as
    \<and> (\<forall>c. content c = as \<longrightarrow> (\<exists>c'. eventHandler_OnTraffic ops E (client_OnPacket now (scheduler_HandlePacket E))
          (CtxConn a) c s1 = Some (Ok ActNone s2, c')))
    \<and> buf (taskChan s2) = rest @ [task] \<and> pendingTasks s2 = (pendingTasks s)(ID task := None)
    \<and> workerConns s2 = workerConns s"
proof -
  let ?h = "\<lparr>Uri = RayAssignTask, SeqId = nextID s + 1\<rparr>" and ?h' = "\<lparr>Uri = RayAssignTaskResp, SeqId = nextID s + 1\<rparr>"
  obtain s1 where s1: "scheduler_Loop_round E [k] s = Ok () s1"
    "ref_stream (OutConn a) s1 = ref_stream (OutConn a) s @ wire_frame ?h body"
    "handlerMode (outb s1 a) \<noteq> None" "cl_established (outb s1 a)" "workerConns s1 = workerConns s"
    "taskChan s1 = (taskChan s)\<lparr>buf := rest\<rparr>" "pendingTasks s1 = (pendingTasks s)(ID task \<mapsto> task)"
    by (rule assignment_sent [OF queue crew live node ok rt(1)])
  obtain w1 where w1: "worker_OnPacket E clock wref ?h (MAssignTaskRequest (assign_request task)) w = Ok None w1"
    "objectStorage w1 = (objectStorage w)(object_name clock task w \<mapsto> \<lparr>ObjType = ObjectTypeInt, ObjData = EncodeInt 0\<rparr>)"
    "buf (registerObjectChan w1) = buf (registerObjectChan w) @ [object_name clock task w]"
    "ref_stream wref w1 = ref_stream wref w @ wire_frame ?h' body'"
    by (rule empty_addition_refused [OF task ok rt(3) wlive room])
  have "length rest < chan_slots (taskChan s1)" "buf (taskChan s1) = rest" "pendingTasks s1 (ID task) = Some task"
    using inv queue s1(6,7) by (simp_all add: scheduler_inv_def chan_slots_def)
  then obtain s2 where s2: "client_OnPacket now (scheduler_HandlePacket E) a ?h' (assign_answer (ID task) False) s1 = Ok None s2"
    "buf (taskChan s2) = rest @ [task]" "pendingTasks s2 = (pendingTasks s1)(ID task := None)"
    "workerConns s2 = workerConns s1"
    by (rule refusal_requeued [OF _ _ _ s1(3,4)])
  have good: "good_packet E (?h, MAssignTaskRequest (assign_request task), body)"
    "good_packet E (?h', assign_answer (ID task) False, body')"
    using rt by (simp_all add: good_packet_def assign_answer_def uri_kind_def uri_table_def const_defs)
  note legs = traffic_one_packet [where h = "worker_OnPacket E clock wref", OF conn good(1) _ w1(1)]
    traffic_one_packet [where h = "client_OnPacket now (scheduler_HandlePacket E) a", OF conn good(2) _ s2(1)]
  show ?thesis
    using s1 w1 s2 legs up
    by (intro exI [of _ s1] exI [of _ "wire_frame ?h body"] exI [of _ w1] exI [of _ "wire_frame ?h' body'"] exI [of _ s2])
      (simp add: worker_OnTraffic_def cm_OnTraffic_def eventHandler_OnTraffic_def)
qed

definition no_args :: Task where
  "no_args = sample_task\<lparr>Args := []\<rparr>"

definition bouncing :: scheduler where
  "bouncing = sample_scheduler
     \<lparr>workerConns := [''w1'' \<mapsto> OutConn 0], taskChan := \<lparr>cap = 1, buf = [no_args], parked = 0\<rparr>\<rparr>"

lemma empty_addition_bounces_witness:
  "let E = table_env [(MAssignTaskRequest (assign_request no_args), [7]), (assign_answer ''t1'' False, [9])] in
    \<exists>s1 bs w1 as s2 c1 c2. scheduler_Loop_round E [''w1''] bouncing = Ok () s1
      \<and> ref_stream (OutConn 0) s1 = ref_stream (OutConn 0) bouncing @ bs
      \<and> worker_OnTraffic buf_ops E (\<lambda>_. 0) (CtxConn (InConn 0)) bs sample_worker = Some (Ok ActNone w1, c1)
      \<and> ref_stream (InConn 0) w1 = ref_stream (InConn 0) sample_worker @ as
      \<and> eventHandler_OnTraffic buf_ops E (client_OnPacket 0 (scheduler_HandlePacket E)) (CtxConn 0) as s1
          = Some (Ok ActNone s2, c2)
      \<and> buf (taskChan s2) = buf (taskChan bouncing)"
proof -
  let ?E = "table_env [(MAssignTaskRequest (assign_request no_args), [7]), (assign_answer ''t1'' False, [9])]"
  have inv: "scheduler_inv bouncing"
    by (simp add: scheduler_inv_def node_inv_def bouncing_def sample_scheduler_simps chan_slots_def)
  have s: "buf (taskChan bouncing) = no_args # []" "workerConns bouncing = [''w1'' \<mapsto> OutConn 0]"
    "ref_live (OutConn 0) bouncing" "handlerMode (outb bouncing 0) \<noteq> None"
    by (simp_all add: bouncing_def sample_scheduler_simps)
  have t: "FuncName no_args = TaskFuncAddTowInt" "Args no_args = []" "ID no_args = ''t1''"
    by (simp_all add: no_args_def sample_task_def)
  have rt: "pb_roundtrips ?E (MAssignTaskRequest (assign_request no_args)) [7]" "length [7 :: byte] < 2 ^ 32 - 10"
    "pb_roundtrips ?E (assign_answer (ID no_args) False) [9]" "length [9 :: byte] < 2 ^ 32 - 10"
    by (simp_all add: pb_roundtrips_def assign_answer_def t)
  have w: "started sample_worker" "ref_live (InConn 0) sample_worker"
    "length (buf (registerObjectChan sample_worker)) < chan_slots (registerObjectChan sample_worker)"
    by (simp_all add: sample_worker_def newConnection_def chan_slots_def)
  show ?thesis
    using empty_addition_bounces [OF inv s t(1,2) transports_ok_table_env rt buf_ops_ok w, of "\<lambda>_. 0" 0] s(1)
    unfolding Let_def by auto
qed
end
