(* ===== verification/WireSpec.thy ===== *)
theory WireSpec
  imports Conn Sample_Env
begin

text \<open>
  What the wire format and the read loop promise over every transport that meets the gnet contract:
  round trips, dispatch, delivery in order, independence of segmentation, and the one kind of
  frame that wedges a connection.
\<close>

section \<open>Frames and packets\<close>

text \<open>
  The outer frame round-trips: whatever non-empty payload below 4 GiB was framed, and whatever
  follows it, \<^verbatim>\<open>ReadFrameFromGnet\<close> returns this payload and consumes exactly its frame; while any
  proper prefix of a frame is buffered it returns nothing and consumes nothing.
\<close>

theorem frame_roundtrip:
  assumes ok: "gnet_conn_ok ops content" and p: "0 < length p" "length p < 2 ^ 32"
  shows "(content c = MakeFrame p @ rest \<longrightarrow>
      fst (ReadFrameFromGnet ops c) = (p, True) \<and> content (snd (ReadFrameFromGnet ops c)) = rest)
    \<and> (k < length (MakeFrame p) \<longrightarrow> content c = take k (MakeFrame p) \<longrightarrow>
      ReadFrameFromGnet ops c = (([], False), c))"
proof (intro conjI impI)
  assume k: "k < length (MakeFrame p)" and c: "content c = take k (MakeFrame p)"
  have len: "length (content c) = k" using k c by simp
  have "length (content c) < 4 \<or> length (content c) < 4 + unat (Uint32 (content c))"
  proof (cases "k < 4")
    case False
    then have "Uint32 (content c) = Uint32 (MakeFrame p)" by (simp add: c Uint32_def)
    also have "\<dots> = word_of_nat (length p)" using Uint32_MakeFrame [of p "[]"] by simp
    finally show ?thesis using unat_length_word [OF p(2)] k len by simp
  qed (simp add: len)
  then show "ReadFrameFromGnet ops c = (([], False), c)" by (rule ReadFrame_incomplete [OF ok])
qed (use ReadFrame_MakeFrame [OF ok _ p] in blast)+

lemma frame_roundtrip_witness:
  "fst (ReadFrameFromGnet buf_ops (MakeFrame [1, 2] @ [9])) = ([1, 2], True)
    \<and> ReadFrameFromGnet buf_ops (take 5 (MakeFrame [1, 2])) = (([], False), take 5 (MakeFrame [1, 2]))"
  using frame_roundtrip [OF buf_ops_ok, of "[1, 2]" "MakeFrame [1, 2] @ [9]" "[9]" 0]
    frame_roundtrip [OF buf_ops_ok, of "[1, 2]" "take 5 (MakeFrame [1, 2])" "[9]" 5]
  by simp

text \<open>
  C17. The packet format round-trips: a message encoded under the URI of its type and framed is decoded
  by \<^verbatim>\<open>ZeroCopyDecode\<close>, over every transport, to the same header and the same message, and what
  follows it in the stream is left untouched.
\<close>

theorem packet_roundtrip:
  assumes ok: "gnet_conn_ok ops content" and enc: "EncodePayload E h m = Inr p"
    and rt: "pb_roundtrips E m body" and uri: "uri_kind (Uri h) = Some (kind_of m)"
    and len: "length body < 2 ^ 32 - 10" and c: "content c = MakeFrame p @ rest"
  shows "fst (ZeroCopyDecode ops E c) = Inr (h, m) \<and> content (snd (ZeroCopyDecode ops E c)) = rest"
proof -
  have "pb_Marshal E m = Inr body" using rt by (simp add: pb_roundtrips_def)
  then have "MakeFrame p = wire_frame h body" using enc by (rule wire_frame_EncodePayload)
  then show ?thesis
    using ZeroCopyDecode_refines [OF ok, of E c] decode_bytes_wire_frame [OF len, of E h rest]
      unmarshalByURI_roundtrip [OF rt uri] c
    by simp
qed

lemma packet_roundtrip_witness:
  "fst (ZeroCopyDecode buf_ops (table_env [(MShakeHandReq, [])])
      (MakeFrame (PutUint16 3 @ PutUint64 7 @ []) @ [1]))
    = Inr (\<lparr>Uri = 3, SeqId = 7\<rparr>, MShakeHandReq)"
proof -
  let ?E = "table_env [(MShakeHandReq, [])]" and ?h = "\<lparr>Uri = 3, SeqId = 7\<rparr>"
  have "EncodePayload ?E ?h MShakeHandReq = Inr (PutUint16 3 @ PutUint64 7 @ [])"
    by (simp add: EncodePayload_def)
  moreover have "pb_roundtrips ?E MShakeHandReq []" by (simp add: pb_roundtrips_def)
  moreover have "uri_kind (Uri ?h) = Some (kind_of MShakeHandReq)" by (simp add: uri_kind_def uri_table_def)
  ultimately show ?thesis
    using packet_roundtrip [OF buf_ops_ok, of ?E ?h MShakeHandReq _ "[]" _ "[1]"] by simp
qed

lemma known_uris: "uri_kind u \<noteq> None \<longleftrightarrow> unat u \<in> {1..4} \<union> {100..115}"
proof -
  have "inj (unat :: uint16 \<Rightarrow> nat)" by (simp add: inj_on_def word_unat_eq_iff)
  then have "uri_kind u \<noteq> None \<longleftrightarrow> unat u \<in> unat ` fst ` set uri_table"
    by (simp only: inj_image_mem_iff) (simp add: uri_kind_def map_of_eq_None_iff)
  also have "unat ` fst ` set uri_table = set [1..<5] \<union> set [100..<116]" by (simp add: uri_table_def) code_simp
  also have "set [1..<5] \<union> set [100..<116] = {1..4} \<union> {100..115::nat}"
    by (auto simp only: set_upt atLeastLessThan_iff atLeastAtMost_iff Un_iff)
  finally show ?thesis .
qed

text \<open>
  C29. Dispatch by URI is a bijection between the known URIs and the message types. For every message that
  the runtime can decode again there is exactly one URI under which its body decodes to it; two decoded
  messages have the same type just if their URIs are the same; under each of the URIs 1 to 4 and 100 to
  115 every body goes to the runtime, for one type of message; and every other URI is refused with an
  error that names it, whatever the body.
\<close>

theorem uri_dispatch:
  assumes "pb_typed E" and "pb_roundtrips E m body"
  shows "(\<exists>!v. unmarshalByURI E v body = Inr m)
    \<and> (\<forall>v w b b' m1 m2. unmarshalByURI E v b = Inr m1 \<and> unmarshalByURI E w b' = Inr m2 \<longrightarrow>
        (kind_of m1 = kind_of m2 \<longleftrightarrow> v = w))
    \<and> (if unat u \<in> {1..4} \<union> {100..115}
       then \<exists>k. uri_kind u = Some k \<and> (\<forall>b. unmarshalByURI E u b = unmarshal_new E k b)
       else \<forall>b. unmarshalByURI E u b = Inl (if u \<ge> 100 then ErrNotRayUri u else ErrUnknownUri u, None))"
proof -
  have kinds: "uri_kind v = Some (kind_of m')" if "unmarshalByURI E v b = Inr m'" for v b m'
    using unmarshalByURI_kind [OF assms(1) that] .
  have "kind_of m \<in> snd ` set uri_table" by (cases "kind_of m") (simp_all add: uri_table_def)
  then obtain v where "(v, kind_of m) \<in> set uri_table" by auto
  moreover have "distinct (map fst uri_table)" by (simp add: uri_table_def)
  ultimately have "uri_kind v = Some (kind_of m)" by (simp add: uri_kind_def)
  then have "\<exists>!v. unmarshalByURI E v body = Inr m"
    using unmarshalByURI_roundtrip [OF assms(2)] kinds uri_kind_inj by blast
  moreover have "kind_of m1 = kind_of m2 \<longleftrightarrow> v = w"
    if "unmarshalByURI E v b = Inr m1" "unmarshalByURI E w b' = Inr m2" for v w b b' m1 m2
    using kinds [OF that(1)] kinds [OF that(2)] uri_kind_inj by auto
  moreover have "if uri_kind u \<noteq> None
      then \<exists>k. uri_kind u = Some k \<and> (\<forall>b. unmarshalByURI E u b = unmarshal_new E k b)
      else \<forall>b. unmarshalByURI E u b = Inl (if u \<ge> 100 then ErrNotRayUri u else ErrUnknownUri u, None)"
    by (auto simp: unmarshalByURI_uri_kind)
  ultimately show ?thesis unfolding known_uris by blast
qed

lemma uri_dispatch_witness:
  "(\<exists>!v. unmarshalByURI (table_env [(MShakeHandReq, [])]) v [] = Inr MShakeHandReq)
    \<and> unmarshalByURI (table_env [(MShakeHandReq, [])]) 116 [1] = Inl (ErrNotRayUri 116, None)"
proof -
  let ?E = "table_env [(MShakeHandReq, [])]"
  have "pb_typed ?E" by (rule pb_typed_table_env)
  moreover have "pb_roundtrips ?E MShakeHandReq []" by (simp add: pb_roundtrips_def)
  ultimately show ?thesis using uri_dispatch [of ?E MShakeHandReq "[]" 116] by (simp add: word_le_nat_alt)
qed

section \<open>The read loop\<close>

text \<open>
  C18. The read loop always returns, and it delivers: on a stream of complete good packets followed by
  an incomplete rest, over every transport, the packets reach the handler in order, one by one, up
  to the first error, panic or wait, and the result is the one of that sequence of calls.
\<close>

theorem traffic_delivers:
  assumes ok: "gnet_conn_ok ops content" and good: "list_all (good_packet E) pks"
    and c: "content c = packet_bytes pks @ rest" and rest: "\<not> frame_ready rest"
  shows "\<exists>c'. eventHandler_OnTraffic ops E h (CtxConn conn) c s
    = Some (deliver (h conn) (packet_msgs pks) s, c')"
  using traffic_loop_run_bytes [OF ok, of E "h conn" c s] run_bytes_packets [OF good rest, of "h conn" s] c
  by (auto simp: eventHandler_OnTraffic_def)

definition count_handler :: "unit \<Rightarrow> nat handler" where
  "count_handler u = (\<lambda>hdr m n. Ok None (Suc n))"

lemma traffic_delivers_witness:
  "\<exists>c'. eventHandler_OnTraffic buf_ops (table_env [(MShakeHandReq, [])]) count_handler (CtxConn ())
      (wire_frame \<lparr>Uri = 3, SeqId = 7\<rparr> [] @ [0]) 0 = Some (Ok ActNone 1, c')"
proof -
  let ?E = "table_env [(MShakeHandReq, [])]"
  let ?pks = "[(\<lparr>Uri = 3, SeqId = 7\<rparr>, MShakeHandReq, [])]"
  have good: "list_all (good_packet ?E) ?pks"
    by (simp add: good_packet_def pb_roundtrips_def uri_kind_def uri_table_def)
  have "\<not> frame_ready [0]" by (simp add: frame_ready_def)
  from traffic_delivers [OF buf_ops_ok good _ this, of _ count_handler "()" 0]
  show ?thesis by (simp add: packet_bytes_def packet_msgs_def count_handler_def)
qed

text \<open>
  C19. Segmentation does not matter: if the loop returns without an action on the bytes that arrived so
  far and is run again when more have arrived, it ends with the same result, and the same bytes left
  over, as one run on all the bytes.
\<close>

theorem traffic_segmentation:
  assumes ok: "gnet_conn_ok ops content" and ns: "pb_no_short E"
    and first: "traffic_loop ops E h c s = Some (Ok ActNone s1, c1)"
    and more: "content d = content c1 @ x" and whole: "content e = content c @ x"
  shows "\<exists>r d' e'. traffic_loop ops E h d s1 = Some (r, d') \<and> traffic_loop ops E h e s = Some (r, e')
    \<and> content d' = content e'"
proof -
  have "run_bytes E h (content c) s = (Ok ActNone s1, content c1)"
    using traffic_loop_run_bytes [OF ok, of E h c s] first by (auto simp: prod_eq_iff)
  then have "run_bytes E h (content e) s = run_bytes E h (content d) s1"
    using run_bytes_append [OF ns, of h "content c" x s] more whole by simp
  then show ?thesis
    using traffic_loop_run_bytes [OF ok, of E h d s1] traffic_loop_run_bytes [OF ok, of E h e s] by auto
qed

lemma traffic_segmentation_witness:
  "\<exists>r c1 d' e'. traffic_loop buf_ops (table_env [(MShakeHandReq, [])]) (count_handler ())
        (wire_frame \<lparr>Uri = 3, SeqId = 7\<rparr> [] @ [0]) 0 = Some (Ok ActNone 1, c1)
    \<and> traffic_loop buf_ops (table_env [(MShakeHandReq, [])]) (count_handler ())
        (c1 @ tl (wire_frame \<lparr>Uri = 3, SeqId = 8\<rparr> [])) 1 = Some (r, d')
    \<and> traffic_loop buf_ops (table_env [(MShakeHandReq, [])]) (count_handler ())
        (wire_frame \<lparr>Uri = 3, SeqId = 7\<rparr> [] @ [0] @ tl (wire_frame \<lparr>Uri = 3, SeqId = 8\<rparr> [])) 0 = Some (r, e')
    \<and> d' = e'"
proof -
  let ?E = "table_env [(MShakeHandReq, [])]" and ?x = "tl (wire_frame \<lparr>Uri = 3, SeqId = 8\<rparr> [])"
  let ?pks = "[(\<lparr>Uri = 3, SeqId = 7\<rparr>, MShakeHandReq, [])]"
  have good: "list_all (good_packet ?E) ?pks"
    by (simp add: good_packet_def pb_roundtrips_def uri_kind_def uri_table_def)
  have "\<not> frame_ready [0]" by (simp add: frame_ready_def)
  note run = run_bytes_packets [OF good this, of "count_handler ()" 0]
  obtain c1 where first: "traffic_loop buf_ops ?E (count_handler ()) (wire_frame \<lparr>Uri = 3, SeqId = 7\<rparr> [] @ [0]) 0 = Some (Ok ActNone 1, c1)"
    using traffic_loop_run_bytes [OF buf_ops_ok, of ?E "count_handler ()" "wire_frame \<lparr>Uri = 3, SeqId = 7\<rparr> [] @ [0]" 0] run
    by (auto simp: packet_bytes_def packet_msgs_def count_handler_def prod_eq_iff)
  have "\<exists>r d' e'. traffic_loop buf_ops ?E (count_handler ()) (c1 @ ?x) 1 = Some (r, d')
      \<and> traffic_loop buf_ops ?E (count_handler ()) (wire_frame \<lparr>Uri = 3, SeqId = 7\<rparr> [] @ [0] @ ?x) 0 = Some (r, e') \<and> d' = e'"
    by (rule traffic_segmentation [OF buf_ops_ok pb_no_short_table_env first, where x = ?x]) simp_all
  with first show ?thesis by blast
qed

text \<open>
  C39. A frame whose length field is below ten wedges its connection: whatever arrives after it, the
  loop takes it for an incomplete frame, delivers nothing, consumes nothing and reports nothing.
\<close>

theorem short_frame_wedges:
  assumes ok: "gnet_conn_ok ops content" and c: "content c = PutUint32 n @ x" and n: "unat n < 10"
  shows "\<exists>c'. traffic_loop ops E h c s = Some (Ok ActNone s, c') \<and> content c' = content c"
proof -
  have "\<not> frame_ready (content c)" using n by (simp add: frame_ready_def frame_len_def c)
  then show ?thesis
    using traffic_loop_run_bytes [OF ok, of E h c s] by (simp add: run_bytes_not_ready)
qed

lemma short_frame_wedges_witness:
  "\<exists>c'. traffic_loop buf_ops (table_env []) (count_handler ())
      (PutUint32 2 @ ([1, 2] @ wire_frame \<lparr>Uri = 3, SeqId = 7\<rparr> [])) 0 = Some (Ok ActNone 0, c')"
  using short_frame_wedges [OF buf_ops_ok refl, of 2 "table_env []" "count_handler ()"
      "[1, 2] @ wire_frame \<lparr>Uri = 3, SeqId = 7\<rparr> []" 0] by auto

section \<open>Writing\<close>

text \<open>
  \<^verbatim>\<open>writeFull\<close> over a transport that keeps the contract of \<^verbatim>\<open>io.Writer\<close> always returns, after
  at most one call of \<^verbatim>\<open>Write\<close>: without an error the whole slice has been written, with an error
  a prefix of it.
\<close>

theorem writeFull_contract:
  assumes "writer_ok E"
  shows "\<exists>err tr' k. writeFull E w b tr = Some (Ok err tr') \<and> length tr' \<le> Suc (length tr)
    \<and> written tr' = written tr @ take k b \<and> (err = None \<longrightarrow> written tr' = written tr @ b)"
proof (cases "b = []")
  case True
  then show ?thesis by (simp add: writeFull.simps [of E w "[]" tr])
next
  case False
  let ?r = "NetWriteRes E (length tr) w b"
  have ret: "writeFull E w b tr = Some (Ok (snd ?r) (tr @ [NetWrite w b (fst ?r) (snd ?r)]))"
    by (rule writeFull_once [OF assms False])
  then show ?thesis using writeFull_written [OF ret] by auto
qed

lemma writeFull_contract_witness:
  "\<exists>err tr'. writeFull (table_env []) 3 [1, 2] [] = Some (Ok err tr')"
proof -
  have "writer_ok (table_env [])" by (simp add: writer_ok_def)
  from writeFull_contract [OF this, of 3 "[1, 2]" "[]"] show ?thesis by blast
qed

end
