(* ===== verification/Says.thy ===== *)
theory Says
  imports NodeSteps
begin

text \<open>
  What a node says. A speech \<open>P\<close> tells which packets may be written on which connection;
  \<open>says E P s t\<close> states that from \<open>s\<close> to \<open>t\<close> every connection's trace has only grown, and that each
  write in what was added is one frame of a packet of \<open>P\<close> (or the empty frame, which the code
  sends when an encoding has failed). This is \<open>heap_steps\<close> at the level of messages.
\<close>

section \<open>Traces\<close>

type_synonym speech = "conn_ref \<Rightarrow> Header \<Rightarrow> pb_msg \<Rightarrow> bool"

text \<open>The questions that \<^verbatim>\<open>getRemoteObject\<close> would ask, and their answers; nothing calls it.\<close>

definition fetches :: "Header \<Rightarrow> bool" where
  "fetches h \<longleftrightarrow> Uri h = RayGetObjectLocation \<or> Uri h = RayGetObjectLocationResp
     \<or> Uri h = RayGetObjectData \<or> Uri h = RayGetObjectDataResp"

definition payload_of :: "env \<Rightarrow> (Header \<Rightarrow> pb_msg \<Rightarrow> bool) \<Rightarrow> byte list \<Rightarrow> bool" where
  "payload_of E P p \<longleftrightarrow> p = [] \<or> (\<exists>h m. P h m \<and> EncodePayload E h m = Inr p)"

fun utters :: "env \<Rightarrow> (Header \<Rightarrow> pb_msg \<Rightarrow> bool) \<Rightarrow> io_event \<Rightarrow> bool" where
  "utters E P (AsyncWrite g b err) = (\<exists>p. payload_of E P p \<and> b = MakeFrame p)"
| "utters E P (NetWrite w b n err) = True"
| "utters E P (GnetClose g) = True"
| "utters E P (NetClose w) = True"

definition longer :: "env \<Rightarrow> (Header \<Rightarrow> pb_msg \<Rightarrow> bool) \<Rightarrow> io_event list \<Rightarrow> io_event list \<Rightarrow> bool" where
  "longer E P tr tr' \<longleftrightarrow> (\<exists>ev. tr' = tr @ ev \<and> list_all (utters E P) ev)"

lemma payload_empty [simp]: "payload_of E P []"
  by (simp add: payload_of_def)

lemma payload_encoded: "P h m \<Longrightarrow> EncodePayload E h m = Inr p \<Longrightarrow> payload_of E P p"
  unfolding payload_of_def by blast

lemma payload_mono: "payload_of E P p \<Longrightarrow> (\<And>h m. P h m \<Longrightarrow> Q h m) \<Longrightarrow> payload_of E Q p"
  unfolding payload_of_def by blast

lemma utters_mono: "utters E P e \<Longrightarrow> (\<And>h m. P h m \<Longrightarrow> Q h m) \<Longrightarrow> utters E Q e"
  by (cases e) (auto intro: payload_mono)

lemma longer_refl [simp]: "longer E P tr tr"
  by (simp add: longer_def)

lemma longer_trans: "longer E P a b \<Longrightarrow> longer E P b c \<Longrightarrow> longer E P a c"
  by (auto simp: longer_def)

lemma longer_mono: "longer E P a b \<Longrightarrow> (\<And>h m. P h m \<Longrightarrow> Q h m) \<Longrightarrow> longer E Q a b"
  unfolding longer_def by (metis list.pred_mono_strong utters_mono)

lemma longer_event: "utters E P e \<Longrightarrow> longer E P tr (tr @ [e])"
  by (simp add: longer_def)

section \<open>Connections\<close>

lemma longer_write [intro]: "payload_of E P p \<Longrightarrow> longer E P tr (tr @ [AsyncWrite g (MakeFrame p) err])"
  by (rule longer_event) auto

lemma writeFull_longer:
  assumes "writeFull E w b tr = Some r"
  shows "longer E P tr (res_state r)"
proof (rule writeFull.raw_induct [where P = "\<lambda>E w b tr r. longer E P tr (res_state r)", OF _ assms])
  fix f E w b tr r
  assume IH: "\<And>E w b tr r. f E w b tr = Some r \<Longrightarrow> longer E P tr (res_state r)"
    and eq: "(if b = [] then Some (Ok None tr)
     else case NetWriteRes E (length tr) w b of (n, err) \<Rightarrow>
       (if err \<noteq> None then Some (Ok err (tr @ [NetWrite w b n err]))
        else if length b < n then Some (Panic IndexOutOfRange (tr @ [NetWrite w b n err]))
        else f E w (drop n b) (tr @ [NetWrite w b n err]))) = Some r"
  obtain n err where n: "NetWriteRes E (length tr) w b = (n, err)" by (cases "NetWriteRes E (length tr) w b")
  have one: "longer E P tr (tr @ [NetWrite w b n err])" by (rule longer_event) simp
  show "longer E P tr (res_state r)"
    using eq n one longer_trans [OF one IH] by (auto split: if_splits)
qed

lemma connection_Send_longer:
  assumes "payload_of E P p"
  shows "longer E P (conn_io c) (conn_io (res_state (connection_Send E p c)))"
proof (cases "netC c")
  case None
  then show ?thesis
    using assms by (auto simp: connection_Send_def Let_def split: option.split)
next
  case (Some w)
  show ?thesis
  proof (cases "writeFull E w (MakeFrame p) (conn_io c)")
    case (Some r)
    from writeFull_longer [OF this, of P] show ?thesis
      using Some \<open>netC c = Some w\<close> by (cases r) (simp_all add: connection_Send_def Let_def)
  qed (simp add: connection_Send_def Some Let_def)
qed

lemma client_write_longer:
  "payload_of E P p \<Longrightarrow> longer E P (cl_io c) (cl_io (snd (client_write E g (MakeFrame p) c)))"
  by (auto simp: client_write_def Let_def)

lemma client_Send_longer:
  "payload_of E P p \<Longrightarrow> longer E P (cl_io c) (cl_io (res_state (client_Send E p c)))"
  by (auto simp: client_Send_spec Let_def)

text \<open>What the loop of a dialling connection says by itself.\<close>

definition dial_talk :: "Header \<Rightarrow> pb_msg \<Rightarrow> bool" where
  "dial_talk h m \<longleftrightarrow>
     Uri h = MetaEstablish \<and> (\<exists>req. m = MEstablishReq req) \<or> Uri h = MetaShakeHand \<and> m = MShakeHandReq"

lemma sendEstablish_longer: "longer E dial_talk (cl_io c) (cl_io (res_state (sendEstablish E now c)))"
proof -
  have "payload_of E dial_talk p"
    if "EncodePayload E \<lparr>Uri = MetaEstablish, SeqId = i\<rparr> (MEstablishReq req) = Inr p" for p i req
    using that by (intro payload_encoded) (auto simp: dial_talk_def)
  then show ?thesis
    by (auto simp: sendEstablish_def client_write_def Let_def
        split: option.split sum.split)
qed

lemma sendShakeHand_longer: "longer E dial_talk (cl_io c) (cl_io (res_state (sendShakeHand E now c)))"
proof -
  have "payload_of E dial_talk p"
    if "EncodePayload E \<lparr>Uri = MetaShakeHand, SeqId = i\<rparr> MShakeHandReq = Inr p" for p i
    using that by (intro payload_encoded) (auto simp: dial_talk_def)
  then show ?thesis
    by (auto simp: sendShakeHand_def client_write_def Let_def
        split: option.split sum.split)
qed

lemma loop_tick_longer: "longer E dial_talk (cl_io c) (cl_io (res_state (loop_tick E now c)))"
  using sendShakeHand_longer [of E "onTick now c" now]
  by (cases "sendShakeHand E now (onTick now c)") (simp_all add: loop_tick_def maybeShake_def)

lemma loop_dial_longer: "longer E dial_talk (cl_io c) (cl_io (res_state (loop_dial E now dialed c)))"
proof (cases "dialOnce now dialed c")
  case (Pair err c1)
  then have io: "cl_io c1 = cl_io c" using cl_io_ops(6) [of now dialed c] by simp
  have sent: "longer E dial_talk (cl_io c) (cl_io (res_state (sendEstablish E now (c1\<lparr>subCtx := Some False\<rparr>))))"
    using sendEstablish_longer [of E "c1\<lparr>subCtx := Some False\<rparr>" now] io by simp
  have closed: "longer E dial_talk (cl_io c) (tr @ [GnetClose g])" if "longer E dial_talk (cl_io c) tr" for tr g
    using longer_trans [OF that longer_event] by simp
  show ?thesis
    using Pair io sent
    by (cases "sendEstablish E now (c1\<lparr>subCtx := Some False\<rparr>)")
      (auto simp: loop_dial_def intro: closed split: option.split)
qed

text \<open>
  The steps of a dialling connection that no packet and no node's handler causes: its goroutine, its
  ticker, the callbacks of the transport, and those who hold it.
\<close>

inductive solo_step :: "env \<Rightarrow> client \<Rightarrow> client \<Rightarrow> bool" for E where
  solo_loop: "loop_step E c d \<Longrightarrow> solo_step E c d"
| solo_tick: "tick_step E c d \<Longrightarrow> solo_step E c d"
| solo_start: "pc c = PcIdle \<or> pc c = PcDone \<Longrightarrow> solo_step E c (client_Start c)"
| solo_closed: "solo_step E c (client_OnClose c)"
| solo_local: "solo_step E c (client_SetLocal l c)"
| solo_stop: "solo_step E c (client_Stop c)"
| solo_parent: "solo_step E c (c\<lparr>ctxDone := True\<rparr>)"

lemma solo_client_step: "solo_step E c d \<Longrightarrow> client_step E c d"
  by (induction rule: solo_step.induct) (auto simp: client_step_def intro: outside_step.intros)

lemma solo_longer: "solo_step E c d \<Longrightarrow> longer E dial_talk (cl_io c) (cl_io d)"
proof (induction rule: solo_step.induct)
  case (solo_loop c d)
  then show ?case
  proof cases
    case (loop_dialed now dialed)
    then show ?thesis using loop_dial_longer [of E c now dialed] by simp
  next
    case (loop_dial_panic now dialed p e)
    then show ?thesis using loop_dial_longer [of E c now dialed] by (simp add: loop_recover_def)
  qed (auto simp: waitClose_begin_def waitClose_end_def intro: longer_event split: option.split)
next
  case (solo_tick c d)
  then show ?case
  proof cases
    case (tick_ok now)
    then show ?thesis using loop_tick_longer [of E c now] by simp
  next
    case (tick_panic now p e)
    then show ?thesis using loop_tick_longer [of E c now] by (simp add: loop_recover_def)
  qed
qed (simp_all add: client_OnClose_def client_SetLocal_def)

section \<open>Nodes\<close>

text \<open>
  Traces only grow, and those of addresses that were not given out stay as they are; \<open>blank\<close>: they
  are empty.
\<close>

definition says :: "env \<Rightarrow> speech \<Rightarrow> 'a node_scheme \<Rightarrow> 'a node_scheme \<Rightarrow> bool" where
  "says E P s t \<longleftrightarrow> fresh s \<le> fresh t \<and>
     (\<forall>a. longer E (P (InConn a)) (conn_io (inb s a)) (conn_io (inb t a)) \<and>
          longer E (P (OutConn a)) (cl_io (outb s a)) (cl_io (outb t a))) \<and>
     (\<forall>a \<ge> fresh t. conn_io (inb t a) = conn_io (inb s a) \<and> cl_io (outb t a) = cl_io (outb s a))"

definition blank :: "'a node_scheme \<Rightarrow> bool" where
  "blank s \<longleftrightarrow> (\<forall>a \<ge> fresh s. conn_io (inb s a) = [] \<and> cl_io (outb s a) = [])"

lemma says_blank: "says E P s t \<Longrightarrow> blank s \<Longrightarrow> blank t"
  by (simp add: says_def blank_def)

named_theorems says_intros

lemma says_refl [says_intros]: "says E P s s"
  by (simp add: says_def)

lemma says_trans: "says E P s t \<Longrightarrow> says E P t u \<Longrightarrow> says E P s u"
  unfolding says_def by (auto intro: longer_trans)

lemma says_mono:
  "says E P s t \<Longrightarrow> (\<And>r h m. P r h m \<Longrightarrow> Q r h m) \<Longrightarrow> says E Q s t"
  unfolding says_def by (meson longer_mono)

lemma says_fields:
  "fresh t = fresh s \<Longrightarrow> inb t = inb s \<Longrightarrow> outb t = outb s \<Longrightarrow> says E P s t"
  by (simp add: says_def)

lemma says_set_inb:
  "longer E (P (InConn a)) (conn_io (inb s a)) (conn_io c) \<Longrightarrow> a < fresh s \<Longrightarrow> says E P s (set_inb a s c)"
  by (simp add: says_def)

lemma says_set_outb:
  "longer E (P (OutConn a)) (cl_io (outb s a)) (cl_io c) \<Longrightarrow> a < fresh s \<Longrightarrow> says E P s (set_outb a s c)"
  by (simp add: says_def)

lemma says_quiet:
  "fresh t = fresh s \<Longrightarrow> (\<And>a. conn_io (inb t a) = conn_io (inb s a)) \<Longrightarrow>
    (\<And>a. cl_io (outb t a) = cl_io (outb s a)) \<Longrightarrow> says E P s t"
  by (simp add: says_def)

lemma says_Send: "payload_of E (P ref) p \<Longrightarrow> ref_alloc ref s \<Longrightarrow> says E P s (res_state (ref_Send E ref p s))"
  by (cases ref) (simp_all add: says_set_inb says_set_outb connection_Send_longer client_Send_longer)

lemma says_alloc: "says E P s t \<Longrightarrow> ref_alloc ref s \<Longrightarrow> ref_alloc ref t"
  by (cases ref) (simp_all add: says_def)

lemma conn_io_flags [simp]:
  "conn_io (connection_SetEstablished c) = conn_io c" "conn_io (connection_NotifyEstablish c) = conn_io c"
  by (simp_all add: connection_SetEstablished_def connection_NotifyEstablish_def split: option.split)

lemma cl_io_flags [simp]:
  "cl_io (client_SetEstablished c) = cl_io c" "cl_io (client_NotifyEstablish c) = cl_io c"
  by (simp_all add: client_SetEstablished_def client_NotifyEstablish_def)

lemma says_flag: "says E P s (ref_SetEstablished ref s)" "says E P s (ref_NotifyEstablish ref s)"
  by (cases ref; simp add: says_quiet)+

lemma says_flags [says_intros]:
  "says E P s0 s \<Longrightarrow> says E P s0 (ref_SetEstablished ref s)"
  "says E P s0 s \<Longrightarrow> says E P s0 (ref_NotifyEstablish ref s)"
  by (auto intro: says_trans says_flag)

lemma says_ref_Send [says_intros]:
  "says E P s0 s \<Longrightarrow> ref_alloc ref s0 \<Longrightarrow> payload_of E (P ref) p \<Longrightarrow> says E P s0 (res_state (ref_Send E ref p s))"
  using says_trans says_Send says_alloc by blast

lemma says_reply [says_intros]:
  "says E P s0 s \<Longrightarrow> ref_alloc ref s0 \<Longrightarrow> P ref h m \<Longrightarrow> says E P s0 (res_state (reply E ref h m s))"
  by (auto simp: reply_def intro!: says_intros payload_encoded split: sum.split)

lemma connection_Close_longer: "longer E P (conn_io c) (conn_io (connection_Close c))"
  by (auto simp: connection_Close_def intro: longer_event split: option.split)

text \<open>Encoding a packet and sending it on an accepted connection.\<close>

lemma says_encode_send:
  assumes "says E P s0 s" and "a < fresh s0" and "P (InConn a) h m"
  shows "says E P s0 (res_state (case EncodePayload E h m of
       Inl err \<Rightarrow> Ok () s
     | Inr p \<Rightarrow> bind_res (map_state (set_inb a s) (connection_Send E p (inb s a))) (\<lambda>err t. Ok () t)))"
proof (cases "EncodePayload E h m")
  case (Inr p)
  have "says E P s0 (res_state (ref_Send E (InConn a) p s))"
    using payload_encoded [of "P (InConn a)", OF assms(3) Inr] assms(2)
    by (intro says_ref_Send assms(1)) simp_all
  then show ?thesis using Inr by (cases "connection_Send E p (inb s a)") simp_all
qed (simp add: assms(1))

context heartbeat
begin

lemma tick_says:
  assumes "P (InConn a) \<lparr>Uri = MetaShakeHand, SeqId = ctr s + 1\<rparr> MShakeHandReq" and "a < fresh s"
  shows "says E P s (res_state (tick E a s))"
proof (cases "established (inb s a)")
  case True
  let ?h = "\<lparr>Uri = MetaShakeHand, SeqId = ctr s + 1\<rparr>"
  have "longer E (P (InConn a)) (conn_io (inb s a)) (conn_io (res_state (send_logged E ?h MShakeHandReq (inb s a))))"
  proof (cases "EncodePayload E ?h MShakeHandReq")
    case (Inr p)
    then show ?thesis
      using connection_Send_longer [OF payload_encoded [of "P (InConn a)", OF assms(1) Inr], of "inb s a"]
      by (cases "connection_Send E p (inb s a)") (simp_all add: send_logged_def)
  qed (simp add: send_logged_def)
  then have "says E P (bump s) (res_state (tick E a s))"
    using True assms(2) by (simp add: tick_eq says_set_inb bump_frame)
  moreover have "says E P s (bump s)" by (rule says_fields) (simp_all add: bump_frame)
  ultimately show ?thesis using says_trans by blast
qed (simp add: tick_eq says_refl)

lemma tick_tables: "conns (res_state (tick E a s)) = conns s" "fresh (res_state (tick E a s)) = fresh s"
  by (simp_all add: tick_eq bump_frame)

lemma round_says:
  assumes "\<And>a i. P (InConn a) \<lparr>Uri = MetaShakeHand, SeqId = i\<rparr> MShakeHandReq"
    and "\<And>k a. conns s k = Some a \<Longrightarrow> a < fresh s"
  shows "says E P s (res_state (round E order s))"
  using assms(2)
proof (induction order arbitrary: s)
  case (Cons k order)
  show ?case
  proof (cases "conns s k")
    case (Some a)
    have one: "says E P s (res_state (tick E a s))" by (rule tick_says) (use assms(1) Cons.prems Some in blast)+
    have "says E P (res_state (tick E a s)) (res_state (round E order (res_state (tick E a s))))"
      by (rule Cons.IH) (use Cons.prems tick_tables in auto)
    then show ?thesis
      using Some one by (cases "tick E a s") (auto simp: round_Cons intro: says_trans)
  qed (use Cons in \<open>simp add: round_Cons\<close>)
qed (simp add: round_Nil says_refl)

end

section \<open>What every node does by itself\<close>

text \<open>The events of \<open>node_step\<close> in which no packet is handled, and an accepted connection.\<close>

inductive own_step :: "env \<Rightarrow> int32 \<Rightarrow> 'a node_scheme \<Rightarrow> 'a node_scheme \<Rightarrow> bool" for E mode where
  own_start: "own_step E mode s (node_Start s)"
| own_connect: "own_step E mode s (snd (cm_AddConnection mode done addr s))"
| own_close: "own_step E mode s (cm_OnClose ctx s)"
| own_client: "dials a s \<Longrightarrow> solo_step E (outb s a) c \<Longrightarrow> own_step E mode s (set_outb a s c)"
| own_conn_close: "a < fresh s \<Longrightarrow> own_step E mode s (set_inb a s (connection_Close (inb s a)))"

lemma own_node_quiet: "own_step E mode s t \<Longrightarrow> node_quiet E mode s t"
  by (induction rule: own_step.induct) (auto intro: node_quiet.intros solo_client_step)

lemmas own_node_step = node_by_quiet [OF own_node_quiet]

lemma says_OnOpen: "blank s \<Longrightarrow> says E P s (snd (cm_OnOpen g r s))"
  by (auto simp: says_def blank_def cm_OnOpen_def Let_def newConnection_def)

lemma own_says:
  assumes "own_step E mode s t" and "blank s" and talk: "\<And>a h m. dial_talk h m \<Longrightarrow> P (OutConn a) h m"
  shows "says E P s t"
  using assms(1)
proof cases
  case own_start
  then show ?thesis by (intro says_fields) (simp_all add: node_Start_def)
next
  case (own_connect d addr)
  have io: "cl_io (NewConnection d i addr h [WithDialTimeout t']) = []" for d i h t'
    by (simp add: NewConnection_def WithDialTimeout_def)
  show ?thesis
    using assms(2) unfolding own_connect(1)
    by (auto simp: says_def blank_def cm_AddConnection_def Let_def io)
next
  case (own_close ctx)
  then show ?thesis by (intro says_fields) (simp_all add: cm_OnClose_def split: gnet_ctx.split)
next
  case (own_client a c)
  then show ?thesis using longer_mono [OF solo_longer talk] by (auto simp: dials_def intro: says_set_outb)
next
  case (own_conn_close a)
  then show ?thesis by (auto intro: says_set_inb connection_Close_longer)
qed

end
