(* ===== verification/SchedulerTalk.thy ===== *)
theory SchedulerTalk
  imports Says SchedulerSteps
begin

text \<open>
  What a scheduler says, and what it does when no packet arrives. On every connection it only ever
  writes handshakes, heartbeats, acknowledgements that name it a scheduler, and assignments of tasks
  that were pushed.
\<close>

definition scheduler_says :: "(Task \<Rightarrow> bool) \<Rightarrow> speech" where
  "scheduler_says A ref h m \<longleftrightarrow> dial_talk h m
     \<or> Uri h = MetaEstablishAck \<and> (\<exists>r. m = MEstablishResponse r \<and> EstablishResponse_Mode r = ModeScheduler)
     \<or> Uri h = RayAssignTask \<and> (\<exists>t. A t \<and> m = MAssignTaskRequest (assign_request t))"

text \<open>The events of \<open>scheduler_step\<close> in which no packet is handled; pushed tasks satisfy \<open>A\<close>.\<close>

inductive scheduler_own :: "env \<Rightarrow> (Task \<Rightarrow> bool) \<Rightarrow> scheduler \<Rightarrow> scheduler \<Rightarrow> bool" for E A where
  own_sched_node: "own_step E scheduler_GetMode s t \<Longrightarrow> scheduler_own E A s t"
| own_sched_open: "scheduler_own E A s (snd (scheduler_OnOpen g remote s))"
| own_sched_push: "A task \<Longrightarrow> scheduler_own E A s (snd (PushTask task s))"
| own_sched_round: "distinct order \<Longrightarrow> set order = dom (workerConns s) \<Longrightarrow>
    scheduler_own E A s (res_state (scheduler_Loop_round E order s))"
| own_sched_tick: "scheduler_own E A s (res_state (scheduler_Ontick E keys s))"
| own_sched_establish: "a < fresh s \<Longrightarrow> scheduler_own E A s (res_state (scheduler_conn_Establish E a s))"
| own_sched_conn_loop: "a < fresh s \<Longrightarrow> scheduler_conn_Loop timeout a s = Some (d, t) \<Longrightarrow> scheduler_own E A s t"

lemma scheduler_own_step:
  assumes "scheduler_own E A s t"
  shows "\<exists>l. scheduler_step ops E s l t \<and> (\<forall>task \<in> set (pushed l). A task)"
  using assms
proof cases
  case own_sched_node
  then have "scheduler_step ops E s [] t" by (intro sched_quiet own_node_quiet)
  then show ?thesis by (intro exI [of _ "[]"]) simp
next
  case (own_sched_push task)
  obtain err where p: "PushTask task s = (err, t)" using own_sched_push(1) by (metis prod.collapse)
  show ?thesis
  proof (cases err)
    case None
    with p own_sched_push(2) show ?thesis by (intro exI [of _ "[Submit task]"]) (auto intro: sched_push)
  next
    case (Some e)
    with p show ?thesis by (intro exI [of _ "[]"]) (auto intro: sched_refuse)
  qed
next
  case (own_sched_round order)
  then show ?thesis
    using sched_round [of order s ops E]
    by (intro exI [of _ "round_events order s"]) (auto simp: round_events_def pushed_def split: list.splits if_splits)
qed (rule exI [of _ "[]"], auto intro: scheduler_step.intros)+

section \<open>Packets\<close>

lemma says_scheduler_fields [simp]:
  "says E P s0 ((s :: scheduler)\<lparr>nextID := i\<rparr>) = says E P s0 s"
  "says E P s0 (s\<lparr>workerConns := w\<rparr>) = says E P s0 s"
  "says E P s0 (s\<lparr>gcsConns := w\<rparr>) = says E P s0 s"
  "says E P s0 (s\<lparr>taskChan := ch\<rparr>) = says E P s0 s"
  "says E P s0 (s\<lparr>pendingTasks := p\<rparr>) = says E P s0 s"
  by (simp_all add: says_def)

lemma says_PushTask [simp]: "says E P s0 (snd (PushTask task s)) = says E P s0 s"
  by (simp add: PushTask_def split: option.split)

lemma scheduler_OnPacket_says:
  assumes "ref_alloc ref s"
  shows "says E (scheduler_says A) s (res_state (scheduler_OnPacket E ref h m s))"
proof -
  have "says E (scheduler_says A) s (res_state (scheduler_onEstablish E ref h req s))" for req
    unfolding scheduler_onEstablish_def Let_def
    by (intro says_intros assms) (simp add: scheduler_says_def)
  moreover have "says E (scheduler_says A) s (res_state (scheduler_onEstablishAck ref resp s))" for resp
    by (auto simp: scheduler_onEstablishAck_def Let_def intro!: says_intros)
  moreover have "says E (scheduler_says A) s (res_state (onAssignTaskResp resp s))" for resp
    by (simp add: onAssignTaskResp_def Let_def says_refl split: option.split)
  ultimately show ?thesis by (simp add: scheduler_OnPacket_def says_refl split: option.split)
qed

section \<open>Assignments\<close>

lemma handleServerReq_says:
  assumes "says E (scheduler_says A) s0 s" and "ref_alloc ref s0" and "A t"
  shows "says E (scheduler_says A) s0
    (res_state (handleServerReq E ref (MAssignTaskRequest (assign_request t)) s))"
  unfolding handleServerReq_def Let_def
  using assms by (auto simp: scheduler_says_def intro!: says_reply)

lemma handleServerReq_workers [simp]:
  "workerConns (res_state (handleServerReq E ref req s)) = workerConns s"
  by (cases req) (simp_all add: handleServerReq_def Let_def)

lemma assign_loop_says:
  assumes "says E (scheduler_says A) s0 s" and "\<And>k ref. workerConns s k = Some ref \<Longrightarrow> ref_alloc ref s0"
    and task: "A task"
  shows "says E (scheduler_says A) s0 (res_state (assign_loop E task order s))"
  using assms(1,2)
proof (induction order arbitrary: s)
  case (Cons k order)
  show ?case
  proof (cases "workerConns s k")
    case (Some ref)
    let ?s1 = "s\<lparr>pendingTasks := (pendingTasks s)(ID task \<mapsto> task)\<rparr>"
    let ?r = "handleServerReq E ref (MAssignTaskRequest (assign_request task)) ?s1"
    have "says E (scheduler_says A) s0 (res_state ?r)"
      using Cons.prems Some by (intro handleServerReq_says task) auto
    moreover have "workerConns (res_state ?r) = workerConns s" by simp
    ultimately show ?thesis using Cons.IH [of "res_state ?r"] Cons.prems(2) Some by (cases ?r) auto
  qed (use Cons in simp)
qed simp

lemma scheduler_Loop_round_says:
  assumes "scheduler_inv s" and "\<And>t. t \<in> held s \<Longrightarrow> A t"
  shows "says E (scheduler_says A) s (res_state (scheduler_Loop_round E order s))"
proof -
  have live: "ref_alloc ref s" if "workerConns s k = Some ref" for k ref
    using assms(1) that unfolding scheduler_inv_def by blast
  have "says E (scheduler_says A) s (res_state (AssignTask E order s))"
  proof (cases "try_recv (taskChan s)")
    case (Some r)
    then obtain task ch where r: "try_recv (taskChan s) = Some (task, ch)" by (cases r) auto
    then have "A task" using assms(2) chq.pop_items [OF r] by (auto simp: held_def)
    then have "says E (scheduler_says A) s (res_state (assign_loop E task order (s\<lparr>taskChan := ch\<rparr>)))"
      using live by (intro assign_loop_says) (auto simp: says_refl)
    then show ?thesis using r by (simp add: AssignTask_def)
  qed (simp add: AssignTask_def says_refl)
  then show ?thesis by (cases "AssignTask E order s") (simp_all add: scheduler_Loop_round_def says_refl)
qed

section \<open>The other events\<close>

lemma says_conn_Establish:
  assumes "a < fresh s"
  shows "says E (scheduler_says A) s (res_state (scheduler_conn_Establish E a s))"
  unfolding scheduler_conn_Establish_def scheduler_conn_Send_def Let_def
  by (rule says_encode_send [OF _ assms]) (simp_all add: says_refl scheduler_says_def dial_talk_def)

lemma scheduler_own_says:
  assumes "scheduler_own E A s t" and inv: "blank s" "scheduler_inv s" and held: "\<And>u. u \<in> held s \<Longrightarrow> A u"
  shows "says E (scheduler_says A) s t"
  using assms(1)
proof cases
  case own_sched_node
  then show ?thesis by (rule own_says [OF _ inv(1)]) (simp add: scheduler_says_def)
next
  case (own_sched_open g remote)
  then show ?thesis using says_OnOpen [OF inv(1)] by (simp add: scheduler_OnOpen_def)
next
  case (own_sched_push task)
  then show ?thesis by (simp add: says_refl)
next
  case (own_sched_round order)
  then show ?thesis using scheduler_Loop_round_says [OF inv(2) held] by simp
next
  case (own_sched_tick keys)
  have "node_inv s" using inv(2) by (simp add: scheduler_inv_def)
  then show ?thesis
    unfolding own_sched_tick
    by (intro sched_beat.round_says) (auto simp: scheduler_says_def dial_talk_def node_inv_def)
next
  case (own_sched_establish a)
  then show ?thesis using says_conn_Establish by simp
next
  case (own_sched_conn_loop a timeout d)
  then show ?thesis
    by (auto simp: scheduler_conn_Loop_def Let_def intro!: says_quiet split: if_splits option.splits)
qed

section \<open>The tasks it holds\<close>

text \<open>Everything it holds satisfies \<open>A\<close>, if everything that is pushed does.\<close>

lemma held_pool: "held s = pool_held (pool_of s)"
  by (simp add: held_def pool_held_def pool_of_def)

lemma scheduler_step_held:
  assumes "scheduler_step ops E s l t" and "node_good s" and "scheduler_inv s"
  shows "held t \<subseteq> held s \<union> set (pushed l)"
proof -
  have "run pool_step (pool_of s) l (pool_of t)"
    using scheduler_step_keeps [OF assms] by (simp add: pool_run_def)
  then show ?thesis using pool_run_held unfolding held_pool pushed_def by blast
qed

end
