(* ===== verification/GcsTalk.thy ===== *)
theory GcsTalk
  imports Says GcsSteps
begin

text \<open>
  What a global control store says, and what it does when no packet arrives. It writes handshakes,
  heartbeats and acknowledgements with mode 0; an answer about a location only to a question.
\<close>

definition gcs_says :: speech where
  "gcs_says ref h m \<longleftrightarrow> dial_talk h m
     \<or> Uri h = MetaEstablishAck \<and> (\<exists>r. m = MEstablishResponse r \<and> EstablishResponse_Mode r = 0)"

text \<open>The events of \<open>gcs_step\<close> in which no packet is handled.\<close>

inductive gcs_own :: "env \<Rightarrow> gcs \<Rightarrow> gcs \<Rightarrow> bool" for E where
  own_gcs_node: "own_step E gcs_GetMode s t \<Longrightarrow> gcs_own E s t"
| own_gcs_open: "gcs_own E s (snd (gcs_OnOpen g remote s))"
| own_gcs_turn: "gcs_own E s (res_state (gcs_Loop_round E keys s))"
| own_gcs_establish: "a < fresh s \<Longrightarrow> gcs_own E s (res_state (gcs_conn_Establish E a s))"
| own_gcs_conn_turn: "a < fresh s \<Longrightarrow> gcs_conn_Loop timeout a s = Some (d, t) \<Longrightarrow> gcs_own E s t"

lemma gcs_own_step: "gcs_own E s t \<Longrightarrow> gcs_step ops E s t"
  by (induction rule: gcs_own.induct) (auto intro: gcs_step.intros own_node_step)

lemma says_gcs_fields [simp]:
  "says E P s0 ((s :: gcs)\<lparr>nextID := i\<rparr>) = says E P s0 s"
  "says E P s0 (s\<lparr>nextSeq := i\<rparr>) = says E P s0 s"
  "says E P s0 (s\<lparr>objectLocationMap := m\<rparr>) = says E P s0 s"
  by (simp_all add: says_def)

lemma gcs_OnPacket_says:
  assumes "ref_alloc ref s" and "\<not> fetches h"
  shows "says E gcs_says s (res_state (gcs_OnPacket E ref h m s))"
proof -
  have "says E gcs_says s (res_state (gcs_onEstablish E ref h req s))" for req
    unfolding gcs_onEstablish_def Let_def by (intro says_intros assms(1)) (simp add: gcs_says_def)
  moreover have "says E gcs_says s (res_state (gcs_onEstablishAck ref s))"
    by (simp add: gcs_onEstablishAck_def says_intros)
  moreover have "says E gcs_says s (res_state (gcs_onReportTaskResult ref req s))" for req
    by (simp add: gcs_onReportTaskResult_def says_refl)
  ultimately show ?thesis
    using assms(2) by (simp add: gcs_OnPacket_def fetches_def says_refl split: option.split)
qed

lemma gcs_own_says:
  assumes "gcs_own E s t" and inv: "blank s" "gcs_inv s"
  shows "says E gcs_says s t"
  using assms(1)
proof cases
  case own_gcs_node
  then show ?thesis by (rule own_says [OF _ inv(1)]) (simp add: gcs_says_def)
next
  case (own_gcs_open g remote)
  then show ?thesis using says_OnOpen [OF inv(1)] by (simp add: gcs_OnOpen_def)
next
  case (own_gcs_turn keys)
  have "node_inv s" using inv(2) by (simp add: gcs_inv_def)
  then show ?thesis
    unfolding own_gcs_turn gcs_Loop_round_def
    by (intro gcs_beat.round_says) (auto simp: gcs_says_def dial_talk_def node_inv_def)
next
  case (own_gcs_establish a)
  show ?thesis
    unfolding own_gcs_establish(1) gcs_conn_Establish_def gcs_conn_Send_def Let_def
    by (rule says_encode_send [OF _ own_gcs_establish(2)])
      (simp_all add: says_refl gcs_says_def dial_talk_def)
next
  case (own_gcs_conn_turn a timeout d)
  then show ?thesis
    by (auto simp: gcs_conn_Loop_def Let_def intro!: says_quiet split: if_splits option.splits)
qed

text \<open>By itself the store does not touch its directory; a packet does only as a report.\<close>

lemma gcs_own_dir:
  assumes "gcs_own E s t"
  shows "objectLocationMap t = objectLocationMap s"
  using assms
proof cases
  case own_gcs_node
  then have "node.more t = node.more s"
    by (induction rule: own_step.induct) simp_all
  then show ?thesis by (rule gcs_more)
next
  case (own_gcs_open g remote)
  show ?thesis by (rule gcs_more) (simp add: own_gcs_open gcs_OnOpen_def)
next
  case (own_gcs_turn keys)
  then show ?thesis by (simp add: gcs_Loop_round_def gcs_Ontick_dir)
next
  case (own_gcs_establish a)
  then show ?thesis using gcs_conn_Establish_heap by simp
next
  case (own_gcs_conn_turn a timeout d)
  then show ?thesis
    by (auto simp: gcs_conn_Loop_def Let_def set_inb_def split: if_splits option.splits)
qed

end
