(* ===== verification/WorkerTalk.thy ===== *)
theory WorkerTalk
  imports Says WorkerSteps
begin

text \<open>
  What a worker says, and what it does when no packet arrives. Unlike the other nodes it speaks about
  its own state: it acknowledges a handshake on a connection that it holds as established, it reports
  objects that it stores, it accepts only tasks that are not additions.
\<close>

section \<open>Speech\<close>

text \<open>\<open>rejects A r\<close>: an answer that accepts is the answer to a task of \<open>A\<close> that is no addition.\<close>

definition rejects :: "(Task \<Rightarrow> bool) \<Rightarrow> AssignTaskResponse \<Rightarrow> bool" where
  "rejects A r \<longleftrightarrow> (AssignTaskResponse_Accepted r \<longrightarrow>
     (\<exists>t. A t \<and> ID t = AssignTaskResponse_TaskId r \<and> FuncName t \<noteq> TaskFuncAddTowInt))"

fun holds_open :: "conn_ref \<Rightarrow> worker \<Rightarrow> bool" where
  "holds_open (InConn a) w = (a < fresh w \<and> established (inb w a))"
| "holds_open (OutConn a) w = False"

definition worker_says :: "(Task \<Rightarrow> bool) \<Rightarrow> worker \<Rightarrow> speech" where
  "worker_says A w ref h m \<longleftrightarrow> dial_talk h m
     \<or> Uri h = MetaEstablishAck \<and> holds_open ref w
        \<and> (\<exists>r. m = MEstablishResponse r \<and> EstablishResponse_Mode r = ModeWorker)
     \<or> Uri h = RayAssignTaskResp \<and> (\<exists>r. m = MAssignTaskResponse r \<and> rejects A r)
     \<or> Uri h = RayReportTaskResult \<and> (\<exists>r. m = MReportTaskResultRequest r
          \<and> ReportTaskResultRequest_ObjectId r \<in> dom (objectStorage w))"

text \<open>A worker that knows more says more.\<close>

definition knows_more :: "worker \<Rightarrow> worker \<Rightarrow> bool" where
  "knows_more s t \<longleftrightarrow> node_next s t \<and> dom (objectStorage s) \<subseteq> dom (objectStorage t)"

lemma holds_open_more: "holds_open ref s \<Longrightarrow> knows_more s t \<Longrightarrow> holds_open ref t"
  by (cases ref) (auto simp: knows_more_def node_next_def)

lemma worker_says_more: "worker_says A s ref h m \<Longrightarrow> knows_more s t \<Longrightarrow> worker_says A t ref h m"
  using holds_open_more [of ref s t] unfolding worker_says_def knows_more_def by blast

lemma worker_says_later: "says E (worker_says A s) u t \<Longrightarrow> knows_more s t' \<Longrightarrow> says E (worker_says A t') u t"
  using says_mono worker_says_more by metis

section \<open>Events\<close>

inductive worker_own :: "env \<Rightarrow> worker \<Rightarrow> worker \<Rightarrow> bool" for E where
  own_work_node: "own_step E worker_GetMode s t \<Longrightarrow> worker_own E s t"
| own_work_open: "worker_own E s (snd (worker_OnOpen g remote s))"
| own_work_tick: "worker_own E s (res_state (worker_Ontick E keys s))"
| own_work_establish: "a < fresh s \<Longrightarrow> worker_own E s (res_state (worker_conn_Establish E a s))"
| own_work_conn_loop: "a < fresh s \<Longrightarrow> worker_conn_Loop timeout a s = Some (d, t) \<Longrightarrow> worker_own E s t"
| own_work_report: "worker_own E s (res_state (worker_Loop_round E pick s))"
| own_work_wait: "worker_Loop_round E pick s = Block s \<Longrightarrow> worker_own E s (with_reports park s)"
| own_work_wake: "buf (registerObjectChan s) \<noteq> [] \<Longrightarrow> 0 < parked (registerObjectChan s) \<Longrightarrow>
    worker_own E s (res_state (worker_Loop_round E True (with_reports unpark s)))"
| own_work_leave: "buf (registerObjectChan s) = [] \<Longrightarrow> worker_ctxDone s \<Longrightarrow>
    worker_own E s (with_reports unpark s)"
| own_work_ctx: "worker_own E s (s\<lparr>worker_ctxDone := True\<rparr>)"

lemma worker_own_step: "worker_own E s t \<Longrightarrow> worker_step ops E clock s t"
  by (induction rule: worker_own.induct) (auto intro: worker_step.intros own_node_step)

lemma says_worker_fields [simp]:
  "says E P s0 ((s :: worker)\<lparr>nextID := i\<rparr>) = says E P s0 s"
  "says E P s0 (s\<lparr>gcsConn := g\<rparr>) = says E P s0 s"
  "says E P s0 (s\<lparr>registerObjectChan := ch\<rparr>) = says E P s0 s"
  "says E P s0 (s\<lparr>objectStorage := ob\<rparr>) = says E P s0 s"
  "says E P s0 (s\<lparr>time_calls := n\<rparr>) = says E P s0 s"
  "says E P s0 (s\<lparr>connAddrs := ca\<rparr>) = says E P s0 s"
  "says E P s0 (s\<lparr>getObjectLocationChan := ls\<rparr>) = says E P s0 s"
  "says E P s0 (s\<lparr>getObjectChan := os\<rparr>) = says E P s0 s"
  "says E P s0 (s\<lparr>worker_ctxDone := b\<rparr>) = says E P s0 s"
  by (simp_all add: says_def)

lemma with_reports_says [simp]: "says E P s0 (with_reports f s) = says E P s0 s"
  by (simp add: with_reports_def)

text \<open>The report loop.\<close>

lemma worker_Loop_round_says:
  assumes links: "worker_links s" and wake: "s = u \<or> s = with_reports unpark u"
  shows "says E (worker_says A s) u (res_state (worker_Loop_round E pick s))"
proof -
  have su: "says E (worker_says A s) u s" using wake by (auto simp: says_refl)
  have fr: "fresh u = fresh s" using wake by (auto simp: with_reports_def)
  show ?thesis
  proof (cases "try_recv (registerObjectChan s)")
    case (Some r)
    then obtain obj ch where r: "try_recv (registerObjectChan s) = Some (obj, ch)" by (cases r) auto
    then have obj: "obj \<in> dom (objectStorage s)"
      using links chq.pop_items [OF r] by (auto simp: worker_links_def)
    let ?s1 = "s\<lparr>registerObjectChan := ch, nextID := nextID s + 1\<rparr>"
    let ?h = "\<lparr>Uri = RayReportTaskResult, SeqId = nextID s + 1\<rparr>"
    let ?m = "MReportTaskResultRequest \<lparr>ReportTaskResultRequest_TaskId = [],
      ReportTaskResultRequest_Status = [], ReportTaskResultRequest_ObjectId = obj,
      ReportTaskResultRequest_ResultData = []\<rparr>"
    have s1: "says E (worker_says A s) u ?s1" using su by simp
    have "says E (worker_says A s) u (res_state (bind_res (ref_Send E ref p ?s1) (\<lambda>_ t. Ok True t)))"
      if "gcsConn s = Some ref" "EncodePayload E ?h ?m = Inr p" for ref p
    proof -
      have "ref_alloc ref s" using links that(1) unfolding worker_links_def by blast
      then have "ref_alloc ref u" using fr by (cases ref) simp_all
      moreover have "payload_of E (worker_says A s ref) p"
        by (rule payload_encoded [OF _ that(2)]) (use obj in \<open>simp add: worker_says_def\<close>)
      ultimately have "says E (worker_says A s) u (res_state (ref_Send E ref p ?s1))"
        by (rule says_ref_Send [OF s1])
      then show ?thesis by (cases "ref_Send E ref p ?s1") simp_all
    qed
    then show ?thesis
      using r su s1 by (auto simp: worker_Loop_round_def Let_def split: sum.split option.split)
  qed (auto simp: worker_Loop_round_def su)
qed

section \<open>Packets\<close>

text \<open>What a worker may hear: the assignments among it are assignments of tasks of \<open>A\<close>.\<close>

definition heard :: "(Task \<Rightarrow> bool) \<Rightarrow> Header \<Rightarrow> pb_msg \<Rightarrow> bool" where
  "heard A h m \<longleftrightarrow> uri_kind (Uri h) = Some (kind_of m) \<and> \<not> fetches h
     \<and> (Uri h = RayAssignTask \<longrightarrow> (\<exists>t. A t \<and> m = MAssignTaskRequest (assign_request t)))"

definition zero_object :: Object where
  "zero_object = \<lparr>ObjType = ObjectTypeInt, ObjData = EncodeInt 0\<rparr>"

text \<open>What is in the store: zeros, each under the name of an addition of \<open>A\<close>.\<close>

definition results :: "(Task \<Rightarrow> bool) \<Rightarrow> worker \<Rightarrow> bool" where
  "results A w \<longleftrightarrow> (\<forall>k object. objectStorage w k = Some object \<longrightarrow>
     object = zero_object
     \<and> (\<exists>t n. A t \<and> FuncName t = TaskFuncAddTowInt \<and> Args t = [] \<and> k = ID t @ FuncName t @ FormatInt n))"

text \<open>The assigned task as the worker sees it: the arguments have lost their types.\<close>

lemma onAssignTask_request:
  "onAssignTask E clock ref h (assign_request t) s =
    (if Args t = [] then
       bind_res (dispatch_task clock (t\<lparr>Args := [], ArgsType := [], Dependencies := []\<rparr>) s)
         (\<lambda>err s2. answer_assign E ref (SeqId h) (ID t) err s2)
     else Panic IndexOutOfRange s)"
  by (cases "Args t"; cases t) (simp_all add: onAssignTask_def assign_request_def Let_def)

lemma AddTowIntFunc_none: "Args t = [] \<Longrightarrow> AddTowIntFunc t = (0, Some ErrArgNum)"
  by (simp add: AddTowIntFunc_def)

lemma answer_assign_says:
  assumes "says E P u s" and "ref_alloc ref u"
    and "\<And>r h. AssignTaskResponse_Accepted r = (err = None) \<Longrightarrow> AssignTaskResponse_TaskId r = k \<Longrightarrow>
      Uri h = RayAssignTaskResp \<Longrightarrow> P ref h (MAssignTaskResponse r)"
  shows "says E P u (res_state (answer_assign E ref seq k err s))"
proof -
  have one: "says E P u (res_state (bind_res (ref_Send E ref p s) (\<lambda>_ t. Ok x t)))"
    if "payload_of E (P ref) p" for p and x :: "go_error option"
    using says_ref_Send [OF assms(1,2) that] by (cases "ref_Send E ref p s") simp_all
  have "payload_of E (P ref) p"
    if "EncodePayload E \<lparr>Uri = RayAssignTaskResp, SeqId = seq\<rparr> (MAssignTaskResponse
      \<lparr>AssignTaskResponse_Accepted = (err = None), AssignTaskResponse_WorkerId = [], AssignTaskResponse_TaskId = k\<rparr>) = Inr p"
    for p
    by (rule payload_encoded [OF _ that]) (simp add: assms(3))
  then show ?thesis using one by (simp add: answer_assign_def Let_def split: sum.split)
qed

text \<open>An addition that arrives here always fails, yet stores a zero and tries to announce it.\<close>

lemma onAddTowInt_none:
  assumes "Args t = []"
  shows "onAddTowInt clock t s =
    (let obj = object_name clock t s;
         s1 = s\<lparr>time_calls := Suc (time_calls s),
           objectStorage := (objectStorage s)(obj \<mapsto> \<lparr>ObjType = ObjectTypeInt, ObjData = EncodeInt 0\<rparr>)\<rparr>
     in case try_send obj (registerObjectChan s) of
          None \<Rightarrow> Block s1 | Some ch \<Rightarrow> Ok (Some ErrArgNum) (s1\<lparr>registerObjectChan := ch\<rparr>))"
  by (simp add: onAddTowInt_def AddTowIntFunc_none [OF assms] SetObject_def Let_def)

lemma dispatch_none:
  assumes "Args t = []"
  shows "says E P u s \<Longrightarrow> says E P u (res_state (dispatch_task clock t s))"
    and "dispatch_task clock t s = Ok err s2 \<Longrightarrow> (err = None \<longleftrightarrow> FuncName t \<noteq> TaskFuncAddTowInt)"
  by (auto simp: dispatch_task_def onAddTowInt_none [OF assms] Let_def split: option.splits if_splits)

lemma onAssignTask_says:
  assumes "A t" and "ref_alloc ref s"
  shows "says E (worker_says A w) s (res_state (onAssignTask E clock ref h (assign_request t) s))"
proof (cases "Args t = []")
  case True
  let ?t = "t\<lparr>Args := [], ArgsType := [], Dependencies := []\<rparr>"
  have d: "says E (worker_says A w) s (res_state (dispatch_task clock ?t s))"
    by (rule dispatch_none(1)) (simp_all add: says_refl)
  show ?thesis
  proof (cases "dispatch_task clock ?t s")
    case (Ok err s2)
    then have "err = None \<longleftrightarrow> FuncName t \<noteq> TaskFuncAddTowInt" using dispatch_none(2) [of ?t] by simp
    then have "says E (worker_says A w) s (res_state (answer_assign E ref (SeqId h) (ID t) err s2))"
      using d Ok assms by (intro answer_assign_says) (auto simp: worker_says_def rejects_def)
    then show ?thesis using Ok True by (simp add: onAssignTask_request)
  qed (use d True in \<open>simp_all add: onAssignTask_request\<close>)
qed (simp add: onAssignTask_request says_refl)

lemma ref_Send_holds [simp]: "holds_open ref (res_state (ref_Send E ref' p s)) = holds_open ref s"
  by (cases ref; cases ref') simp_all

lemma reply_holds [simp]: "holds_open ref (res_state (reply E ref' h m s)) = holds_open ref s"
  by (simp add: reply_def split: sum.split)

lemma worker_onEstablish_says:
  assumes "a < fresh s" and t: "t = res_state (worker_onEstablish E (InConn a) h req s)"
  shows "says E (worker_says A t) s t"
proof -
  have "holds_open (InConn a) t"
    unfolding t worker_onEstablish_def Let_def using assms(1)
    by (simp add: connection_SetEstablished_def)
  then have "worker_says A t (InConn a) \<lparr>Uri = MetaEstablishAck, SeqId = i\<rparr>
      (MEstablishResponse \<lparr>EstablishResponse_Mode = ModeWorker, EstablishResponse_Err = e\<rparr>)" for i e
    by (simp add: worker_says_def)
  then have "says E (worker_says A t) s (res_state (worker_onEstablish E (InConn a) h req s))"
    unfolding worker_onEstablish_def Let_def
    using assms(1) says_flag(1) [of E "worker_says A t" s "InConn a"] by (intro says_reply) auto
  then show ?thesis by (simp add: t)
qed

text \<open>What a packet can do to a worker whose maps of channels are empty.\<close>

lemma worker_OnPacket_cases:
  assumes "worker_inv s"
  obtains (same) "res_state (worker_OnPacket E clock ref h m s) = s"
  | (establish) req where "worker_OnPacket E clock ref h m s = worker_onEstablish E ref h req s"
  | (notify) "worker_OnPacket E clock ref h m s = worker_onEstablishAck ref s"
  | (assign) req where "Uri h = RayAssignTask" "as_AssignTaskRequest m = Some req"
      "worker_OnPacket E clock ref h m s = onAssignTask E clock ref h req s"
  | (fetch) req where "fetches h" "worker_OnPacket E clock ref h m s = onGetObjectData E ref req s"
proof -
  note result = that
  have nil: "res_state (onGetObjectLocationResp resp s) = s" "res_state (onGetObjectDataResp resp' s) = s"
    for resp resp'
    using assms by (simp_all add: onGetObjectLocationResp_def onGetObjectDataResp_def Let_def worker_inv_def)
  note def = worker_OnPacket_def [of E clock ref h m s]
  have branch: thesis
    if "worker_OnPacket E clock ref h m s = (case r of None \<Rightarrow> Panic NilDeref s | Some req \<Rightarrow> f req)"
      "\<And>req. r = Some req \<Longrightarrow> worker_OnPacket E clock ref h m s = f req \<Longrightarrow> thesis" for r :: "'x option" and f
    using that result(1) by (cases r) auto
  consider "Uri h = MetaEstablish" | "Uri h = MetaEstablishAck" | "Uri h = RayAssignTask"
    | "Uri h = RayGetObjectData" | "Uri h = RayGetObjectLocationResp" | "Uri h = RayGetObjectDataResp"
    | "worker_OnPacket E clock ref h m s = Ok None s"
    unfolding def by argo
  then show thesis
  proof cases
    case 1
    then show thesis by (intro branch [OF _ result(2)]) (simp_all add: def const_defs)
  next
    case 2
    then show thesis by (intro result(3)) (simp add: def const_defs)
  next
    case 3
    then show thesis by (intro branch [OF _ result(4)]) (simp_all add: def const_defs)
  next
    case 4
    then show thesis by (intro branch [OF _ result(5)]) (simp_all add: def fetches_def const_defs)
  next
    case 5
    then show thesis by (intro result(1)) (simp add: def const_defs nil split: option.split)
  next
    case 6
    then show thesis by (intro result(1)) (simp add: def const_defs nil split: option.split)
  qed (simp add: result(1))
qed

lemma worker_OnPacket_says:
  assumes "heard A h m" and a: "a < fresh s" and inv: "worker_inv s"
    and t: "t = res_state (worker_OnPacket E clock (InConn a) h m s)"
  shows "says E (worker_says A t) s t"
  using inv
proof (cases rule: worker_OnPacket_cases [where E = E and clock = clock and ref = "InConn a" and h = h and m = m])
  case same
  then show ?thesis by (simp add: t says_refl)
next
  case (establish req)
  then show ?thesis using worker_onEstablish_says [OF a] t by simp
next
  case notify
  then show ?thesis using says_flag(2) [of E _ s "InConn a"] by (simp add: t worker_onEstablishAck_def)
next
  case (assign req)
  then obtain u where "A u" "req = assign_request u" using assms(1) by (auto simp: heard_def)
  then show ?thesis using onAssignTask_says [of A u "InConn a" s E t] a assign(3) t by simp
next
  case (fetch req)
  then show ?thesis using assms(1) by (simp add: heard_def)
qed

section \<open>The store\<close>

lemma objectStorage_data: "worker_data t = worker_data s \<Longrightarrow> objectStorage t = objectStorage s"
  by (rule worker_dataD)

lemma objectStorage_Send [simp]: "objectStorage (res_state (ref_Send E ref p (s :: worker))) = objectStorage s"
  by (rule objectStorage_data [OF worker_data_ops(1)])

lemma objectStorage_flags [simp]:
  "objectStorage (ref_SetEstablished ref (s :: worker)) = objectStorage s"
  "objectStorage (ref_NotifyEstablish ref s) = objectStorage s"
  by (rule objectStorage_data [OF worker_data_ops(2)], rule objectStorage_data [OF worker_data_ops(3)])

lemma objectStorage_reply [simp]: "objectStorage (res_state (reply E ref h m (s :: worker))) = objectStorage s"
  by (rule objectStorage_data [OF worker_data_reply])

lemma reply_dropping_storage [simp]: "objectStorage (res_state (reply_dropping E ref h m s)) = objectStorage s"
proof (cases "EncodePayload E h m")
  case (Inr p)
  then show ?thesis
    using objectStorage_Send [of E ref p s] by (cases "ref_Send E ref p s") (simp_all add: reply_dropping_def)
qed (simp add: reply_dropping_def)

lemma onAssignTask_storage:
  "objectStorage (res_state (onAssignTask E clock ref h (assign_request t) s)) =
    (if Args t = [] \<and> FuncName t = TaskFuncAddTowInt
     then (objectStorage s)(object_name clock t s \<mapsto> zero_object) else objectStorage s)"
proof (cases "Args t = [] \<and> FuncName t = TaskFuncAddTowInt")
  case True
  let ?d = "dispatch_task clock (t\<lparr>Args := [], ArgsType := [], Dependencies := []\<rparr>) s"
  have "objectStorage (res_state ?d) = (objectStorage s)(object_name clock t s \<mapsto> zero_object)"
    using True by (simp add: dispatch_task_def onAddTowInt_none object_name_def zero_object_def Let_def split: option.split)
  then show ?thesis
    using True objectStorage_data [OF answer_assign_data] by (cases ?d) (simp_all add: onAssignTask_request)
next
  case False
  then show ?thesis
    using objectStorage_data [OF answer_assign_data] by (auto simp: onAssignTask_request dispatch_task_def)
qed

lemma onAssignTask_results:
  assumes "A t" and inv: "results A s"
    and u: "u = res_state (onAssignTask E clock ref h (assign_request t) s)"
  shows "results A u \<and> dom (objectStorage s) \<subseteq> dom (objectStorage u)"
proof -
  have "\<exists>t' n. A t' \<and> FuncName t' = TaskFuncAddTowInt \<and> Args t' = []
      \<and> object_name clock t s = ID t' @ FuncName t' @ FormatInt n"
    if "Args t = [] \<and> FuncName t = TaskFuncAddTowInt"
    unfolding object_name_def using that assms(1) by blast
  then show ?thesis using inv unfolding u onAssignTask_storage results_def zero_object_def by auto
qed

lemma worker_OnPacket_results:
  assumes "heard A h m" and inv: "worker_inv s" "results A s"
    and t: "t = res_state (worker_OnPacket E clock ref h m s)"
  shows "results A t \<and> dom (objectStorage s) \<subseteq> dom (objectStorage t)"
proof -
  have same: ?thesis if "objectStorage t = objectStorage s"
    using that inv(2) by (simp add: results_def)
  show ?thesis
    using inv(1)
  proof (cases rule: worker_OnPacket_cases [where E = E and clock = clock and ref = ref and h = h and m = m])
    case same
    then show ?thesis using inv(2) by (simp add: t)
  next
    case (establish req)
    then show ?thesis by (intro same) (simp add: t worker_onEstablish_def Let_def)
  next
    case notify
    then show ?thesis by (intro same) (simp add: t worker_onEstablishAck_def)
  next
    case (assign req)
    then obtain u where "A u" "req = assign_request u" using assms(1) by (auto simp: heard_def)
    then show ?thesis using onAssignTask_results [OF _ inv(2)] assign(3) t by simp
  next
    case (fetch req)
    then show ?thesis using assms(1) by (simp add: heard_def)
  qed
qed

section \<open>The other events\<close>

lemma worker_own_storage:
  assumes "worker_own E s t"
  shows "objectStorage t = objectStorage s"
proof -
  have more: ?thesis if "node.more t = node.more s"
    by (rule objectStorage_data [OF worker_more [OF that]])
  have round: "objectStorage (res_state (worker_Loop_round E pick u)) = objectStorage u" for pick u
  proof (rule worker_Loop_round_quiet [of E u pick])
    fix q assume "worker_data (res_state (worker_Loop_round E pick u)) = worker_data (u\<lparr>registerObjectChan := q\<rparr>)"
    from objectStorage_data [OF this] show ?thesis by simp
  qed
  from assms show ?thesis
  proof cases
    case own_work_node
    then show ?thesis by (intro more) (induction rule: own_step.induct, simp_all)
  next
    case (own_work_open g remote)
    have "objectStorage (snd (cm_OnOpen g remote s)) = objectStorage s"
      by (rule objectStorage_data [OF worker_more]) simp
    then show ?thesis by (simp add: own_work_open worker_OnOpen_def split_beta)
  next
    case (own_work_tick keys)
    then show ?thesis by (intro more) (simp add: worker_Ontick_def node_Ontick_more)
  next
    case (own_work_establish a)
    then show ?thesis using worker_conn_Establish_quiet by (intro more) simp
  next
    case (own_work_conn_loop a timeout d)
    then show ?thesis
      by (auto simp: worker_conn_Loop_def Let_def set_inb_def split: if_splits option.splits)
  next
    case (own_work_report pick)
    then show ?thesis by (simp add: round)
  next
    case own_work_wake
    then show ?thesis by (simp add: round) (simp add: with_reports_def)
  qed (simp_all add: with_reports_def)
qed

lemma worker_own_says:
  assumes "worker_own E s t" and inv: "blank s" "node_inv s" "worker_links s"
  shows "says E (worker_says A s) s t"
  using assms(1)
proof cases
  case own_work_node
  then show ?thesis by (rule own_says [OF _ inv(1)]) (simp add: worker_says_def)
next
  case (own_work_open g remote)
  have "says E (worker_says A s) s (snd (cm_OnOpen g remote s))" by (rule says_OnOpen [OF inv(1)])
  then show ?thesis by (simp add: own_work_open worker_OnOpen_def split_beta)
next
  case (own_work_tick keys)
  then show ?thesis
    unfolding own_work_tick using inv(2)
    by (intro worker_beat.round_says) (auto simp: worker_says_def dial_talk_def node_inv_def)
next
  case (own_work_establish a)
  show ?thesis
    unfolding own_work_establish(1) worker_conn_Establish_def worker_conn_Send_def Let_def
    by (rule says_encode_send [OF _ own_work_establish(2)])
      (simp_all add: says_refl worker_says_def dial_talk_def)
next
  case (own_work_conn_loop a timeout d)
  then show ?thesis
    by (auto simp: worker_conn_Loop_def Let_def intro!: says_quiet split: if_splits option.splits)
next
  case (own_work_report pick)
  then show ?thesis using worker_Loop_round_says [OF inv(3), of s] by simp
next
  case own_work_wake
  let ?u = "with_reports unpark s"
  have "ref_alloc ref ?u = ref_alloc ref s" "ref_Remote ref ?u = ref_Remote ref s" for ref
    by (cases ref; simp add: with_reports_def)+
  then have "worker_links ?u"
    using inv(3) unfolding worker_links_def by (simp add: with_reports_def unpark_def)
  from worker_Loop_round_says [OF this, of s E A True] have "says E (worker_says A ?u) s t"
    using own_work_wake(1) by simp
  moreover have "knows_more ?u s" by (simp add: knows_more_def node_next_def with_reports_def)
  ultimately show ?thesis by (rule worker_says_later)
qed (simp_all add: says_refl)

section \<open>A send that waits\<close>

text \<open>
  When the channel of announcements is full, \<^verbatim>\<open>onAddTowInt\<close> waits in its send, and with it the event
  loop that called it. A \<open>stall\<close> is what the rest of \<^verbatim>\<open>onAssignTask\<close> needs: once the channel has room
  the id is sent and the answer is written.
\<close>

record stall =
  st_conn :: conn_ref
  st_seq :: uint64
  st_task :: string
  st_object :: string
  st_err :: "go_error option"

definition stalled_at :: "(nat \<Rightarrow> int64) \<Rightarrow> conn_ref \<Rightarrow> Header \<Rightarrow> pb_msg \<Rightarrow> worker \<Rightarrow> stall option" where
  "stalled_at clock ref h msg s =
    (case as_AssignTaskRequest msg of
       None \<Rightarrow> None
     | Some req \<Rightarrow>
         if Uri h = RayAssignTask \<and> AssignTaskRequest_FuncName req = TaskFuncAddTowInt then
           (case resolve_args (AssignTaskRequest_ArgsType req) 0 (AssignTaskRequest_Args req) s of
              Ok args s1 \<Rightarrow>
                let task = \<lparr>ID = AssignTaskRequest_TaskId req, FuncName = AssignTaskRequest_FuncName req,
                      Args = args, ArgsType = AssignTaskRequest_ArgsType req,
                      Dependencies = AssignTaskRequest_Dependencies req\<rparr>
                in Some \<lparr>st_conn = ref, st_seq = SeqId h, st_task = ID task,
                     st_object = object_name clock task s, st_err = snd (AddTowIntFunc task)\<rparr>
            | _ \<Rightarrow> None)
         else None)"

definition finish_assign :: "env \<Rightarrow> stall \<Rightarrow> worker \<Rightarrow> (go_error option, worker) res" where
  "finish_assign E st s =
    (case try_send (st_object st) (registerObjectChan s) of
       None \<Rightarrow> Block s
     | Some ch \<Rightarrow>
         answer_assign E (st_conn st) (st_seq st) (st_task st) (st_err st) (s\<lparr>registerObjectChan := ch\<rparr>))"

lemma resolve_args_chan:
  "resolve_args types i args (s\<lparr>registerObjectChan := ch\<rparr>) =
    map_state (\<lambda>t. t\<lparr>registerObjectChan := ch\<rparr>) (resolve_args types i args s)"
proof (induction args arbitrary: i)
  case (Cons arg args)
  have same: "GetObject k (s\<lparr>registerObjectChan := ch\<rparr>) = GetObject k s" for k by (simp add: GetObject_def)
  show ?case
    using Cons [of "Suc i"]
    by (cases "resolve_args types (Suc i) args s") (auto simp: same DecodeString_def split: option.split)
qed simp

lemma resolve_args_not_Block: "resolve_args types i args s \<noteq> Block t"
proof (induction args arbitrary: i)
  case (Cons arg args)
  show ?case
    using Cons [of "Suc i"]
    by (cases "resolve_args types (Suc i) args s") (auto simp: DecodeString_def split: option.splits if_splits)
qed simp

lemma answer_assign_not_Block:
  assumes "netC (inb s a) = None"
  shows "answer_assign E (InConn a) seq k err s \<noteq> Block t"
  using assms by (auto simp: answer_assign_def connection_Send_def Let_def split: sum.splits option.splits)

text \<open>
  A task that waits and is then let go on has done what it would have done on a channel with room.
  When the announcement of a result blocks the handler of an assignment, the call stands in a send
  with a value, a task and an error that are fixed at the time of the call; on every channel that is
  not full, finishing that call and making it anew agree in their result and in all of the state.
\<close>

lemma finish_assign_resumes:
  assumes block: "onAssignTask E clock (InConn a) h req s = Block s1" and uri: "Uri h = RayAssignTask"
    and gnet: "netC (inb s a) = None" and room: "length (buf ch) < chan_slots ch"
  shows "\<exists>st. stalled_at clock (InConn a) h (MAssignTaskRequest req) s = Some st
    \<and> finish_assign E st (s1\<lparr>registerObjectChan := ch\<rparr>)
      = onAssignTask E clock (InConn a) h req (s\<lparr>registerObjectChan := ch\<rparr>)"
proof -
  let ?types = "AssignTaskRequest_ArgsType req"
  obtain args s' where Ok: "resolve_args ?types 0 (AssignTaskRequest_Args req) s = Ok args s'"
    using block resolve_args_not_Block
    by (cases "resolve_args ?types 0 (AssignTaskRequest_Args req) s") (auto simp: onAssignTask_def)
  then have args: "resolve_args ?types 0 (AssignTaskRequest_Args req) s = Ok args s"
    using resolve_args_OkD by blast
  define task where "task = \<lparr>ID = AssignTaskRequest_TaskId req, FuncName = AssignTaskRequest_FuncName req,
    Args = args, ArgsType = ?types, Dependencies = AssignTaskRequest_Dependencies req\<rparr>"
  have run: "onAssignTask E clock (InConn a) h req (s\<lparr>registerObjectChan := c\<rparr>) =
      bind_res (dispatch_task clock task (s\<lparr>registerObjectChan := c\<rparr>))
        (\<lambda>err s2. answer_assign E (InConn a) (SeqId h) (ID task) err s2)" for c
    by (simp add: onAssignTask_def resolve_args_chan args task_def Let_def)
  have now: "bind_res (dispatch_task clock task s)
        (\<lambda>err s2. answer_assign E (InConn a) (SeqId h) (ID task) err s2) = Block s1"
    using block by (simp add: onAssignTask_def args task_def Let_def)
  have add: "FuncName task = TaskFuncAddTowInt"
    using now answer_assign_not_Block [OF gnet] by (auto simp: dispatch_task_def split: if_splits)
  define obj where "obj = object_name clock task s"
  define w where "w = SetObject obj \<lparr>ObjType = ObjectTypeInt, ObjData = EncodeInt (fst (AddTowIntFunc task))\<rparr>
    (s\<lparr>time_calls := Suc (time_calls s)\<rparr>)"
  have d: "dispatch_task clock task s = (case try_send obj (registerObjectChan s) of
      None \<Rightarrow> Block w | Some c \<Rightarrow> Ok (snd (AddTowIntFunc task)) (w\<lparr>registerObjectChan := c\<rparr>))"
    using add by (simp add: dispatch_task_def onAddTowInt_def obj_def w_def SetObject_def Let_def split_beta
        split: option.split)
  have netC: "netC (inb (w\<lparr>registerObjectChan := c\<rparr>) a) = None" for c
    using gnet by (simp add: w_def SetObject_def)
  have s1: "s1 = w"
    using now answer_assign_not_Block [OF netC] unfolding d by (auto split: option.splits)
  obtain c where c: "try_send obj ch = Some c" using room by (simp add: try_send_def chan_slots_def)
  have "dispatch_task clock task (s\<lparr>registerObjectChan := ch\<rparr>)
      = Ok (snd (AddTowIntFunc task)) (w\<lparr>registerObjectChan := c\<rparr>)"
    using add c
    by (simp add: dispatch_task_def onAddTowInt_def obj_def w_def SetObject_def object_name_def Let_def split_beta)
  moreover have "stalled_at clock (InConn a) h (MAssignTaskRequest req) s =
      Some \<lparr>st_conn = InConn a, st_seq = SeqId h, st_task = ID task, st_object = obj,
        st_err = snd (AddTowIntFunc task)\<rparr>"
    using uri add args by (simp add: stalled_at_def task_def obj_def Let_def)
  ultimately show ?thesis using c by (simp add: finish_assign_def run s1)
qed

text \<open>What a stalled call guarantees, and that finishing it keeps the invariants.\<close>

definition stall_ok :: "stall \<Rightarrow> worker \<Rightarrow> bool" where
  "stall_ok st s \<longleftrightarrow> st_err st \<noteq> None \<and> st_object st \<in> dom (objectStorage s) \<and> ref_alloc (st_conn st) s"

lemma stall_ok_more: "stall_ok st s \<Longrightarrow> knows_more s t \<Longrightarrow> stall_ok st t"
  using node_next_ref(3) unfolding stall_ok_def knows_more_def by blast

lemma stalled_at_ok:
  assumes st: "stalled_at clock ref h m s = Some st" and "heard A h m" and ref: "ref_alloc ref s"
    and t: "t = res_state (worker_OnPacket E clock ref h m s)"
  shows "stall_ok st t"
proof -
  obtain req where req: "as_AssignTaskRequest m = Some req" "Uri h = RayAssignTask"
      "AssignTaskRequest_FuncName req = TaskFuncAddTowInt"
    using st by (auto simp: stalled_at_def split: option.splits if_splits)
  then obtain u where u: "req = assign_request u" using assms(2) by (auto simp: heard_def)
  have none: "Args u = []"
    using st req u by (cases "Args u") (auto simp: stalled_at_def assign_request_def)
  have t: "t = res_state (onAssignTask E clock ref h (assign_request u) s)"
    using t req u by (simp add: worker_OnPacket_def const_defs)
  have func: "FuncName u = TaskFuncAddTowInt" using req u by (simp add: assign_request_def)
  have "ref_alloc ref t" using heap_steps_next [OF onAssignTask_heap] node_next_ref(3) ref unfolding t by blast
  moreover have "object_name clock u s \<in> dom (objectStorage t)"
    unfolding t onAssignTask_storage using none func by simp
  moreover have "st_conn st = ref \<and> st_object st = object_name clock u s \<and> st_err st = Some ErrArgNum"
    using st req u none
    by (auto simp: stalled_at_def assign_request_def AddTowIntFunc_none object_name_def Let_def)
  ultimately show ?thesis by (simp add: stall_ok_def)
qed

lemma finish_assign_inv:
  assumes good: "node_good s" and inv: "worker_inv s \<and> worker_links s"
    and st: "st_object st \<in> dom (objectStorage s)"
    and t: "t = res_state (finish_assign E st s)"
  shows "node_good t \<and> worker_inv t \<and> worker_links t \<and> node_next s t \<and> objectStorage t = objectStorage s"
proof (cases "try_send (st_object st) (registerObjectChan s)")
  case None
  then show ?thesis
    using good inv by (simp add: t finish_assign_def)
next
  case (Some ch)
  let ?s1 = "s\<lparr>registerObjectChan := ch\<rparr>"
  have r: "t = res_state (answer_assign E (st_conn st) (st_seq st) (st_task st) (st_err st) ?s1)"
    by (simp add: t finish_assign_def Some)
  have heap: "heap_steps E s t" unfolding r by (intro heap_intros) (simp add: heap_refl)
  have data: "worker_data t = worker_data ?s1" unfolding r by simp
  note same = worker_dataD [OF data] and nxt = node_inv_next [OF heap good]
  have items: "set (buf ch) \<subseteq> insert (st_object st) (set (buf (registerObjectChan s)))"
    and "length (buf ch) \<le> chan_slots ch"
    using Some inv by (auto simp: try_send_def worker_inv_def chan_slots_def split: if_splits)
  then have "worker_inv t"
    using inv nxt same by (simp add: worker_inv_def)
  moreover have "worker_links t"
    using inv items nxt same st
    by (intro worker_links_next [of s t]) (auto simp: worker_links_def)
  ultimately show ?thesis using nxt same by simp
qed

lemma finish_assign_keeps:
  assumes good: "node_good s" and inv: "worker_inv s \<and> worker_links s" and st: "stall_ok st s"
    and t: "t = res_state (finish_assign E st s)"
  shows "node_good t \<and> worker_inv t \<and> worker_links t \<and> knows_more s t
    \<and> objectStorage t = objectStorage s \<and> says E (worker_says A w) s t"
proof -
  have "says E (worker_says A w) s t"
    using st
    by (auto simp: t finish_assign_def says_refl stall_ok_def worker_says_def rejects_def
        intro!: answer_assign_says split: option.split)
  then show ?thesis
    using finish_assign_inv [OF good inv _ t] st by (simp add: stall_ok_def knows_more_def)
qed

end
