(* ===== verification/Talk.thy ===== *)
theory Talk
  imports SchedulerTalk GcsTalk WorkerTalk
begin

text \<open>
  The contract of a node towards a network, as the locale \<open>talking_node\<close>: whatever the node does by
  itself, and whatever packet of a certain kind it hears, it keeps its invariant and its traces grow
  only by frames of its speech. Scheduler, store and worker meet the contract.
\<close>

section \<open>The contract\<close>

definition talks :: "env \<Rightarrow> ('a node_scheme \<Rightarrow> speech) \<Rightarrow> 'a node_scheme \<Rightarrow> 'a node_scheme \<Rightarrow> bool" where
  "talks E sp s t \<longleftrightarrow> node_next s t \<and> says E (sp t) s t \<and> (\<forall>ref h m. sp s ref h m \<longrightarrow> sp t ref h m)"

lemma talks_refl [simp]: "talks E sp s s"
  by (simp add: talks_def says_refl)

lemma talks_trans: "talks E sp s t \<Longrightarrow> talks E sp t u \<Longrightarrow> talks E sp s u"
  unfolding talks_def by (blast intro: says_trans says_mono node_next_trans)

text \<open>
  A packet reaches the node's \<^verbatim>\<open>OnPacket\<close> on an accepted connection, if the server has been started,
  and through the gate of \<open>client_OnPacket\<close> its \<^verbatim>\<open>HandlePacket\<close> on a dialling one.
\<close>

fun node_listens :: "conn_ref \<Rightarrow> 'a node_scheme \<Rightarrow> bool" where
  "node_listens (InConn a) s = (started s \<and> a < fresh s)"
| "node_listens (OutConn a) s = dials a s"

fun node_hear ::
  "(conn_ref \<Rightarrow> 'a node_scheme handler) \<Rightarrow> (conn_ref \<Rightarrow> 'a node_scheme handler) \<Rightarrow> int \<Rightarrow> conn_ref
     \<Rightarrow> 'a node_scheme handler" where
  "node_hear onPacket handlePacket now (InConn a) h m s = onPacket (InConn a) h m s"
| "node_hear onPacket handlePacket now (OutConn a) h m s = client_OnPacket now handlePacket a h m s"

locale talking_node =
  fixes E :: env
    and onPacket handlePacket :: "conn_ref \<Rightarrow> 'a node_scheme handler"
    and own :: "'a node_scheme \<Rightarrow> 'a node_scheme \<Rightarrow> bool"
    and Inv :: "'a node_scheme \<Rightarrow> bool"
    and sp :: "'a node_scheme \<Rightarrow> speech"
    and may_hear :: "Header \<Rightarrow> pb_msg \<Rightarrow> bool"
  assumes own_talk: "own s t \<Longrightarrow> Inv s \<Longrightarrow> Inv t \<and> talks E sp s t"
    and onPacket_talk: "Inv s \<Longrightarrow> a < fresh s \<Longrightarrow> may_hear h m \<Longrightarrow>
      t = res_state (onPacket (InConn a) h m s) \<Longrightarrow> Inv t \<and> talks E sp s t"
    and handlePacket_talk: "Inv s \<Longrightarrow> a < fresh s \<Longrightarrow> may_hear h m \<Longrightarrow>
      t = res_state (handlePacket (OutConn a) h m s) \<Longrightarrow> Inv t \<and> talks E sp s t"
    and receive_talk: "Inv s \<Longrightarrow> a < fresh s \<Longrightarrow>
      t = set_outb a s (snd (client_receive now h m (outb s a))) \<Longrightarrow> Inv t \<and> talks E sp s t"
begin

lemma hear_talk:
  assumes "Inv s" and "node_listens ref s" and "may_hear h m"
    and t: "t = res_state (node_hear onPacket handlePacket now ref h m s)"
  shows "Inv t \<and> talks E sp s t"
proof (cases ref)
  case (InConn a)
  then show ?thesis using assms onPacket_talk [of s a h m t] by simp
next
  case (OutConn a)
  define s1 where "s1 = set_outb a s (snd (client_receive now h m (outb s a)))"
  have a: "a < fresh s" using assms(2) OutConn by (simp add: dials_def)
  have s1: "Inv s1 \<and> talks E sp s s1" using receive_talk [OF assms(1) a s1_def] .
  have "t \<in> {s1, res_state (handlePacket (OutConn a) h m s1)}"
    unfolding t OutConn
    by (cases "handlePacket (OutConn a) h m s1")
      (auto simp: client_OnPacket_def s1_def Let_def split: prod.split verdict.split)
  then show ?thesis
    using s1 handlePacket_talk [of s1 a h m] a assms(3) talks_trans by (fastforce simp: s1_def)
qed

end

text \<open>What the gate of a dialling connection does to a node.\<close>

lemma receive_heap: "heap_steps E s (set_outb a s (snd (client_receive now h m (outb s a))))"
  by (intro heap_set_outb outside out_packet)

lemma receive_keeps:
  assumes "node_good s" and t: "t = set_outb a s (snd (client_receive now h m (outb s a)))"
  shows "node_good t" "node_next s t" "node_inv t" "node.more t = node.more s"
proof -
  have heap: "heap_steps (table_env []) s t" unfolding t by (rule receive_heap)
  show "node_good t" "node_next s t"
    by (rule heap_steps_good [OF heap assms(1)], rule heap_steps_next [OF heap])
  then show "node_inv t" by (simp add: node_good_def)
qed (simp add: t)

lemma cl_io_receive [simp]: "cl_io (snd (client_receive now h m c)) = cl_io c"
  by (auto simp: client_receive_def Let_def client_NotifyEstablish_def client_SetEstablished_def
      split: option.split)

lemma receive_says: "a < fresh s \<Longrightarrow> says E P s (set_outb a s (snd (client_receive now h m (outb s a))))"
  by (rule says_set_outb) simp_all

section \<open>The scheduler\<close>

definition scheduler_ok :: "(Task \<Rightarrow> bool) \<Rightarrow> scheduler \<Rightarrow> bool" where
  "scheduler_ok A s \<longleftrightarrow> node_good s \<and> scheduler_inv s \<and> blank s \<and> (\<forall>t \<in> held s. A t)"

lemma talks_scheduler: "talks E (\<lambda>_. scheduler_says A) s t \<longleftrightarrow> node_next s t \<and> says E (scheduler_says A) s t"
  by (simp add: talks_def)

lemma answer_event_push: "submitted (answer_event r s) = []"
  by (simp add: answer_event_def Let_def split: option.split)

lemma packet_events_push: "e \<in> set (packet_events h m s) \<Longrightarrow> submitted e = []"
  by (auto simp: packet_events_def answer_event_push split: option.splits if_splits)

lemma scheduler_OnPacket_held: "held (res_state (scheduler_OnPacket E ref h m s)) \<subseteq> held s"
proof -
  have "run pool_step (pool_of s) (packet_events h m s) (pool_of (res_state (scheduler_OnPacket E ref h m s)))"
    using scheduler_OnPacket_pool by (simp add: pool_run_def)
  from pool_run_held [OF this] show ?thesis using packet_events_push unfolding held_pool by fastforce
qed

lemma scheduler_ok_packet:
  assumes ok: "scheduler_ok A s" and ref: "ref_alloc ref s"
    and t: "t = res_state (scheduler_OnPacket E ref h m s)"
  shows "scheduler_ok A t \<and> talks E (\<lambda>_. scheduler_says A) s t"
proof -
  have "says E (scheduler_says A) s t" using scheduler_OnPacket_says [OF ref] unfolding t .
  moreover have "node_good t" using ok heap_steps_good [OF scheduler_OnPacket_heap] unfolding t scheduler_ok_def by blast
  moreover have "scheduler_inv t" using ok scheduler_OnPacket_inv [OF _ ref] unfolding t scheduler_ok_def by blast
  moreover have "held t \<subseteq> held s" using scheduler_OnPacket_held unfolding t .
  moreover have "node_next s t" unfolding t by (rule heap_steps_next [OF scheduler_OnPacket_heap])
  ultimately show ?thesis
    using ok says_blank unfolding scheduler_ok_def talks_scheduler by blast
qed

interpretation scheduler_talk: talking_node E "scheduler_OnPacket E" "scheduler_HandlePacket E"
    "scheduler_own E A" "scheduler_ok A" "\<lambda>_. scheduler_says A" "heard A" for E A
proof
  fix s t assume own: "scheduler_own E A s t" and ok: "scheduler_ok A s"
  obtain l where l: "scheduler_step buf_ops E s l t" "\<forall>task \<in> set (pushed l). A task"
    using scheduler_own_step [OF own, of buf_ops] by blast
  have s: "node_good s" "scheduler_inv s" "blank s" "\<And>u. u \<in> held s \<Longrightarrow> A u"
    using ok by (simp_all add: scheduler_ok_def)
  have says: "says E (scheduler_says A) s t" by (rule scheduler_own_says [OF own s(3,2,4)])
  have "held t \<subseteq> held s \<union> set (pushed l)" by (rule scheduler_step_held [OF l(1) s(1,2)])
  then have "\<forall>u \<in> held t. A u" using s(4) l(2) by blast
  then show "scheduler_ok A t \<and> talks E (\<lambda>_. scheduler_says A) s t"
    using scheduler_step_keeps [OF l(1) s(1,2)] says_blank [OF says s(3)] says
    by (simp add: scheduler_ok_def talks_scheduler)
next
  fix s a t h m assume "scheduler_ok A s" "a < fresh s"
  then show "t = res_state (scheduler_OnPacket E (InConn a) h m s) \<Longrightarrow> scheduler_ok A t \<and> talks E (\<lambda>_. scheduler_says A) s t"
    "t = res_state (scheduler_HandlePacket E (OutConn a) h m s) \<Longrightarrow> scheduler_ok A t \<and> talks E (\<lambda>_. scheduler_says A) s t"
    using scheduler_ok_packet [of A s "InConn a" t E h m] scheduler_ok_packet [of A s "OutConn a" t E h m]
    by (simp_all add: scheduler_HandlePacket_def)
next
  fix s a t now h m assume ok: "scheduler_ok A s" and a: "a < fresh s"
    and t: "t = set_outb a s (snd (client_receive now h m (outb s a)))"
  have "node_good s" using ok by (simp add: scheduler_ok_def)
  note nxt = receive_keeps [OF this t] and more = receive_keeps(4) [OF this t]
  have says: "says E (scheduler_says A) s t" unfolding t by (rule receive_says [OF a])
  have "held t = held s" unfolding held_pool pool_of_more [OF more] ..
  then show "scheduler_ok A t \<and> talks E (\<lambda>_. scheduler_says A) s t"
    using ok nxt scheduler_inv_next [OF _ nxt(2,3) more] says_blank [OF says] says
    by (simp add: scheduler_ok_def talks_scheduler)
qed

section \<open>The store\<close>

definition gcs_ok :: "gcs \<Rightarrow> bool" where
  "gcs_ok s \<longleftrightarrow> node_good s \<and> gcs_inv s \<and> blank s"

lemma talks_gcs: "talks E (\<lambda>_. gcs_says) s t \<longleftrightarrow> node_next s t \<and> says E gcs_says s t"
  by (simp add: talks_def)

lemma gcs_ok_packet:
  assumes ok: "gcs_ok s" and ref: "ref_alloc ref s" and h: "\<not> fetches h" and t: "t = res_state (gcs_OnPacket E ref h m s)"
  shows "gcs_ok t \<and> talks E (\<lambda>_. gcs_says) s t"
proof -
  have "says E gcs_says s t" using gcs_OnPacket_says [OF ref h] unfolding t .
  moreover have "node_good t" using ok heap_steps_good [OF gcs_OnPacket_heap] unfolding t gcs_ok_def by blast
  moreover have "node_next s t" unfolding t by (rule heap_steps_next [OF gcs_OnPacket_heap])
  moreover have "gcs_inv t" using ok gcs_OnPacket_gcs_inv [OF _ ref] unfolding t gcs_ok_def by blast
  ultimately show ?thesis using ok says_blank unfolding gcs_ok_def talks_gcs by blast
qed

interpretation gcs_talk: talking_node E "gcs_OnPacket E" "gcs_HandlePacket E"
    "gcs_own E" gcs_ok "\<lambda>_. gcs_says" "heard A" for E A
proof
  fix s t assume own: "gcs_own E s t" and ok: "gcs_ok s"
  have s: "node_good s" "gcs_inv s" "blank s" using ok by (simp_all add: gcs_ok_def)
  have says: "says E gcs_says s t" by (rule gcs_own_says [OF own s(3,2)])
  then show "gcs_ok t \<and> talks E (\<lambda>_. gcs_says) s t"
    using gcs_step_keeps [OF gcs_own_step [OF own, of buf_ops] s(1,2)] says_blank [OF says s(3)]
    by (simp add: gcs_ok_def talks_gcs)
next
  fix s a t h m assume "gcs_ok s" "a < fresh s" "heard A h m"
  then show "t = res_state (gcs_OnPacket E (InConn a) h m s) \<Longrightarrow> gcs_ok t \<and> talks E (\<lambda>_. gcs_says) s t"
    "t = res_state (gcs_HandlePacket E (OutConn a) h m s) \<Longrightarrow> gcs_ok t \<and> talks E (\<lambda>_. gcs_says) s t"
    using gcs_ok_packet [of s "InConn a" h t E m] gcs_ok_packet [of s "OutConn a" h t E m]
    by (simp_all add: gcs_HandlePacket_def heard_def)
next
  fix s a t now h m assume ok: "gcs_ok s" and a: "a < fresh s"
    and t: "t = set_outb a s (snd (client_receive now h m (outb s a)))"
  have "node_good s" using ok by (simp add: gcs_ok_def)
  note nxt = receive_keeps [OF this t] and more = gcs_more [OF receive_keeps(4) [OF this t]]
  have says: "says E gcs_says s t" unfolding t by (rule receive_says [OF a])
  then show "gcs_ok t \<and> talks E (\<lambda>_. gcs_says) s t"
    using ok nxt(1,2) gcs_inv_dir [OF _ nxt(2,3) more] says_blank [OF says] says
    by (simp add: gcs_ok_def talks_gcs)
qed

section \<open>The worker\<close>

definition worker_ok :: "(Task \<Rightarrow> bool) \<Rightarrow> worker \<Rightarrow> bool" where
  "worker_ok A s \<longleftrightarrow> node_good s \<and> worker_inv s \<and> worker_links s \<and> blank s \<and> results A s"

lemma worker_talks:
  assumes ok: "worker_ok A s" and "node_good t" "node_next s t" "worker_inv t" "worker_links t"
    and "results A t" "dom (objectStorage s) \<subseteq> dom (objectStorage t)"
    and says: "says E (worker_says A t) s t"
  shows "worker_ok A t \<and> talks E (worker_says A) s t"
proof -
  have "knows_more s t" using assms(3,7) by (simp add: knows_more_def)
  then show ?thesis
    using assms says_blank [OF says] worker_says_more [of A s _ _ _ t] by (auto simp: worker_ok_def talks_def)
qed

lemma worker_talks_data:
  assumes ok: "worker_ok A s" and "node_good t" "node_next s t" "worker_inv t" "worker_links t"
    and same: "objectStorage t = objectStorage s" and says: "says E (worker_says A s) s t"
  shows "worker_ok A t \<and> talks E (worker_says A) s t"
proof (rule worker_talks [OF assms(1-5)])
  show "results A t" using ok by (simp add: worker_ok_def results_def same)
  show "says E (worker_says A t) s t"
    by (rule worker_says_later [OF says]) (simp add: knows_more_def assms(3) same)
qed (simp add: same)

interpretation worker_talk: talking_node E "worker_OnPacket E clock" worker_HandlePacket
    "worker_own E" "worker_ok A" "worker_says A" "heard A" for E clock A
proof
  fix s t assume own: "worker_own E s t" and ok: "worker_ok A s"
  have s: "node_good s" "worker_inv s \<and> worker_links s" "blank s" using ok by (simp_all add: worker_ok_def)
  then have n: "node_inv s" by (simp add: worker_inv_def)
  have keeps: "node_good t \<and> node_next s t \<and> worker_inv t \<and> worker_links t"
    by (rule worker_step_keeps [OF worker_own_step [OF own, of buf_ops] s(1,2)])
  show "worker_ok A t \<and> talks E (worker_says A) s t"
    by (rule worker_talks_data [OF ok])
      (use keeps worker_own_says [OF own s(3) n] worker_own_storage [OF own] s(2) in blast)+
next
  fix s a t h m assume ok: "worker_ok A s" and a: "a < fresh s" and may: "heard A h m"
    and t: "t = res_state (worker_OnPacket E clock (InConn a) h m s)"
  have s: "node_good s" "worker_inv s" "worker_links s" "results A s" using ok by (simp_all add: worker_ok_def)
  have ref: "ref_alloc (InConn a) s" using a by simp
  have heap: "heap_steps E s t" unfolding t by (rule worker_OnPacket_heap)
  show "worker_ok A t \<and> talks E (worker_says A) s t"
  proof (rule worker_talks [OF ok heap_steps_good [OF heap s(1)] heap_steps_next [OF heap]])
    show "worker_inv t" "worker_links t"
      unfolding t using worker_OnPacket_inv [OF s(2)] worker_OnPacket_links [OF s(2,3) ref] by blast+
    show "results A t" "dom (objectStorage s) \<subseteq> dom (objectStorage t)"
      using worker_OnPacket_results [OF may s(2,4) t] by blast+
    show "says E (worker_says A t) s t" by (rule worker_OnPacket_says [OF may a s(2) t])
  qed
next
  fix s a t h m assume "worker_ok A s" "t = res_state (worker_HandlePacket (OutConn a) h m s)"
  then show "worker_ok A t \<and> talks E (worker_says A) s t" by (simp add: worker_HandlePacket_def)
next
  fix s a t now h m assume ok: "worker_ok A s" and a: "a < fresh s"
    and t: "t = set_outb a s (snd (client_receive now h m (outb s a)))"
  have "node_good s" using ok by (simp add: worker_ok_def)
  note nxt = receive_keeps [OF this t] and more = receive_keeps(4) [OF this t]
  have "worker_inv t \<and> worker_links t"
    using work_node.Inv_next [OF _ nxt(2,3) more] ok unfolding worker_ok_def by blast
  then show "worker_ok A t \<and> talks E (worker_says A) s t"
    using worker_talks_data [OF ok nxt(1,2)] objectStorage_data [OF worker_more [OF more]]
      receive_says [OF a] unfolding t by blast
qed

end
