(* ===== verification/Flow.thy ===== *)
theory Flow
  imports Says
begin

text \<open>
  One direction of a transport as a pipe of bytes: what a trace has put on it, and what the other end
  decodes when a prefix of it has arrived. The pipe may be cut anywhere; what comes out at the front is
  always a packet that was said.
\<close>

section \<open>What goes in\<close>

fun put :: "nat \<Rightarrow> io_event \<Rightarrow> byte list" where
  "put g (AsyncWrite g' b err) = (if g' = g \<and> err = None then b else [])"
| "put g (NetWrite w b n err) = []"
| "put g (GnetClose g') = []"
| "put g (NetClose w) = []"

definition sent :: "nat \<Rightarrow> io_event list \<Rightarrow> byte list" where
  "sent g tr = concat (map (put g) tr)"

lemma sent_simps [simp]: "sent g [] = []" "sent g (e # tr) = put g e @ sent g tr" "sent g (a @ b) = sent g a @ sent g b"
  by (simp_all add: sent_def)

text \<open>\<open>frames_of E P bs\<close>: the bytes are complete frames of payloads of \<open>P\<close>.\<close>

definition frames_of :: "env \<Rightarrow> (Header \<Rightarrow> pb_msg \<Rightarrow> bool) \<Rightarrow> byte list \<Rightarrow> bool" where
  "frames_of E P bs \<longleftrightarrow> (\<exists>ps. bs = concat (map MakeFrame ps) \<and> (\<forall>p \<in> set ps. payload_of E P p))"

lemma frames_of_Nil [simp]: "frames_of E P []"
  unfolding frames_of_def by (rule exI [of _ "[]"]) simp

lemma frames_of_append: "frames_of E P a \<Longrightarrow> frames_of E P b \<Longrightarrow> frames_of E P (a @ b)"
  unfolding frames_of_def by (metis Un_iff concat_append map_append set_append)

lemma frames_of_one: "payload_of E P p \<Longrightarrow> frames_of E P (MakeFrame p)"
  unfolding frames_of_def by (rule exI [of _ "[p]"]) simp

lemma frames_of_mono: "frames_of E P bs \<Longrightarrow> (\<And>h m. P h m \<Longrightarrow> Q h m) \<Longrightarrow> frames_of E Q bs"
  unfolding frames_of_def using payload_mono by blast

lemma frames_of_Cons:
  assumes "frames_of E P bs" and "bs \<noteq> []"
  obtains p rest where "bs = MakeFrame p @ rest" "payload_of E P p" "frames_of E P rest"
proof -
  obtain ps where ps: "bs = concat (map MakeFrame ps)" "\<forall>p \<in> set ps. payload_of E P p"
    using assms(1) unfolding frames_of_def by blast
  then obtain p qs where "ps = p # qs" using assms(2) by (cases ps) auto
  with ps show thesis by (intro that [of p "concat (map MakeFrame qs)"]) (auto simp: frames_of_def)
qed

lemma put_frames: "utters E P e \<Longrightarrow> frames_of E P (put g e)"
  by (cases e) (auto intro: frames_of_one)

lemma longer_sent:
  assumes "longer E P tr tr'"
  obtains bs where "sent g tr' = sent g tr @ bs" and "frames_of E P bs"
proof -
  obtain ev where ev: "tr' = tr @ ev" "list_all (utters E P) ev"
    using assms unfolding longer_def by blast
  have "frames_of E P (sent g ev)"
    using ev(2) by (induction ev) (auto intro: frames_of_append put_frames)
  then show thesis using that ev(1) by simp
qed

section \<open>What comes out\<close>

text \<open>
  \<open>faithful E\<close>: the protobuf runtime reads back what it has marshalled, and no message comes near
  the 4 GiB that the length of a frame can express. \<open>paired P\<close>: a speech uses each URI for the type
  of message that belongs to it.
\<close>

definition faithful :: "env \<Rightarrow> bool" where
  "faithful E \<longleftrightarrow> (\<forall>m body. pb_Marshal E m = Inr body \<longrightarrow> pb_roundtrips E m body \<and> length body < 2 ^ 32 - 10)"

definition paired :: "(Header \<Rightarrow> pb_msg \<Rightarrow> bool) \<Rightarrow> bool" where
  "paired P \<longleftrightarrow> (\<forall>h m. P h m \<longrightarrow> uri_kind (Uri h) = Some (kind_of m))"

lemma not_ready_prefix:
  assumes "length p < 2 ^ 32" and "k < length (MakeFrame p)"
  shows "\<not> frame_ready (take k (MakeFrame p))"
proof (cases "k < 4")
  case False
  then have "Uint32 (take k (MakeFrame p)) = Uint32 (MakeFrame p)" by (simp add: Uint32_def)
  also have "\<dots> = word_of_nat (length p)" using Uint32_MakeFrame [of p "[]"] by simp
  finally have "frame_len (take k (MakeFrame p)) = length p"
    using unat_length_word [OF assms(1)] by (simp add: frame_len_def)
  then show ?thesis using assms(2) by (simp add: frame_ready_def)
qed (simp add: frame_ready_def)

lemma not_ready_empty: "\<not> frame_ready (take k (MakeFrame [] @ rest))"
proof (cases "k < 4")
  case False
  then have "Uint32 (take k (MakeFrame [] @ rest)) = Uint32 (MakeFrame [] @ rest)" by (simp add: Uint32_def)
  also have "\<dots> = 0" using Uint32_MakeFrame [of "[]" rest] by simp
  finally show ?thesis by (simp add: frame_ready_def frame_len_def)
qed (simp add: frame_ready_def)

lemma payload_frame:
  assumes "faithful E" and "payload_of E P p" and "p \<noteq> []"
  obtains h m body where "P h m" "pb_roundtrips E m body" "length body < 2 ^ 32 - 10"
    "MakeFrame p = wire_frame h body" "length p = 10 + length body"
proof -
  obtain h m where hm: "P h m" "EncodePayload E h m = Inr p"
    using assms(2,3) unfolding payload_of_def by blast
  then obtain body where body: "pb_Marshal E m = Inr body"
    by (auto simp: EncodePayload_def split: sum.splits)
  have frame: "MakeFrame p = wire_frame h body" by (rule wire_frame_EncodePayload [OF body hm(2)])
  have "length (MakeFrame p) = length (wire_frame h body)" by (simp only: frame)
  then have "length p = 10 + length body" by simp
  then show thesis using that hm(1) frame assms(1) body unfolding faithful_def by blast
qed

text \<open>
  Whatever part of the frames has arrived: a decode reports no error but the shortage of bytes, and
  if it returns a packet then the packet was said, and what it leaves is at the start of a frame.
\<close>

lemma decode_frames:
  assumes E: "faithful E" and P: "paired P" and bs: "frames_of E P bs"
  shows "decode_bytes E (take k bs) = (Inl ErrShortBuffer, take k bs)
    \<or> (\<exists>h m p rest. bs = MakeFrame p @ rest \<and> P h m \<and> frames_of E P rest \<and> length (MakeFrame p) \<le> k
        \<and> decode_bytes E (take k bs) = (Inr (h, m), take (k - length (MakeFrame p)) rest))"
proof (cases "bs = []")
  case True
  then show ?thesis by (simp add: decode_bytes_def frame_ready_def)
next
  case False
  then obtain p rest where p: "bs = MakeFrame p @ rest" "payload_of E P p" "frames_of E P rest"
    using frames_of_Cons bs by blast
  show ?thesis
  proof (cases "p = []")
    case True
    then show ?thesis using not_ready_empty [of k rest] p(1) by (simp add: decode_bytes_not_ready)
  next
    case False
    then obtain h m body where f: "P h m" "pb_roundtrips E m body" "length body < 2 ^ 32 - 10"
      "MakeFrame p = wire_frame h body" "length p = 10 + length body"
      using payload_frame E p(2) by blast
    show ?thesis
    proof (cases "length (MakeFrame p) \<le> k")
      case True
      let ?rest = "take (k - length (MakeFrame p)) rest"
      have "take k bs = wire_frame h body @ ?rest"
        using True unfolding p(1) f(4) by simp
      moreover have "unmarshalByURI E (Uri h) body = Inr m"
        using P f(1) by (intro unmarshalByURI_roundtrip [OF f(2)]) (simp add: paired_def)
      ultimately have "decode_bytes E (take k bs) = (Inr (h, m), ?rest)"
        using decode_bytes_wire_frame [OF f(3), of E h ?rest] by simp
      then show ?thesis using p f(1) True by blast
    next
      case False
      then have "\<not> frame_ready (take k bs)"
        using not_ready_prefix [of p k] p(1) f(3,5) by simp
      then show ?thesis by (simp add: decode_bytes_not_ready)
    qed
  qed
qed

end
