(* ===== verification/Network.thy ===== *)
theory Network
  imports Talk Flow
begin

text \<open>
  The whole system: any number of schedulers, stores and workers, joined by pipes of bytes, in any
  interleaving of everything that the nodes do by themselves, the arrival of bytes, and the packets
  that come out of the pipes. The pipes keep the order of the bytes and cut the stream anywhere.
\<close>

section \<open>Peers\<close>

datatype peer = SchedulerPeer scheduler | GcsPeer gcs | WorkerPeer worker

fun io_of :: "conn_ref \<Rightarrow> 'a node_scheme \<Rightarrow> io_event list" where
  "io_of (InConn a) s = conn_io (inb s a)"
| "io_of (OutConn a) s = cl_io (outb s a)"

fun peer_io :: "conn_ref \<Rightarrow> peer \<Rightarrow> io_event list" where
  "peer_io ref (SchedulerPeer s) = io_of ref s"
| "peer_io ref (GcsPeer s) = io_of ref s"
| "peer_io ref (WorkerPeer s) = io_of ref s"

fun peer_listens :: "conn_ref \<Rightarrow> peer \<Rightarrow> bool" where
  "peer_listens ref (SchedulerPeer s) = node_listens ref s"
| "peer_listens ref (GcsPeer s) = node_listens ref s"
| "peer_listens ref (WorkerPeer s) = node_listens ref s"

inductive peer_own :: "env \<Rightarrow> (Task \<Rightarrow> bool) \<Rightarrow> peer \<Rightarrow> peer \<Rightarrow> bool" for E A where
  own_scheduler: "scheduler_own E A s t \<Longrightarrow> peer_own E A (SchedulerPeer s) (SchedulerPeer t)"
| own_gcs: "gcs_own E s t \<Longrightarrow> peer_own E A (GcsPeer s) (GcsPeer t)"
| own_worker: "worker_own E s t \<Longrightarrow> peer_own E A (WorkerPeer s) (WorkerPeer t)"

fun peer_hear ::
  "env \<Rightarrow> (nat \<Rightarrow> int64) \<Rightarrow> int \<Rightarrow> conn_ref \<Rightarrow> Header \<Rightarrow> pb_msg \<Rightarrow> peer \<Rightarrow> (go_error option, peer) res" where
  "peer_hear E clock now ref h m (SchedulerPeer s) =
     map_state SchedulerPeer (node_hear (scheduler_OnPacket E) (scheduler_HandlePacket E) now ref h m s)"
| "peer_hear E clock now ref h m (GcsPeer s) =
     map_state GcsPeer (node_hear (gcs_OnPacket E) (gcs_HandlePacket E) now ref h m s)"
| "peer_hear E clock now ref h m (WorkerPeer s) =
     map_state WorkerPeer (node_hear (worker_OnPacket E clock) worker_HandlePacket now ref h m s)"

fun peer_stall :: "(nat \<Rightarrow> int64) \<Rightarrow> conn_ref \<Rightarrow> Header \<Rightarrow> pb_msg \<Rightarrow> peer \<Rightarrow> stall option" where
  "peer_stall clock ref h m (WorkerPeer w) = stalled_at clock ref h m w"
| "peer_stall clock ref h m (SchedulerPeer s) = None"
| "peer_stall clock ref h m (GcsPeer s) = None"

section \<open>The network\<close>

text \<open>
  Who is joined to whom is fixed: \<open>W l\<close> is the direction \<open>l\<close> of a transport, from what the
  connection \<open>from_conn\<close> of one node writes on the transport \<open>handle\<close> to the connection \<open>to_conn\<close> of
  another. A node whose program has ended with a panic is \<open>Down\<close>; its one event loop may be waiting in
  a send (\<open>Sending\<close>) or for ever (\<open>Stuck\<close>), which holds up the packets of all accepted connections.
\<close>

record link =
  from_peer :: nat
  from_conn :: conn_ref
  handle :: nat
  to_peer :: nat
  to_conn :: conn_ref

datatype status = Serving | Sending stall | Stuck | Down

record net =
  peers :: "nat \<Rightarrow> peer"
  status :: "nat \<Rightarrow> status"
  shut :: "nat \<Rightarrow> bool"
  arrived :: "nat \<Rightarrow> nat"
  consumed :: "nat \<Rightarrow> nat"

definition link_bytes :: "(nat \<Rightarrow> link) \<Rightarrow> nat \<Rightarrow> net \<Rightarrow> byte list" where
  "link_bytes W l n = sent (handle (W l)) (peer_io (from_conn (W l)) (peers n (from_peer (W l))))"

definition inbuf :: "(nat \<Rightarrow> link) \<Rightarrow> nat \<Rightarrow> net \<Rightarrow> byte list" where
  "inbuf W l n = take (arrived n l - consumed n l) (drop (consumed n l) (link_bytes W l n))"

definition can_read :: "(nat \<Rightarrow> link) \<Rightarrow> nat \<Rightarrow> net \<Rightarrow> bool" where
  "can_read W l n \<longleftrightarrow> \<not> shut n l \<and> peer_listens (to_conn (W l)) (peers n (to_peer (W l))) \<and>
     (case to_conn (W l) of
        InConn a \<Rightarrow> status n (to_peer (W l)) = Serving
      | OutConn a \<Rightarrow> status n (to_peer (W l)) \<noteq> Down)"

text \<open>What the result of a handler means for the event loop, and whether the connection is closed.\<close>

definition loop_status :: "conn_ref \<Rightarrow> stall option \<Rightarrow> (go_error option, peer) res \<Rightarrow> status \<Rightarrow> status" where
  "loop_status ref st r old =
    (case r of
       Ok err p \<Rightarrow> old
     | Panic e p \<Rightarrow> Down
     | Block p \<Rightarrow>
         (case ref of
            InConn a \<Rightarrow> (case st of Some x \<Rightarrow> Sending x | None \<Rightarrow> Stuck)
          | OutConn a \<Rightarrow> old))"

definition closes :: "(go_error option, peer) res \<Rightarrow> bool" where
  "closes r = (case r of Ok err p \<Rightarrow> err \<noteq> None | _ \<Rightarrow> True)"

text \<open>One turn of the read loop at the far end of \<open>l\<close>.\<close>

definition skip_bytes :: "(nat \<Rightarrow> link) \<Rightarrow> nat \<Rightarrow> byte list \<Rightarrow> net \<Rightarrow> net" where
  "skip_bytes W l rest n =
    n\<lparr>consumed := (consumed n)(l := consumed n l + (length (inbuf W l n) - length rest))\<rparr>"

definition hand_over ::
  "env \<Rightarrow> (nat \<Rightarrow> int64) \<Rightarrow> int \<Rightarrow> (nat \<Rightarrow> link) \<Rightarrow> nat \<Rightarrow> Header \<Rightarrow> pb_msg \<Rightarrow> net \<Rightarrow> net" where
  "hand_over E clock now W l h m n =
    (let j = to_peer (W l); ref = to_conn (W l);
         r = peer_hear E clock now ref h m (peers n j)
     in n\<lparr>peers := (peers n)(j := res_state r),
          status := (status n)(j := loop_status ref (peer_stall clock ref h m (peers n j)) r (status n j)),
          shut := (shut n)(l := closes r)\<rparr>)"

definition read_packet ::
  "env \<Rightarrow> (nat \<Rightarrow> int64) \<Rightarrow> int \<Rightarrow> (nat \<Rightarrow> link) \<Rightarrow> nat \<Rightarrow> net \<Rightarrow> net" where
  "read_packet E clock now W l n =
    (case ZeroCopyDecode buf_ops E (inbuf W l n) of
       (Inl err, rest) \<Rightarrow>
         if err = ErrShortBuffer then skip_bytes W l rest n
         else (skip_bytes W l rest n)\<lparr>shut := (shut n)(l := True)\<rparr>
     | (Inr (h, m), rest) \<Rightarrow> hand_over E clock now W l h m (skip_bytes W l rest n))"

text \<open>The send that the event loop of a worker waits in goes through when its channel has room.\<close>

definition resume :: "env \<Rightarrow> nat \<Rightarrow> stall \<Rightarrow> worker \<Rightarrow> net \<Rightarrow> net" where
  "resume E i st w n =
    (let r = finish_assign E st w in
     n\<lparr>peers := (peers n)(i := WorkerPeer (res_state r)),
       status := (status n)(i := (case r of Ok err t \<Rightarrow> Serving | Panic e t \<Rightarrow> Down | Block t \<Rightarrow> Stuck))\<rparr>)"

text \<open>
  A turn is what the programs do: a node does something by itself, bytes arrive, a read loop takes a
  packet, a waiting send goes through. A step is a turn or a fault, which comes from outside at any time:
  a connection is cut, a process is killed. Safety is stated of steps, and what the programs can do by
  themselves of turns.
\<close>

inductive net_turn ::
  "env \<Rightarrow> (nat \<Rightarrow> int64) \<Rightarrow> (Task \<Rightarrow> bool) \<Rightarrow> (nat \<Rightarrow> link) \<Rightarrow> net \<Rightarrow> net \<Rightarrow> bool" for E clock A W where
  turn_own: "status n i \<noteq> Down \<Longrightarrow> peer_own E A (peers n i) p \<Longrightarrow>
    net_turn E clock A W n (n\<lparr>peers := (peers n)(i := p)\<rparr>)"
| turn_arrive: "arrived n l \<le> k \<Longrightarrow> k \<le> length (link_bytes W l n) \<Longrightarrow>
    net_turn E clock A W n (n\<lparr>arrived := (arrived n)(l := k)\<rparr>)"
| turn_read: "can_read W l n \<Longrightarrow> net_turn E clock A W n (read_packet E clock now W l n)"
| turn_resume: "peers n i = WorkerPeer w \<Longrightarrow> status n i = Sending st \<Longrightarrow>
    length (buf (registerObjectChan w)) < chan_slots (registerObjectChan w) \<Longrightarrow>
    net_turn E clock A W n (resume E i st w n)"

inductive net_step ::
  "env \<Rightarrow> (nat \<Rightarrow> int64) \<Rightarrow> (Task \<Rightarrow> bool) \<Rightarrow> (nat \<Rightarrow> link) \<Rightarrow> net \<Rightarrow> net \<Rightarrow> bool" for E clock A W where
  net_by_turn: "net_turn E clock A W n n' \<Longrightarrow> net_step E clock A W n n'"
| net_shut: "net_step E clock A W n (n\<lparr>shut := (shut n)(l := True)\<rparr>)"
| net_crash: "net_step E clock A W n (n\<lparr>status := (status n)(i := Down)\<rparr>)"

lemmas net_own = net_by_turn [OF turn_own]
lemmas net_arrive = net_by_turn [OF turn_arrive]
lemmas net_read = net_by_turn [OF turn_read]
lemmas net_resume = net_by_turn [OF turn_resume]

lemma net_by_turns: "(net_turn E clock A W)\<^sup>*\<^sup>* n n' \<Longrightarrow> (net_step E clock A W)\<^sup>*\<^sup>* n n'"
  by (erule rtranclp_mono [THEN predicate2D, rotated]) (blast intro: net_by_turn)

text \<open>The cases of a step, one for each kind of turn and of fault.\<close>

lemma net_step_cases [consumes 1, case_names net_own net_arrive net_read net_resume net_shut net_crash, cases pred: net_step]:
  assumes "net_step E clock A W n n'"
  obtains i p where "n' = n\<lparr>peers := (peers n)(i := p)\<rparr>" "status n i \<noteq> Down" "peer_own E A (peers n i) p"
  | l k where "n' = n\<lparr>arrived := (arrived n)(l := k)\<rparr>" "arrived n l \<le> k" "k \<le> length (link_bytes W l n)"
  | l now where "n' = read_packet E clock now W l n" "can_read W l n"
  | i w st where "n' = resume E i st w n" "peers n i = WorkerPeer w" "status n i = Sending st"
      "length (buf (registerObjectChan w)) < chan_slots (registerObjectChan w)"
  | l where "n' = n\<lparr>shut := (shut n)(l := True)\<rparr>"
  | i where "n' = n\<lparr>status := (status n)(i := Down)\<rparr>"
  using assms by (elim net_step.cases net_turn.cases) blast+

text \<open>Every node has just been made, nothing is on its way.\<close>

fun newly_made :: "peer \<Rightarrow> bool" where
  "newly_made (SchedulerPeer s) = (\<exists>l a opts. NewScheduler l a opts = Some s)"
| "newly_made (GcsPeer s) = (\<exists>l a opts. s = NewGCS l a opts)"
| "newly_made (WorkerPeer s) = (\<exists>l a opts. NewWorker l a opts = Some s)"

definition net_start :: "net \<Rightarrow> bool" where
  "net_start n \<longleftrightarrow> (\<forall>i. newly_made (peers n i)) \<and> status n = (\<lambda>_. Serving) \<and> shut n = (\<lambda>_. False)
     \<and> arrived n = (\<lambda>_. 0) \<and> consumed n = (\<lambda>_. 0)"

section \<open>What a peer says\<close>

fun peer_says :: "(Task \<Rightarrow> bool) \<Rightarrow> peer \<Rightarrow> speech" where
  "peer_says A (SchedulerPeer s) = scheduler_says A"
| "peer_says A (GcsPeer s) = gcs_says"
| "peer_says A (WorkerPeer w) = worker_says A w"

fun peer_ok :: "(Task \<Rightarrow> bool) \<Rightarrow> peer \<Rightarrow> bool" where
  "peer_ok A (SchedulerPeer s) = scheduler_ok A s"
| "peer_ok A (GcsPeer s) = gcs_ok s"
| "peer_ok A (WorkerPeer w) = worker_ok A w"

fun peer_talks :: "env \<Rightarrow> (Task \<Rightarrow> bool) \<Rightarrow> peer \<Rightarrow> peer \<Rightarrow> bool" where
  "peer_talks E A (SchedulerPeer s) (SchedulerPeer t) = talks E (\<lambda>_. scheduler_says A) s t"
| "peer_talks E A (GcsPeer s) (GcsPeer t) = talks E (\<lambda>_. gcs_says) s t"
| "peer_talks E A (WorkerPeer s) (WorkerPeer t) = talks E (worker_says A) s t"
| "peer_talks E A _ _ = False"

lemma says_longer: "says E P s t \<Longrightarrow> longer E (P ref) (io_of ref s) (io_of ref t)"
  by (cases ref) (simp_all add: says_def)

lemma peer_talks_longer: "peer_talks E A p q \<Longrightarrow> longer E (peer_says A q ref) (peer_io ref p) (peer_io ref q)"
  by (induction E A p q rule: peer_talks.induct) (auto simp: talks_def intro: says_longer)

lemma peer_talks_more: "peer_talks E A p q \<Longrightarrow> peer_says A p ref h m \<Longrightarrow> peer_says A q ref h m"
  by (induction E A p q rule: peer_talks.induct) (auto simp: talks_def)

lemma peer_talks_cases:
  assumes "peer_talks E A p q"
  obtains s t where "p = SchedulerPeer s" "q = SchedulerPeer t" "talks E (\<lambda>_. scheduler_says A) s t"
  | s t where "p = GcsPeer s" "q = GcsPeer t" "talks E (\<lambda>_. gcs_says) s t"
  | s t where "p = WorkerPeer s" "q = WorkerPeer t" "talks E (worker_says A) s t"
  using assms by (cases p; cases q) auto

lemma peer_own_talks: "peer_own E A p q \<Longrightarrow> peer_ok A p \<Longrightarrow> peer_ok A q \<and> peer_talks E A p q"
  by (induction rule: peer_own.induct) (auto dest: scheduler_talk.own_talk gcs_talk.own_talk worker_talk.own_talk)

lemma res_state_map [simp]: "res_state (map_state f r) = f (res_state r)"
  by (cases r) simp_all

lemma peer_hear_talks:
  assumes "peer_ok A p" and "peer_listens ref p" and "heard A h m"
  shows "peer_ok A (res_state (peer_hear E clock now ref h m p))
    \<and> peer_talks E A p (res_state (peer_hear E clock now ref h m p))"
  using assms scheduler_talk.hear_talk gcs_talk.hear_talk worker_talk.hear_talk
  by (cases p) auto

text \<open>Every speech uses the right types, and assigns only tasks of \<open>A\<close>.\<close>

lemma peer_says_paired: "paired (peer_says A p ref)"
  by (cases p) (auto simp: paired_def scheduler_says_def gcs_says_def worker_says_def dial_talk_def
      uri_kind_def uri_table_def const_defs)

lemma peer_says_heard:
  assumes "peer_says A p ref h m"
  shows "heard A h m"
proof -
  have "uri_kind (Uri h) = Some (kind_of m)"
    using peer_says_paired [of A p ref] assms unfolding paired_def by blast
  moreover have "\<not> fetches h \<and> (Uri h = RayAssignTask \<longrightarrow> (\<exists>t. A t \<and> m = MAssignTaskRequest (assign_request t)))"
    using assms
    by (cases p) (auto simp: fetches_def scheduler_says_def gcs_says_def worker_says_def dial_talk_def const_defs)
  ultimately show ?thesis by (simp add: heard_def)
qed

section \<open>The invariant\<close>

text \<open>
  Every node is well-formed; a stalled call is one whose rest can be finished; and what a reader has
  not consumed of a pipe is a sequence of frames of packets that the writer may say in the state it is
  in now.
\<close>

definition link_ok :: "env \<Rightarrow> (Task \<Rightarrow> bool) \<Rightarrow> (nat \<Rightarrow> link) \<Rightarrow> nat \<Rightarrow> net \<Rightarrow> bool" where
  "link_ok E A W l n \<longleftrightarrow> consumed n l \<le> arrived n l \<and> arrived n l \<le> length (link_bytes W l n)
     \<and> frames_of E (peer_says A (peers n (from_peer (W l))) (from_conn (W l)))
         (drop (consumed n l) (link_bytes W l n))"

definition net_ok :: "env \<Rightarrow> (Task \<Rightarrow> bool) \<Rightarrow> (nat \<Rightarrow> link) \<Rightarrow> net \<Rightarrow> bool" where
  "net_ok E A W n \<longleftrightarrow> (\<forall>i. peer_ok A (peers n i))
     \<and> (\<forall>i st. status n i = Sending st \<longrightarrow> (\<exists>w. peers n i = WorkerPeer w \<and> stall_ok st w))
     \<and> (\<forall>l. link_ok E A W l n)"

lemma stall_ok_talks:
  assumes "talks E (worker_says A) s t" and "stall_ok st s"
  shows "stall_ok st t"
proof -
  let ?r = "\<lparr>ReportTaskResultRequest_TaskId = [], ReportTaskResultRequest_Status = [],
    ReportTaskResultRequest_ObjectId = st_object st, ReportTaskResultRequest_ResultData = []\<rparr>"
  let ?h = "\<lparr>Uri = RayReportTaskResult, SeqId = 0\<rparr>"
  have "worker_says A s (st_conn st) ?h (MReportTaskResultRequest ?r)"
    using assms(2) by (simp add: worker_says_def stall_ok_def)
  then have "worker_says A t (st_conn st) ?h (MReportTaskResultRequest ?r)"
    using assms(1) by (simp add: talks_def)
  then have "st_object st \<in> dom (objectStorage t)"
    by (auto simp: worker_says_def dial_talk_def const_defs)
  moreover have "ref_alloc (st_conn st) t"
    using assms node_next_ref(3) by (auto simp: talks_def stall_ok_def)
  ultimately show ?thesis using assms(2) by (simp add: stall_ok_def)
qed

text \<open>A node that talks keeps every pipe in order; so does a reader that takes whole frames.\<close>

lemma link_ok_talks:
  assumes ok: "link_ok E A W l n" and p: "peer_talks E A (peers n i) p"
    and n': "peers n' = (peers n)(i := p)" "arrived n' = arrived n" "consumed n' = consumed n"
  shows "link_ok E A W l n'"
proof (cases "from_peer (W l) = i")
  case True
  let ?P = "peer_says A p (from_conn (W l))"
  obtain bs where bs: "link_bytes W l n' = link_bytes W l n @ bs" "frames_of E ?P bs"
    using longer_sent [OF peer_talks_longer [OF p]] True unfolding link_bytes_def n' by simp metis
  have c: "consumed n l \<le> length (link_bytes W l n)" using ok by (simp add: link_ok_def)
  have "frames_of E ?P (drop (consumed n l) (link_bytes W l n))"
    using ok True peer_talks_more [OF p] unfolding link_ok_def by (blast intro: frames_of_mono)
  then have "frames_of E ?P (drop (consumed n l) (link_bytes W l n'))"
    using bs c by (simp add: frames_of_append)
  then show ?thesis using ok True bs(1) by (simp add: link_ok_def n')
next
  case False
  then have "link_bytes W l n' = link_bytes W l n" by (simp add: link_bytes_def n')
  then show ?thesis using ok False by (simp add: link_ok_def n')
qed

lemma net_ok_talks:
  assumes ok: "net_ok E A W n" and p: "peer_talks E A (peers n i) p" "peer_ok A p"
    and n': "peers n' = (peers n)(i := p)" "arrived n' = arrived n" "consumed n' = consumed n"
    and wait: "\<And>j st. status n' j = Sending st \<Longrightarrow> status n j = Sending st \<or> (j = i \<and> (\<exists>w. p = WorkerPeer w \<and> stall_ok st w))"
  shows "net_ok E A W n'"
proof -
  have "\<exists>w. peers n' j = WorkerPeer w \<and> stall_ok st w" if blocked: "status n' j = Sending st" for j st
  proof (cases "j = i \<and> (\<exists>w. p = WorkerPeer w \<and> stall_ok st w)")
    case False
    then obtain w where w: "peers n j = WorkerPeer w" "stall_ok st w"
      using wait [OF blocked] False ok unfolding net_ok_def by blast
    show ?thesis
    proof (cases "j = i")
      case True
      then obtain t where "p = WorkerPeer t" "talks E (worker_says A) w t"
        using p(1) w(1) by (cases p) auto
      then show ?thesis using stall_ok_talks w(2) True by (auto simp: n')
    qed (use w in \<open>simp add: n'\<close>)
  qed (auto simp: n')
  then show ?thesis
    using ok p(2) link_ok_talks [OF _ p(1) n'] unfolding net_ok_def by (auto simp: n'(1))
qed

section \<open>Reading\<close>

text \<open>
  What a turn of a read loop does: nothing, or it takes one packet off the pipe, and this packet is
  one that the node at the other end of the pipe says.
\<close>

lemma read_packet_cases:
  assumes E: "faithful E" and ok: "net_ok E A W n"
  obtains (nothing) "read_packet E clock now W l n = n"
  | (packet) h m k n1 where "read_packet E clock now W l n = hand_over E clock now W l h m n1"
      and "n1 = n\<lparr>consumed := (consumed n)(l := k)\<rparr>" and "net_ok E A W n1"
      and "peer_says A (peers n (from_peer (W l))) (from_conn (W l)) h m"
proof -
  let ?P = "peer_says A (peers n (from_peer (W l))) (from_conn (W l))"
  define bs where "bs = drop (consumed n l) (link_bytes W l n)"
  define k where "k = arrived n l - consumed n l"
  have link: "consumed n l \<le> arrived n l" "arrived n l \<le> length (link_bytes W l n)" "frames_of E ?P bs"
    using ok by (simp_all add: net_ok_def link_ok_def bs_def)
  have buf: "inbuf W l n = take k bs" by (simp add: inbuf_def bs_def k_def)
  have k: "k \<le> length bs" using link(1,2) by (simp add: bs_def k_def)
  have dec: "ZeroCopyDecode buf_ops E (inbuf W l n) = decode_bytes E (take k bs)"
    using ZeroCopyDecode_refines [OF buf_ops_ok, of E "take k bs"] unfolding buf by (simp add: prod_eq_iff)
  from decode_frames [OF E peer_says_paired link(3), of k] show thesis
  proof (elim disjE exE conjE)
    assume "decode_bytes E (take k bs) = (Inl ErrShortBuffer, take k bs)"
    then have "read_packet E clock now W l n = n" using dec buf by (simp add: read_packet_def skip_bytes_def)
    then show thesis by (rule nothing)
  next
    fix h m p rest
    assume p: "bs = MakeFrame p @ rest" "?P h m" "frames_of E ?P rest" "length (MakeFrame p) \<le> k"
      and d: "decode_bytes E (take k bs) = (Inr (h, m), take (k - length (MakeFrame p)) rest)"
    define c where "c = consumed n l + length (MakeFrame p)"
    define n1 where "n1 = n\<lparr>consumed := (consumed n)(l := c)\<rparr>"
    have "length (take (k - length (MakeFrame p)) rest) = k - length (MakeFrame p)"
      using k unfolding p(1) by simp
    then have "skip_bytes W l (take (k - length (MakeFrame p)) rest) n = n1"
      using k p(4) by (simp add: skip_bytes_def n1_def c_def buf)
    then have read: "read_packet E clock now W l n = hand_over E clock now W l h m n1"
      using dec d by (simp add: read_packet_def)
    have bytes: "link_bytes W l' n1 = link_bytes W l' n" for l' by (simp add: link_bytes_def n1_def)
    have "drop c (link_bytes W l n) = drop (length (MakeFrame p)) bs"
      by (simp add: c_def bs_def add.commute)
    also have "\<dots> = rest" unfolding p(1) by simp
    finally have "link_ok E A W l n1"
      using link(1,2) p(3,4) unfolding link_ok_def bytes by (simp add: n1_def c_def k_def)
    moreover have "link_ok E A W l' n1" if "l' \<noteq> l" for l'
      using ok that unfolding net_ok_def link_ok_def bytes by (simp add: n1_def)
    ultimately have "link_ok E A W l' n1" for l' by (cases "l' = l") auto
    then have "net_ok E A W n1" using ok by (simp add: net_ok_def n1_def)
    with read n1_def p(2) show thesis by (intro packet) auto
  qed
qed

text \<open>A packet that was said is one that the reader may hear; handing it over keeps the invariant.\<close>

lemma hand_over_ok:
  assumes ok: "net_ok E A W n" and may: "heard A h m"
    and listens: "peer_listens (to_conn (W l)) (peers n (to_peer (W l)))"
  shows "net_ok E A W (hand_over E clock now W l h m n)"
proof -
  let ?j = "to_peer (W l)" and ?ref = "to_conn (W l)"
  let ?r = "peer_hear E clock now ?ref h m (peers n ?j)"
  have p: "peer_ok A (res_state ?r)" "peer_talks E A (peers n ?j) (res_state ?r)"
    using peer_hear_talks [OF _ listens may] ok unfolding net_ok_def by blast+
  have wait: "\<exists>w. res_state ?r = WorkerPeer w \<and> stall_ok st w"
    if "loop_status ?ref (peer_stall clock ?ref h m (peers n ?j)) ?r (status n ?j) = Sending st"
      "status n ?j \<noteq> Sending st" for st
  proof -
    from that obtain a where a: "?ref = InConn a" "peer_stall clock ?ref h m (peers n ?j) = Some st"
      by (auto simp: loop_status_def split: res.splits conn_ref.splits option.splits)
    then obtain w where w: "peers n ?j = WorkerPeer w" "stalled_at clock (InConn a) h m w = Some st"
      by (cases "peers n ?j") auto
    have "ref_alloc (InConn a) w" using listens a w by simp
    from stalled_at_ok [OF w(2) may this refl, where E = E] show ?thesis using w(1) a by simp
  qed
  show ?thesis
    by (rule net_ok_talks [OF ok p(2,1)]) (use wait in \<open>auto simp: hand_over_def Let_def split: if_splits\<close>)
qed

lemma resume_talks:
  assumes ok: "worker_ok A w" and st: "stall_ok st w" and t: "t = res_state (finish_assign E st w)"
  shows "worker_ok A t \<and> talks E (worker_says A) w t"
proof -
  have "node_good w" "worker_inv w \<and> worker_links w" using ok by (simp_all add: worker_ok_def)
  from finish_assign_keeps [OF this st t, of A w] show ?thesis
    by (intro worker_talks_data [OF ok]) (auto simp: knows_more_def)
qed

lemma net_step_ok:
  assumes step: "net_step E clock A W n n'" and E: "faithful E" and ok: "net_ok E A W n"
  shows "net_ok E A W n'"
  using step
proof cases
  case (net_own i p)
  then show ?thesis
    using peer_own_talks [of E A "peers n i" p] ok by (intro net_ok_talks [OF ok]) (auto simp: net_ok_def)
next
  case (net_arrive l k)
  have "link_ok E A W l' n'" for l'
    using ok net_arrive unfolding net_ok_def link_ok_def by (auto simp: link_bytes_def intro: order_trans)
  then show ?thesis using ok net_arrive(1) by (simp add: net_ok_def)
next
  case (net_read l now)
  from E ok show ?thesis
  proof (cases rule: read_packet_cases [where clock = clock and now = now and l = l])
    case nothing
    then show ?thesis using ok net_read by simp
  next
    case (packet h m k n1)
    have "peer_listens (to_conn (W l)) (peers n1 (to_peer (W l)))"
      using net_read(2) packet(2) by (simp add: can_read_def)
    then show ?thesis
      using hand_over_ok [OF packet(3) peer_says_heard [OF packet(4)]] packet(1) net_read(1) by simp
  qed
next
  case (net_resume i w st)
  have "peer_ok A (peers n i)" "stall_ok st w" using ok net_resume(2,3) unfolding net_ok_def by fastforce+
  then have "stall_ok st w" "worker_ok A w" using net_resume(2) by simp_all
  from resume_talks [OF this(2,1) refl, of E] show ?thesis
    using net_resume(1,2,3)
    by (intro net_ok_talks [OF ok, of i]) (auto simp: resume_def Let_def split: if_splits res.splits)
next
  case (net_shut l)
  then show ?thesis using ok by (simp add: net_ok_def link_ok_def link_bytes_def)
next
  case (net_crash i)
  then show ?thesis using ok by (simp add: net_ok_def link_ok_def link_bytes_def)
qed

end
