(* ===== verification/NetworkSpec.thy ===== *)
theory NetworkSpec
  imports Network
begin

text \<open>
  What holds of the whole system in every reachable state: what the nodes know of each other is true.
\<close>

section \<open>What a node has been told\<close>

text \<open>\<open>told A W n j ref u P\<close>: a node at the far end of \<open>ref\<close> of the node \<open>j\<close> says a packet of \<open>u\<close> with \<open>P\<close>.\<close>

definition told ::
  "(Task \<Rightarrow> bool) \<Rightarrow> (nat \<Rightarrow> link) \<Rightarrow> net \<Rightarrow> nat \<Rightarrow> conn_ref \<Rightarrow> uint16 \<Rightarrow> (pb_msg \<Rightarrow> bool) \<Rightarrow> bool" where
  "told A W n j ref u P \<longleftrightarrow> (\<exists>l h m. to_peer (W l) = j \<and> to_conn (W l) = ref \<and> Uri h = u \<and> P m
     \<and> peer_says A (peers n (from_peer (W l))) (from_conn (W l)) h m)"

fun reports :: "string \<Rightarrow> pb_msg \<Rightarrow> bool" where
  "reports obj m = (\<exists>r. m = MReportTaskResultRequest r \<and> ReportTaskResultRequest_ObjectId r = obj)"

fun greets_as_worker :: "pb_msg \<Rightarrow> bool" where
  "greets_as_worker m = (\<exists>r. m = MEstablishResponse r \<and> EstablishResponse_Mode r = ModeWorker)"

definition gcs_told :: "(Task \<Rightarrow> bool) \<Rightarrow> (nat \<Rightarrow> link) \<Rightarrow> net \<Rightarrow> nat \<Rightarrow> gcs \<Rightarrow> bool" where
  "gcs_told A W n j g \<longleftrightarrow> (\<forall>obj addr. objectLocationMap g obj = Some addr \<longrightarrow>
     (\<exists>ref. ref_alloc ref g \<and> ref_Remote ref g = addr \<and> told A W n j ref RayReportTaskResult (reports obj)))"

definition scheduler_told :: "(Task \<Rightarrow> bool) \<Rightarrow> (nat \<Rightarrow> link) \<Rightarrow> net \<Rightarrow> nat \<Rightarrow> scheduler \<Rightarrow> bool" where
  "scheduler_told A W n j s \<longleftrightarrow> (\<forall>k ref. workerConns s k = Some ref \<longrightarrow>
     told A W n j ref MetaEstablishAck greets_as_worker)"

fun peer_told :: "(Task \<Rightarrow> bool) \<Rightarrow> (nat \<Rightarrow> link) \<Rightarrow> net \<Rightarrow> nat \<Rightarrow> peer \<Rightarrow> bool" where
  "peer_told A W n j (SchedulerPeer s) = scheduler_told A W n j s"
| "peer_told A W n j (GcsPeer g) = gcs_told A W n j g"
| "peer_told A W n j (WorkerPeer w) = True"

definition net_told :: "(Task \<Rightarrow> bool) \<Rightarrow> (nat \<Rightarrow> link) \<Rightarrow> net \<Rightarrow> bool" where
  "net_told A W n \<longleftrightarrow> (\<forall>j. peer_told A W n j (peers n j))"

text \<open>What was told remains so while nodes go on talking.\<close>

lemma told_talks:
  assumes "told A W n j ref u P" and "peer_talks E A (peers n i) p" and "peers n' = (peers n)(i := p)"
  shows "told A W n' j ref u P"
proof -
  have "peer_says A (peers n k) r h m \<Longrightarrow> peer_says A (peers n' k) r h m" for k r h m
    using peer_talks_more [OF assms(2)] assms(3) by auto
  then show ?thesis using assms(1) unfolding told_def by blast
qed

lemma peer_told_same:
  assumes told: "peer_told A W n j p" and "\<And>ref u P. told A W n j ref u P \<Longrightarrow> told A W n' j ref u P"
  shows "peer_told A W n' j p"
  using assms by (cases p) (auto simp: gcs_told_def scheduler_told_def, blast+)

section \<open>What a node learns\<close>

fun gcs_learns :: "conn_ref \<Rightarrow> gcs \<Rightarrow> Header \<Rightarrow> pb_msg \<Rightarrow> gcs \<Rightarrow> bool" where
  "gcs_learns ref s h m t = (\<exists>r. Uri h = RayReportTaskResult \<and> m = MReportTaskResultRequest r \<and>
     objectLocationMap t = (objectLocationMap s)(ReportTaskResultRequest_ObjectId r \<mapsto> ref_Remote ref s))"

fun scheduler_learns :: "conn_ref \<Rightarrow> scheduler \<Rightarrow> Header \<Rightarrow> pb_msg \<Rightarrow> scheduler \<Rightarrow> bool" where
  "scheduler_learns ref s h m t = (Uri h = MetaEstablishAck \<and> greets_as_worker m \<and>
     (\<exists>k. workerConns t = (workerConns s)(k \<mapsto> ref)))"

lemma gcs_OnPacket_learns:
  "objectLocationMap (res_state (gcs_OnPacket E ref h m s)) = objectLocationMap s
    \<or> gcs_learns ref s h m (res_state (gcs_OnPacket E ref h m s))"
proof (cases "Uri h = RayReportTaskResult \<and> as_ReportTaskResultRequest m \<noteq> None")
  case True
  then obtain r where r: "m = MReportTaskResultRequest r" by (cases m) auto
  then show ?thesis using True by (simp add: gcs_OnPacket_def gcs_onReportTaskResult_def const_defs)
next
  case False
  then show ?thesis using gcs_OnPacket_dir [of h m E ref s] by blast
qed

lemma scheduler_OnPacket_learns:
  "workerConns (res_state (scheduler_OnPacket E ref h m s)) = workerConns s
    \<or> scheduler_learns ref s h m (res_state (scheduler_OnPacket E ref h m s))"
proof -
  have push: "workerConns (snd (PushTask t s)) = workerConns s" for t s
    by (simp add: PushTask_def split: option.split)
  have "workerConns (res_state (onAssignTaskResp r s)) = workerConns s" for r
    by (simp add: onAssignTaskResp_def Let_def push split: option.split)
  moreover have "workerConns (res_state (scheduler_onEstablish E ref h r s)) = workerConns s" for r
    by (simp add: scheduler_onEstablish_def Let_def)
  moreover have "as_EstablishResponse m = Some r \<Longrightarrow> m = MEstablishResponse r" for r by (cases m) auto
  ultimately show ?thesis
    by (auto simp: scheduler_OnPacket_def scheduler_onEstablishAck_def Let_def split: option.split)
qed

lemma client_OnPacket_state:
  "res_state (client_OnPacket now handlePacket a h m s)
    \<in> {set_outb a s (snd (client_receive now h m (outb s a))),
       res_state (handlePacket (OutConn a) h m (set_outb a s (snd (client_receive now h m (outb s a)))))}"
  by (cases "handlePacket (OutConn a) h m (set_outb a s (snd (client_receive now h m (outb s a))))")
    (auto simp: client_OnPacket_def Let_def split: prod.split verdict.split)

lemma receive_gcs:
  "objectLocationMap (set_outb a (s :: gcs) c) = objectLocationMap s"
  by (simp add: set_outb_def)

lemma receive_scheduler:
  "workerConns (set_outb a (s :: scheduler) c) = workerConns s"
  by (simp add: set_outb_def)

lemma receive_remote:
  "ref_Remote ref (set_outb a s (snd (client_receive now h m (outb s a)))) = ref_Remote ref s"
  using who_simps(12) [of now h m "outb s a"] by (cases ref) (auto simp: who_def)

lemma gcs_hear_learns:
  assumes "t = res_state (node_hear (gcs_OnPacket E) (gcs_HandlePacket E) now ref h m s)"
  shows "objectLocationMap t = objectLocationMap s \<or> gcs_learns ref s h m t"
proof (cases ref)
  case (InConn a)
  then show ?thesis using gcs_OnPacket_learns [of E "InConn a" h m s] assms by simp
next
  case (OutConn a)
  let ?s1 = "set_outb a s (snd (client_receive now h m (outb s a)))"
  have "t \<in> {?s1, res_state (gcs_OnPacket E ref h m ?s1)}"
    using assms OutConn client_OnPacket_state [of now "gcs_HandlePacket E" a h m s]
    by (simp add: gcs_HandlePacket_def)
  then show ?thesis
    using gcs_OnPacket_learns [of E ref h m ?s1] by (auto simp: receive_gcs receive_remote)
qed

lemma scheduler_hear_learns:
  assumes "t = res_state (node_hear (scheduler_OnPacket E) (scheduler_HandlePacket E) now ref h m s)"
  shows "workerConns t = workerConns s \<or> scheduler_learns ref s h m t"
proof (cases ref)
  case (InConn a)
  then show ?thesis using scheduler_OnPacket_learns [of E "InConn a" h m s] assms by simp
next
  case (OutConn a)
  let ?s1 = "set_outb a s (snd (client_receive now h m (outb s a)))"
  have "t \<in> {?s1, res_state (scheduler_OnPacket E ref h m ?s1)}"
    using assms OutConn client_OnPacket_state [of now "scheduler_HandlePacket E" a h m s]
    by (simp add: scheduler_HandlePacket_def)
  then show ?thesis
    using scheduler_OnPacket_learns [of E ref h m ?s1] by (auto simp: receive_scheduler)
qed

text \<open>By itself a node learns nothing.\<close>

lemma scheduler_own_workers:
  assumes "scheduler_own E A s t"
  shows "workerConns t = workerConns s"
  using assms
proof cases
  case own_sched_node
  then have "node.more t = node.more s" by (induction rule: own_step.induct) simp_all
  then show ?thesis by (rule scheduler_more)
next
  case (own_sched_open g remote)
  show ?thesis by (rule scheduler_more) (simp add: own_sched_open scheduler_OnOpen_def)
next
  case (own_sched_push task)
  then show ?thesis by (simp add: PushTask_def split: option.split)
next
  case (own_sched_round order)
  have loop: "workerConns (res_state (assign_loop E task order u)) = workerConns u" for task u
  proof (induction order arbitrary: u)
    case (Cons k order)
    show ?case
    proof (cases "workerConns u k")
      case (Some ref)
      let ?r = "handleServerReq E ref (MAssignTaskRequest (assign_request task))
        (u\<lparr>pendingTasks := (pendingTasks u)(ID task \<mapsto> task)\<rparr>)"
      have "workerConns (res_state ?r) = workerConns u" by simp
      then show ?thesis using Cons.IH Some by (cases ?r) simp_all
    qed (use Cons in simp)
  qed simp
  have "workerConns (res_state (AssignTask E order s)) = workerConns s"
    by (simp add: AssignTask_def loop split: option.split)
  then show ?thesis
    unfolding own_sched_round(1) by (cases "AssignTask E order s") (simp_all add: scheduler_Loop_round_def)
next
  case (own_sched_tick keys)
  show ?thesis by (rule scheduler_more) (simp add: own_sched_tick scheduler_Ontick_def node_Ontick_more)
next
  case (own_sched_establish a)
  show ?thesis by (rule scheduler_more) (use conn_Establish_heap own_sched_establish in blast)
next
  case (own_sched_conn_loop a timeout d)
  then show ?thesis
    by (auto simp: scheduler_conn_Loop_def Let_def set_inb_def split: if_splits option.splits)
qed

section \<open>Everything a node has learnt it was told\<close>

lemma gcs_told_next:
  assumes told: "gcs_told A W n j g" and nxt: "node_next g g'" and same: "objectLocationMap g' = objectLocationMap g"
  shows "gcs_told A W n j g'"
proof -
  have "ref_alloc ref g \<Longrightarrow> ref_alloc ref g' \<and> ref_Remote ref g' = ref_Remote ref g" for ref
    using node_next_ref [OF nxt, of ref] by blast
  then show ?thesis using told unfolding gcs_told_def same by metis
qed

lemma gcs_told_learns:
  assumes told: "gcs_told A W n j g" and nxt: "node_next g g'" and ref: "ref_alloc ref g"
    and learns: "gcs_learns ref g h m g'"
    and said: "\<And>obj. Uri h = RayReportTaskResult \<Longrightarrow> reports obj m \<Longrightarrow> told A W n j ref RayReportTaskResult (reports obj)"
  shows "gcs_told A W n j g'"
proof -
  obtain r where r: "Uri h = RayReportTaskResult" "m = MReportTaskResultRequest r"
    "objectLocationMap g' = (objectLocationMap g)(ReportTaskResultRequest_ObjectId r \<mapsto> ref_Remote ref g)"
    using learns by auto
  have keep: "ref_alloc q g \<Longrightarrow> ref_alloc q g' \<and> ref_Remote q g' = ref_Remote q g" for q
    using node_next_ref [OF nxt, of q] by blast
  have "told A W n j ref RayReportTaskResult (reports (ReportTaskResultRequest_ObjectId r))"
    using said r by simp
  then have new: "\<exists>q. ref_alloc q g' \<and> ref_Remote q g' = ref_Remote ref g
      \<and> told A W n j q RayReportTaskResult (reports (ReportTaskResultRequest_ObjectId r))"
    using keep [OF ref] by blast
  have old: "\<exists>q. ref_alloc q g' \<and> ref_Remote q g' = addr \<and> told A W n j q RayReportTaskResult (reports obj)"
    if "objectLocationMap g obj = Some addr" for obj addr
    using told that keep unfolding gcs_told_def by metis
  show ?thesis unfolding gcs_told_def r(3) using new old by auto
qed

lemma net_told_talks:
  assumes told: "net_told A W n" and talks: "peer_talks E A (peers n i) p" and n': "peers n' = (peers n)(i := p)"
    and p: "peer_told A W n i p"
  shows "net_told A W n'"
  unfolding net_told_def
proof
  fix j
  have "peer_told A W n j (peers n' j)" using told p by (simp add: n' net_told_def)
  then show "peer_told A W n' j (peers n' j)"
    by (rule peer_told_same) (rule told_talks [OF _ talks n'])
qed

lemma own_told:
  assumes "peer_own E A q p" and "peer_talks E A q p" and "peer_told A W n i q"
  shows "peer_told A W n i p"
  using assms
proof cases
  case (own_scheduler s t)
  then show ?thesis using assms(3) scheduler_own_workers by (simp add: scheduler_told_def)
next
  case (own_gcs s t)
  then show ?thesis
    using assms(2,3) gcs_own_dir by (auto simp: talks_def intro: gcs_told_next)
qed (use assms(3) in simp)

lemma hear_told:
  assumes told: "peer_told A W n j q" and listens: "peer_listens ref q"
    and p: "p = res_state (peer_hear E clock now ref h m q)" "peer_talks E A q p"
    and said: "\<And>P. P m \<Longrightarrow> told A W n j ref (Uri h) P"
  shows "peer_told A W n j p"
proof (cases q)
  case (SchedulerPeer s)
  then obtain t where t: "p = SchedulerPeer t"
    "t = res_state (node_hear (scheduler_OnPacket E) (scheduler_HandlePacket E) now ref h m s)"
    using p(1) by simp
  from scheduler_hear_learns [OF t(2)] show ?thesis
    using told said [of greets_as_worker] SchedulerPeer t(1) by (auto simp: scheduler_told_def split: if_splits)
next
  case (GcsPeer s)
  then obtain t where t: "p = GcsPeer t"
    "t = res_state (node_hear (gcs_OnPacket E) (gcs_HandlePacket E) now ref h m s)"
    using p(1) by simp
  have nxt: "node_next s t" using p(2) GcsPeer t(1) by (simp add: talks_def)
  have ref: "ref_alloc ref s" using listens GcsPeer by (cases ref) (simp_all add: dials_def)
  have old: "gcs_told A W n j s" using told GcsPeer by simp
  from gcs_hear_learns [OF t(2)] have "gcs_told A W n j t"
  proof
    assume "objectLocationMap t = objectLocationMap s"
    with gcs_told_next [OF old nxt] show ?thesis .
  next
    assume "gcs_learns ref s h m t"
    from gcs_told_learns [OF old nxt ref this] said show ?thesis by metis
  qed
  then show ?thesis by (simp add: t(1))
next
  case (WorkerPeer w)
  then show ?thesis using p(1) by simp
qed

lemma net_step_told:
  assumes step: "net_step E clock A W n n'" and E: "faithful E" and ok: "net_ok E A W n" and told: "net_told A W n"
  shows "net_told A W n'"
  using step
proof cases
  case (net_own i p)
  have "peer_talks E A (peers n i) p" using peer_own_talks [OF net_own(3)] ok by (simp add: net_ok_def)
  with own_told [OF net_own(3) this] told show ?thesis
    using net_told_talks [OF told, of E i p n'] net_own(1) by (simp add: net_told_def)
next
  case (net_read l now)
  from E ok show ?thesis
  proof (cases rule: read_packet_cases [where clock = clock and now = now and l = l])
    case nothing
    then show ?thesis using told net_read by simp
  next
    case (packet h m k n1)
    let ?j = "to_peer (W l)" and ?ref = "to_conn (W l)"
    let ?p = "res_state (peer_hear E clock now ?ref h m (peers n ?j))"
    have same: "peers n1 = peers n" by (simp add: packet(2))
    have listens: "peer_listens ?ref (peers n ?j)" using net_read(2) by (simp add: can_read_def)
    have talks: "peer_talks E A (peers n ?j) ?p"
      using peer_hear_talks [OF _ listens peer_says_heard [OF packet(4)]] ok by (simp add: net_ok_def)
    have "told A W n ?j ?ref (Uri h) P" if "P m" for P
      using packet(4) that unfolding told_def by blast
    then have "peer_told A W n ?j ?p"
      using hear_told [OF _ listens refl talks] told by (simp add: net_told_def)
    moreover have "peers n' = (peers n)(?j := ?p)"
      using net_read(1) packet(1) by (simp add: hand_over_def Let_def same)
    ultimately show ?thesis using net_told_talks [OF told talks] by blast
  qed
next
  case (net_resume i w st)
  have "peer_ok A (peers n i)" "stall_ok st w" using ok net_resume(2,3) unfolding net_ok_def by fastforce+
  then have "stall_ok st w" "worker_ok A w" using net_resume(2) by simp_all
  from resume_talks [OF this(2,1) refl, of E]
  have "peer_talks E A (peers n i) (WorkerPeer (res_state (finish_assign E st w)))"
    using net_resume(2) by simp
  from net_told_talks [OF told this] show ?thesis
    using net_resume(1) by (simp add: resume_def Let_def)
qed (use told in \<open>auto simp: net_told_def intro: peer_told_same simp: told_def\<close>)

end
