(* ===== verification/Delivery.thy ===== *)
theory Delivery
  imports Network
begin

text \<open>
  One frame through an empty pipe: the turns that runs of the network are put together from.
\<close>

text \<open>A pipe that was empty carries one frame: all of it arrives and is read in one turn.\<close>

definition delivered :: "(nat \<Rightarrow> link) \<Rightarrow> nat \<Rightarrow> net \<Rightarrow> net" where
  "delivered W l n = n\<lparr>arrived := (arrived n)(l := length (link_bytes W l n)),
     consumed := (consumed n)(l := length (link_bytes W l n))\<rparr>"

definition all_arrived :: "(nat \<Rightarrow> link) \<Rightarrow> nat \<Rightarrow> net \<Rightarrow> net" where
  "all_arrived W l n = n\<lparr>arrived := (arrived n)(l := length (link_bytes W l n))\<rparr>"

lemma frame_arrives:
  assumes rt: "pb_roundtrips E m body" and len: "length body < 2 ^ 32 - 10" and uri: "uri_kind (Uri h) = Some (kind_of m)"
    and front: "arrived n l = consumed n l" "consumed n l \<le> length (link_bytes W l n)"
      "drop (consumed n l) (link_bytes W l n) = wire_frame h body"
  shows "net_turn E clock A W n (all_arrived W l n)"
    and "ZeroCopyDecode buf_ops E (inbuf W l (all_arrived W l n)) = (Inr (h, m), [])"
    and "read_packet E clock now W l (all_arrived W l n) = hand_over E clock now W l h m (delivered W l n)"
proof -
  have bytes: "link_bytes W l (all_arrived W l n) = link_bytes W l n" by (simp add: link_bytes_def all_arrived_def)
  have buf: "inbuf W l (all_arrived W l n) = wire_frame h body"
    using front(1,2) unfolding inbuf_def bytes front(3) by (simp add: all_arrived_def flip: front(3))
  have "unmarshalByURI E (Uri h) body = Inr m" by (rule unmarshalByURI_roundtrip [OF rt uri])
  then show decode: "ZeroCopyDecode buf_ops E (inbuf W l (all_arrived W l n)) = (Inr (h, m), [])"
    using ZeroCopyDecode_refines [OF buf_ops_ok, of E "wire_frame h body"] decode_bytes_wire_frame [OF len, of E h "[]"]
    unfolding buf by (simp add: prod_eq_iff)
  have "consumed n l + length (wire_frame h body) = length (link_bytes W l n)"
    using front(2) by (simp only: front(3) [symmetric] length_drop)
  then have "skip_bytes W l [] (all_arrived W l n) = delivered W l n"
    using buf by (simp add: skip_bytes_def delivered_def all_arrived_def)
  with decode show "read_packet E clock now W l (all_arrived W l n) = hand_over E clock now W l h m (delivered W l n)"
    by (simp add: read_packet_def)
  show "net_turn E clock A W n (all_arrived W l n)"
    unfolding all_arrived_def by (rule turn_arrive) (use front in auto)
qed

lemma can_read_arrived: "can_read W l (all_arrived W l n) = can_read W l n"
  by (simp add: can_read_def all_arrived_def cong: conn_ref.case_cong)

lemma read_whole:
  assumes "pb_roundtrips E m body" and "length body < 2 ^ 32 - 10" and "uri_kind (Uri h) = Some (kind_of m)"
    and can: "can_read W l n"
    and "arrived n l = consumed n l" "consumed n l \<le> length (link_bytes W l n)"
      "drop (consumed n l) (link_bytes W l n) = wire_frame h body"
  shows "(net_turn E clock A W)\<^sup>*\<^sup>* n (hand_over E clock now W l h m (delivered W l n))"
proof -
  note arrives = frame_arrives [OF assms(1-3,5-7)]
  have "net_turn E clock A W (all_arrived W l n) (read_packet E clock now W l (all_arrived W l n))"
    by (rule turn_read) (simp add: can_read_arrived can)
  then show ?thesis using arrives(1) unfolding arrives(3) by (metis converse_rtranclp_into_rtranclp r_into_rtranclp)
qed

text \<open>If the handler returns without an error, nothing but the far peer and the counters of the pipe has changed.\<close>

lemma read_quiet:
  assumes rt: "pb_roundtrips E m body" and len: "length body < 2 ^ 32 - 10" and uri: "uri_kind (Uri h) = Some (kind_of m)"
    and can: "can_read W l n"
    and front: "arrived n l = consumed n l" "consumed n l \<le> length (link_bytes W l n)"
      "drop (consumed n l) (link_bytes W l n) = wire_frame h body"
    and hear: "peer_hear E clock now (to_conn (W l)) h m (peers n (to_peer (W l))) = Ok None p"
  shows "(net_turn E clock A W)\<^sup>*\<^sup>* n ((delivered W l n)\<lparr>peers := (peers n)(to_peer (W l) := p)\<rparr>)"
proof -
  have "(shut n)(l := False) = shut n" using can by (simp add: can_read_def fun_upd_idem)
  then have "hand_over E clock now W l h m (delivered W l n) = (delivered W l n)\<lparr>peers := (peers n)(to_peer (W l) := p)\<rparr>"
    using hear by (simp add: hand_over_def delivered_def loop_status_def closes_def Let_def)
  then show ?thesis using read_whole [OF rt len uri can front, where clock = clock and now = now and A = A] by simp
qed

end
