(* ===== verification/SampleNet.thy ===== *)
theory SampleNet
  imports NetworkSpec Delivery
begin

declare writeFull.simps [code]

definition demo_task :: Task where
  "demo_task = \<lparr>ID = ''t'', FuncName = TaskFuncAddTowInt, Args = [], ArgsType = [], Dependencies = []\<rparr>"

definition idle_task :: Task where
  "idle_task = \<lparr>ID = ''i'', FuncName = ''nop'', Args = [], ArgsType = [], Dependencies = []\<rparr>"

definition heavy_task :: Task where
  "heavy_task = \<lparr>ID = ''h'', FuncName = TaskFuncAddTowInt, Args = [EncodeInt 1, EncodeInt 2],
     ArgsType = [''int'', ''int''], Dependencies = []\<rparr>"

abbreviation pushed :: "Task \<Rightarrow> bool" where
  "pushed t \<equiv> t = demo_task \<or> t = idle_task"

definition idle_answer :: AssignTaskResponse where
  "idle_answer = \<lparr>AssignTaskResponse_Accepted = True, AssignTaskResponse_WorkerId = [], AssignTaskResponse_TaskId = ''i''\<rparr>"

definition demo_object :: string where
  "demo_object = ''taddTowInt0''"

definition demo_env :: env where
  "demo_env = table_env
    [(MEstablishReq \<lparr>EstablishReq_Addr = [], EstablishReq_Mode = ModeScheduler\<rparr>, [1]),
     (MEstablishReq \<lparr>EstablishReq_Addr = [], EstablishReq_Mode = ModeGCS\<rparr>, [2]),
     (MEstablishResponse \<lparr>EstablishResponse_Mode = ModeWorker, EstablishResponse_Err = ''OK''\<rparr>, [3]),
     (MAssignTaskRequest (assign_request demo_task), [4]),
     (MAssignTaskResponse \<lparr>AssignTaskResponse_Accepted = False, AssignTaskResponse_WorkerId = [],
        AssignTaskResponse_TaskId = ''t''\<rparr>, [5]),
     (MReportTaskResultRequest \<lparr>ReportTaskResultRequest_TaskId = [], ReportTaskResultRequest_Status = [],
        ReportTaskResultRequest_ObjectId = demo_object, ReportTaskResultRequest_ResultData = []\<rparr>, [6]),
     (MAssignTaskRequest (assign_request idle_task), [7]),
     (MAssignTaskResponse idle_answer, [8]),
     (MAssignTaskRequest (assign_request heavy_task), [9])]"

definition demo_links :: "nat \<Rightarrow> link" where
  "demo_links l =
    (if l = 0 then \<lparr>from_peer = 0, from_conn = OutConn 0, handle = 0, to_peer = 1, to_conn = InConn 0\<rparr>
     else if l = 1 then \<lparr>from_peer = 1, from_conn = InConn 0, handle = 0, to_peer = 0, to_conn = OutConn 0\<rparr>
     else if l = 2 then \<lparr>from_peer = 2, from_conn = OutConn 0, handle = 0, to_peer = 1, to_conn = InConn 1\<rparr>
     else \<lparr>from_peer = 1, from_conn = InConn 1, handle = 1, to_peer = 2, to_conn = OutConn 0\<rparr>)"

lemma demo_links_simps [simp]:
  "demo_links 0 = \<lparr>from_peer = 0, from_conn = OutConn 0, handle = 0, to_peer = 1, to_conn = InConn 0\<rparr>"
  "demo_links (Suc 0) = \<lparr>from_peer = 1, from_conn = InConn 0, handle = 0, to_peer = 0, to_conn = OutConn 0\<rparr>"
  "demo_links 2 = \<lparr>from_peer = 2, from_conn = OutConn 0, handle = 0, to_peer = 1, to_conn = InConn 1\<rparr>"
  "demo_links 3 = \<lparr>from_peer = 1, from_conn = InConn 1, handle = 1, to_peer = 2, to_conn = OutConn 0\<rparr>"
  by (simp_all add: demo_links_def)

text \<open>The nodes of the run: a scheduler and a store dial a worker.\<close>

definition demo_dial :: "int32 \<Rightarrow> 'a node_scheme \<Rightarrow> 'a node_scheme" where
  "demo_dial mode s = (let s1 = snd (cm_AddConnection mode False ''w'' s) in
     set_outb 0 s1 (res_state (loop_dial demo_env 0 (Inr 0) (outb s1 0))))"

definition sched0 :: scheduler where
  "sched0 = the (NewScheduler [] [] [WithTaskChanSize 1])"

definition work0 :: worker where
  "work0 = the (NewWorker [] [] [WithRegisterObjectChanSize 1])"

definition gcs0 :: gcs where
  "gcs0 = NewGCS [] [] []"

text \<open>The packets on the wire, with their bodies.\<close>

definition greet :: "int32 \<Rightarrow> Header \<times> pb_msg" where
  "greet mode = (\<lparr>Uri = MetaEstablish, SeqId = 1\<rparr>, MEstablishReq \<lparr>EstablishReq_Addr = [], EstablishReq_Mode = mode\<rparr>)"

definition greeted :: "Header \<times> pb_msg" where
  "greeted = (\<lparr>Uri = MetaEstablishAck, SeqId = 1\<rparr>,
     MEstablishResponse \<lparr>EstablishResponse_Mode = ModeWorker, EstablishResponse_Err = ''OK''\<rparr>)"

definition assigned :: "Header \<times> pb_msg" where
  "assigned = (\<lparr>Uri = RayAssignTask, SeqId = 2\<rparr>, MAssignTaskRequest (assign_request demo_task))"

definition assigned_idle :: "Header \<times> pb_msg" where
  "assigned_idle = (\<lparr>Uri = RayAssignTask, SeqId = 2\<rparr>, MAssignTaskRequest (assign_request idle_task))"

definition answered_idle :: "Header \<times> pb_msg" where
  "answered_idle = (\<lparr>Uri = RayAssignTaskResp, SeqId = 2\<rparr>, MAssignTaskResponse idle_answer)"

definition reported :: "Header \<times> pb_msg" where
  "reported = (\<lparr>Uri = RayReportTaskResult, SeqId = 3\<rparr>,
     MReportTaskResultRequest \<lparr>ReportTaskResultRequest_TaskId = [], ReportTaskResultRequest_Status = [],
        ReportTaskResultRequest_ObjectId = demo_object, ReportTaskResultRequest_ResultData = []\<rparr>)"

definition hear_work :: "nat \<Rightarrow> Header \<times> pb_msg \<Rightarrow> worker \<Rightarrow> (go_error option, worker) res" where
  "hear_work a hm = worker_OnPacket demo_env (\<lambda>_. 0) (InConn a) (fst hm) (snd hm)"

definition hear_sched :: "Header \<times> pb_msg \<Rightarrow> scheduler \<Rightarrow> (go_error option, scheduler) res" where
  "hear_sched hm = client_OnPacket 0 (scheduler_HandlePacket demo_env) 0 (fst hm) (snd hm)"

definition hear_gcs :: "Header \<times> pb_msg \<Rightarrow> gcs \<Rightarrow> (go_error option, gcs) res" where
  "hear_gcs hm = client_OnPacket 0 (gcs_HandlePacket demo_env) 0 (fst hm) (snd hm)"

definition "sched1 = demo_dial scheduler_GetMode sched0"
definition "sched2 = res_state (hear_sched greeted sched1)"
definition "sched3 = snd (PushTask demo_task sched2)"
definition "sched4 = res_state (scheduler_Loop_round demo_env [''w''] sched3)"
definition "gcs1 = demo_dial gcs_GetMode gcs0"
definition "gcs2 = res_state (hear_gcs greeted gcs1)"
definition "gcs3 = res_state (hear_gcs reported gcs2)"
definition "work1 = node_Start work0"
definition "work2 = snd (worker_OnOpen 0 (Some ''s'') work1)"
definition "work3 = snd (worker_OnOpen 1 (Some ''g'') work2)"
definition "work4 = res_state (hear_work 0 (greet ModeScheduler) work3)"
definition "work5 = res_state (hear_work 1 (greet ModeGCS) work4)"
definition "work6 = res_state (hear_work 0 assigned work5)"
definition "work7 = res_state (worker_Loop_round demo_env True work6)"


text \<open>Another run from the handshake of the scheduler on: a task that is no addition.\<close>

definition "idle_sched = res_state (scheduler_Loop_round demo_env [''w''] (snd (PushTask idle_task sched2)))"
definition "idle_work = res_state (hear_work 0 assigned_idle work4)"

definition silent :: "(go_error option, 's) res \<Rightarrow> bool" where
  "silent r = (case r of Ok e _ \<Rightarrow> e = None | _ \<Rightarrow> False)"

lemma silent_Ok: "silent r \<Longrightarrow> r = Ok None (res_state r)"
  by (cases r) (auto simp: silent_def)

lemma heard_silently:
  "silent (hear_work 0 (greet ModeScheduler) work3)" "silent (hear_work 1 (greet ModeGCS) work4)"
  "silent (hear_work 0 assigned work5)" "silent (hear_sched greeted sched1)"
  "silent (hear_gcs greeted gcs1)" "silent (hear_gcs reported gcs2)"
  "silent (hear_work 0 assigned_idle work4)"
  by code_simp+

lemma written_so_far:
  "sent 0 (io_of (OutConn 0) sched1) = [] @ wire_frame (fst (greet ModeScheduler)) [1]"
  "sent 0 (io_of (InConn 0) work4) = [] @ wire_frame (fst greeted) [3]"
  "sent 0 (io_of (OutConn 0) gcs1) = [] @ wire_frame (fst (greet ModeGCS)) [2]"
  "sent 1 (io_of (InConn 1) work5) = [] @ wire_frame (fst greeted) [3]"
  "sent 0 (io_of (OutConn 0) sched4) = wire_frame (fst (greet ModeScheduler)) [1] @ wire_frame (fst assigned) [4]"
  "sent 0 (io_of (OutConn 0) idle_sched) = wire_frame (fst (greet ModeScheduler)) [1] @ wire_frame (fst assigned_idle) [7]"
  "sent 0 (io_of (InConn 0) idle_work) = wire_frame (fst greeted) [3] @ wire_frame (fst answered_idle) [8]"
  "sent 1 (io_of (InConn 1) work7) = wire_frame (fst greeted) [3] @ wire_frame (fst reported) [6]"
  by code_simp+

lemma listening:
  "node_listens (InConn 0) work3" "node_listens (OutConn 0) sched1" "node_listens (InConn 1) work4"
  "node_listens (OutConn 0) gcs1" "node_listens (InConn 0) work5" "node_listens (OutConn 0) gcs2"
  "node_listens (InConn 0) work4"
  by code_simp+

lemma demo_bodies:
  "pb_roundtrips demo_env (snd (greet ModeScheduler)) [1]" "pb_roundtrips demo_env (snd (greet ModeGCS)) [2]"
  "pb_roundtrips demo_env (snd greeted) [3]" "pb_roundtrips demo_env (snd assigned) [4]"
  "pb_roundtrips demo_env (snd reported) [6]" "pb_roundtrips demo_env (snd assigned_idle) [7]"
  "pb_roundtrips demo_env (snd answered_idle) [8]"
  by code_simp+

lemma demo_uris:
  "uri_kind (Uri (fst (greet mode))) = Some (kind_of (snd (greet mode)))"
  "uri_kind (Uri (fst greeted)) = Some (kind_of (snd greeted))"
  "uri_kind (Uri (fst assigned)) = Some (kind_of (snd assigned))"
  "uri_kind (Uri (fst reported)) = Some (kind_of (snd reported))"
  "uri_kind (Uri (fst assigned_idle)) = Some (kind_of (snd assigned_idle))"
  "uri_kind (Uri (fst answered_idle)) = Some (kind_of (snd answered_idle))"
  by (simp_all add: greet_def greeted_def assigned_def reported_def assigned_idle_def answered_idle_def uri_kind_def uri_table_def const_defs)

abbreviation demo_step :: "net \<Rightarrow> net \<Rightarrow> bool" where
  "demo_step \<equiv> net_step demo_env (\<lambda>_. 0) pushed demo_links"

definition demo_net :: "scheduler \<Rightarrow> worker \<Rightarrow> gcs \<Rightarrow> (nat \<Rightarrow> nat) \<Rightarrow> net" where
  "demo_net s w g c =
    \<lparr>peers = (\<lambda>i. if i = 0 then SchedulerPeer s else if i = 1 then WorkerPeer w else GcsPeer (if i = 2 then g else gcs0)),
     status = (\<lambda>_. Serving), shut = (\<lambda>_. False), arrived = c, consumed = c\<rparr>"

lemma demo_own:
  "scheduler_own demo_env pushed s s' \<Longrightarrow> demo_step (demo_net s w g c) (demo_net s' w g c)"
  "worker_own demo_env w w' \<Longrightarrow> demo_step (demo_net s w g c) (demo_net s w' g c)"
  "gcs_own demo_env g g' \<Longrightarrow> demo_step (demo_net s w g c) (demo_net s w g' c)"
proof -
  have one: "demo_step n n'" if "peer_own demo_env pushed (peers n i) p" "status n = (\<lambda>_. Serving)"
    "n' = n\<lparr>peers := (peers n)(i := p)\<rparr>" for n n' i p
    using net_own [of n i demo_env _ p] that by simp
  show "scheduler_own demo_env pushed s s' \<Longrightarrow> demo_step (demo_net s w g c) (demo_net s' w g c)"
    by (rule one [of _ 0 "SchedulerPeer s'"]) (auto simp: demo_net_def fun_eq_iff own_scheduler)
  show "worker_own demo_env w w' \<Longrightarrow> demo_step (demo_net s w g c) (demo_net s w' g c)"
    by (rule one [of _ 1 "WorkerPeer w'"]) (auto simp: demo_net_def fun_eq_iff own_worker)
  show "gcs_own demo_env g g' \<Longrightarrow> demo_step (demo_net s w g c) (demo_net s w g' c)"
    by (rule one [of _ 2 "GcsPeer g'"]) (auto simp: demo_net_def fun_eq_iff own_gcs)
qed

lemma demo_faithful: "faithful demo_env"
  by (auto simp: faithful_def pb_roundtrips_def demo_env_def const_defs split: if_splits)


text \<open>One packet over each of the four pipes.\<close>

lemma demo_read:
  assumes rt: "pb_roundtrips demo_env m [b]" and uri: "uri_kind (Uri h) = Some (kind_of m)"
    and front: "link_bytes demo_links l n = old @ wire_frame h [b]" "length old = c l"
    and n: "n = demo_net s w g c" and listens: "peer_listens (to_conn (demo_links l)) (peers n (to_peer (demo_links l)))"
    and hear: "peer_hear demo_env (\<lambda>_. 0) 0 (to_conn (demo_links l)) h m (peers n (to_peer (demo_links l))) = Ok None p"
  shows "demo_step\<^sup>*\<^sup>* n (n\<lparr>arrived := c(l := c l + 15), consumed := c(l := c l + 15),
      peers := (peers n)(to_peer (demo_links l) := p)\<rparr>)"
proof -
  have st: "shut n l = False" "status n i = Serving" "arrived n = c" "consumed n = c" for i
    by (simp_all add: n demo_net_def)
  then have can: "can_read demo_links l n"
    using listens by (simp add: can_read_def split: conn_ref.split)
  have len: "length (link_bytes demo_links l n) = c l + 15" using front by simp
  from net_by_turns [OF read_quiet [OF rt _ uri can _ _ _ hear, of "pushed"]] show ?thesis
    using front by (simp add: delivered_def st len)
qed

lemma demo_reads:
  "pb_roundtrips demo_env m [b] \<Longrightarrow> uri_kind (Uri h) = Some (kind_of m) \<Longrightarrow>
    sent 0 (io_of (OutConn 0) s) = old @ wire_frame h [b] \<Longrightarrow> length old = c 0 \<Longrightarrow> node_listens (InConn 0) w \<Longrightarrow>
    hear_work 0 (h, m) w = Ok None w' \<Longrightarrow> demo_step\<^sup>*\<^sup>* (demo_net s w g c) (demo_net s w' g (c(0 := c 0 + 15)))"
  "pb_roundtrips demo_env m [b] \<Longrightarrow> uri_kind (Uri h) = Some (kind_of m) \<Longrightarrow>
    sent 0 (io_of (InConn 0) w) = old @ wire_frame h [b] \<Longrightarrow> length old = c 1 \<Longrightarrow> node_listens (OutConn 0) s \<Longrightarrow>
    hear_sched (h, m) s = Ok None s' \<Longrightarrow> demo_step\<^sup>*\<^sup>* (demo_net s w g c) (demo_net s' w g (c(1 := c 1 + 15)))"
  "pb_roundtrips demo_env m [b] \<Longrightarrow> uri_kind (Uri h) = Some (kind_of m) \<Longrightarrow>
    sent 0 (io_of (OutConn 0) g) = old @ wire_frame h [b] \<Longrightarrow> length old = c 2 \<Longrightarrow> node_listens (InConn 1) w \<Longrightarrow>
    hear_work 1 (h, m) w = Ok None w' \<Longrightarrow> demo_step\<^sup>*\<^sup>* (demo_net s w g c) (demo_net s w' g (c(2 := c 2 + 15)))"
  "pb_roundtrips demo_env m [b] \<Longrightarrow> uri_kind (Uri h) = Some (kind_of m) \<Longrightarrow>
    sent 1 (io_of (InConn 1) w) = old @ wire_frame h [b] \<Longrightarrow> length old = c 3 \<Longrightarrow> node_listens (OutConn 0) g \<Longrightarrow>
    hear_gcs (h, m) g = Ok None g' \<Longrightarrow> demo_step\<^sup>*\<^sup>* (demo_net s w g c) (demo_net s w g' (c(3 := c 3 + 15)))"
proof -
  let ?n = "demo_net s w g c"
  have bytes: "link_bytes demo_links 0 ?n = sent 0 (io_of (OutConn 0) s)"
    "link_bytes demo_links 1 ?n = sent 0 (io_of (InConn 0) w)"
    "link_bytes demo_links 2 ?n = sent 0 (io_of (OutConn 0) g)"
    "link_bytes demo_links 3 ?n = sent 1 (io_of (InConn 1) w)"
    by (simp_all add: link_bytes_def demo_net_def)
  have same: "?n\<lparr>arrived := c', consumed := c', peers := (peers ?n)(1 := WorkerPeer w')\<rparr> = demo_net s w' g c'"
    "?n\<lparr>arrived := c', consumed := c', peers := (peers ?n)(0 := SchedulerPeer s')\<rparr> = demo_net s' w g c'"
    "?n\<lparr>arrived := c', consumed := c', peers := (peers ?n)(2 := GcsPeer g')\<rparr> = demo_net s w g' c'" for c'
    by (auto simp: demo_net_def fun_eq_iff)
  assume rt: "pb_roundtrips demo_env m [b]" and uri: "uri_kind (Uri h) = Some (kind_of m)"
  note read = demo_read [OF rt uri _ _ refl, where s = s and w = w and g = g and c = c and old = old]
  show "demo_step\<^sup>*\<^sup>* ?n (demo_net s w' g (c(0 := c 0 + 15)))"
    if "sent 0 (io_of (OutConn 0) s) = old @ wire_frame h [b]" "length old = c 0" "node_listens (InConn 0) w"
      "hear_work 0 (h, m) w = Ok None w'"
    using read [of 0 "WorkerPeer w'"] that bytes(1) unfolding same(1) [symmetric]
    by (simp add: demo_net_def hear_work_def)
  show "demo_step\<^sup>*\<^sup>* ?n (demo_net s' w g (c(1 := c 1 + 15)))"
    if "sent 0 (io_of (InConn 0) w) = old @ wire_frame h [b]" "length old = c 1" "node_listens (OutConn 0) s"
      "hear_sched (h, m) s = Ok None s'"
    using read [of 1 "SchedulerPeer s'"] that bytes(2) unfolding same(2) [symmetric]
    by (simp add: demo_net_def hear_sched_def)
  show "demo_step\<^sup>*\<^sup>* ?n (demo_net s w' g (c(2 := c 2 + 15)))"
    if "sent 0 (io_of (OutConn 0) g) = old @ wire_frame h [b]" "length old = c 2" "node_listens (InConn 1) w"
      "hear_work 1 (h, m) w = Ok None w'"
    using read [of 2 "WorkerPeer w'"] that bytes(3) unfolding same(1) [symmetric]
    by (simp add: demo_net_def hear_work_def)
  show "demo_step\<^sup>*\<^sup>* ?n (demo_net s w g' (c(3 := c 3 + 15)))"
    if "sent 1 (io_of (InConn 1) w) = old @ wire_frame h [b]" "length old = c 3" "node_listens (OutConn 0) g"
      "hear_gcs (h, m) g = Ok None g'"
    using read [of 3 "GcsPeer g'"] that bytes(4) unfolding same(3) [symmetric]
    by (simp add: demo_net_def hear_gcs_def)
qed


lemma demo_dial_own:
  assumes "s1 = snd (cm_AddConnection mode False ''w'' s)"
    and "loop_dial demo_env 0 (Inr 0) (outb s1 0) = Ok () c"
    and "pc (outb s1 0) = PcTop" "cl_started (outb s1 0)" "\<not> ctxDone (outb s1 0)" "dials 0 s1"
  shows "own_step demo_env mode s s1" and "own_step demo_env mode s1 (set_outb 0 s1 c)"
  unfolding assms(1)
   apply (rule own_connect)
  using assms by (auto intro!: own_client solo_loop loop_dialed)

definition dial_ready :: "'a node_scheme \<Rightarrow> bool" where
  "dial_ready s1 = (pc (outb s1 0) = PcTop \<and> cl_started (outb s1 0) \<and> \<not> ctxDone (outb s1 0) \<and> dials 0 s1
    \<and> (case loop_dial demo_env 0 (Inr 0) (outb s1 0) of Ok u c \<Rightarrow> True | _ \<Rightarrow> False))"

lemma ready_to_dial:
  "dial_ready (snd (cm_AddConnection scheduler_GetMode False ''w'' sched0))"
  "dial_ready (snd (cm_AddConnection gcs_GetMode False ''w'' gcs0))"
  by code_simp+

lemma demo_dials:
  assumes "dial_ready (snd (cm_AddConnection mode False ''w'' s))"
  shows "(own_step demo_env mode)\<^sup>*\<^sup>* s (demo_dial mode s)"
proof -
  let ?s1 = "snd (cm_AddConnection mode False ''w'' s)"
  obtain c where c: "loop_dial demo_env 0 (Inr 0) (outb ?s1 0) = Ok () c"
    using assms by (auto simp: dial_ready_def split: res.splits)
  have "own_step demo_env mode s ?s1" "own_step demo_env mode ?s1 (set_outb 0 ?s1 c)"
    using assms by (simp_all add: demo_dial_own [OF refl c] dial_ready_def)
  then show ?thesis
    using c by (simp add: demo_dial_def Let_def)
qed

text \<open>The run.\<close>

lemmas demo_packets = demo_reads [where h = "fst hm" and m = "snd hm", unfolded prod.collapse] for hm

lemma demo_own_scheduler:
  "(own_step demo_env scheduler_GetMode)\<^sup>*\<^sup>* s s' \<Longrightarrow> demo_step\<^sup>*\<^sup>* (demo_net s w g c) (demo_net s' w g c)"
  by (induction rule: rtranclp_induct)
    (auto intro: rtranclp.rtrancl_into_rtrancl demo_own own_sched_node)

lemma demo_own_gcs:
  "(own_step demo_env gcs_GetMode)\<^sup>*\<^sup>* g g' \<Longrightarrow> demo_step\<^sup>*\<^sup>* (demo_net s w g c) (demo_net s w g' c)"
  by (induction rule: rtranclp_induct)
    (auto intro: rtranclp.rtrancl_into_rtrancl demo_own own_gcs_node)

lemma demo_own_worker:
  "(worker_own demo_env)\<^sup>*\<^sup>* w w' \<Longrightarrow> demo_step\<^sup>*\<^sup>* (demo_net s w g c) (demo_net s w' g c)"
  by (induction rule: rtranclp_induct) (auto intro: rtranclp.rtrancl_into_rtrancl demo_own)

lemma demo_worker_up: "(worker_own demo_env)\<^sup>*\<^sup>* work0 work3"
proof -
  have "worker_own demo_env work0 work1" unfolding work1_def by (intro own_work_node own_start)
  moreover have "worker_own demo_env work1 work2" "worker_own demo_env work2 work3"
    unfolding work2_def work3_def by (rule own_work_open)+
  ultimately show ?thesis by (meson rtranclp.rtrancl_into_rtrancl rtranclp.rtrancl_refl)
qed

definition tally :: "nat \<Rightarrow> nat \<Rightarrow> nat \<Rightarrow> nat \<Rightarrow> nat \<Rightarrow> nat" where
  "tally a b c d l = (if l = 0 then a else if l = 1 then b else if l = 2 then c else if l = 3 then d else 0)"

lemma tally_simps [simp]:
  "tally a b c d 0 = a" "tally a b c d (Suc 0) = b" "tally a b c d 2 = c" "tally a b c d 3 = d"
  "(tally a b c d)(0 := k) = tally k b c d" "(tally a b c d)(Suc 0 := k) = tally a k c d"
  "(tally a b c d)(2 := k) = tally a b k d" "(tally a b c d)(3 := k) = tally a b c k"
  by (auto simp: tally_def fun_eq_iff)

definition met :: "scheduler \<Rightarrow> worker \<Rightarrow> gcs \<Rightarrow> nat \<Rightarrow> nat \<Rightarrow> nat \<Rightarrow> nat \<Rightarrow> bool" where
  "met s w g a b c d \<longleftrightarrow>
     demo_step\<^sup>*\<^sup>* (demo_net sched0 work0 gcs0 (tally 0 0 0 0)) (demo_net s w g (tally a b c d))"

lemma met_own:
  "met s w g a b c d \<Longrightarrow> scheduler_own demo_env pushed s s' \<Longrightarrow> met s' w g a b c d"
  "met s w g a b c d \<Longrightarrow> worker_own demo_env w w' \<Longrightarrow> met s w' g a b c d"
  unfolding met_def by (blast intro: rtranclp.rtrancl_into_rtrancl demo_own)+

lemma met_packet:
  assumes met: "met s w g a b c d" and rt: "pb_roundtrips demo_env (snd hm) [k]"
    and uri: "uri_kind (Uri (fst hm)) = Some (kind_of (snd hm))"
  shows "sent 0 (io_of (OutConn 0) s) = old @ wire_frame (fst hm) [k] \<Longrightarrow> length old = a \<Longrightarrow>
      node_listens (InConn 0) w \<Longrightarrow> silent (hear_work 0 hm w) \<Longrightarrow>
      met s (res_state (hear_work 0 hm w)) g (a + 15) b c d"
    and "sent 0 (io_of (InConn 0) w) = old @ wire_frame (fst hm) [k] \<Longrightarrow> length old = b \<Longrightarrow>
      node_listens (OutConn 0) s \<Longrightarrow> silent (hear_sched hm s) \<Longrightarrow>
      met (res_state (hear_sched hm s)) w g a (b + 15) c d"
    and "sent 0 (io_of (OutConn 0) g) = old @ wire_frame (fst hm) [k] \<Longrightarrow> length old = c \<Longrightarrow>
      node_listens (InConn 1) w \<Longrightarrow> silent (hear_work 1 hm w) \<Longrightarrow>
      met s (res_state (hear_work 1 hm w)) g a b (c + 15) d"
    and "sent 1 (io_of (InConn 1) w) = old @ wire_frame (fst hm) [k] \<Longrightarrow> length old = d \<Longrightarrow>
      node_listens (OutConn 0) g \<Longrightarrow> silent (hear_gcs hm g) \<Longrightarrow>
      met s w (res_state (hear_gcs hm g)) a b c (d + 15)"
  using met demo_packets [where hm = hm and s = s and w = w and g = g and c = "tally a b c d" and old = old, OF rt uri]
  unfolding met_def by (auto dest!: silent_Ok intro: rtranclp_trans)

lemma demo_crew: "set [''w''] = dom (workerConns sched2)"
proof -
  have none: "workerConns sched1 = (\<lambda>_. None)"
    by (simp add: sched1_def demo_dial_def sched0_def NewScheduler_def apply_options_def cm_AddConnection_def
        WithTaskChanSize_def zero_options_def set_outb_def Let_def)
  have "workerConns sched2 ''w'' = Some (OutConn 0)" by code_simp
  moreover have "node_hear (scheduler_OnPacket demo_env) (scheduler_HandlePacket demo_env) 0 (OutConn 0)
      (fst greeted) (snd greeted) sched1 = hear_sched greeted sched1" by (simp add: hear_sched_def)
  ultimately show ?thesis
    using none scheduler_hear_learns [of sched2 demo_env 0 "OutConn 0" "fst greeted" "snd greeted" sched1]
    by (auto simp: sched2_def split: if_splits)
qed

lemma demo_crew_kept: "workerConns (snd (PushTask t s)) = workerConns s"
  by (simp add: PushTask_def split: option.split)

lemma met_half: "met sched2 work4 gcs1 15 15 0 0"
proof -
  have "met sched0 work0 gcs0 0 0 0 0" by (simp add: met_def)
  then have "met sched0 work3 gcs0 0 0 0 0"
    unfolding met_def using demo_own_worker [OF demo_worker_up] by (rule rtranclp_trans)
  then have "met sched1 work3 gcs0 0 0 0 0"
    unfolding met_def sched1_def
    using demo_own_scheduler [OF demo_dials [OF ready_to_dial(1)]] by (rule rtranclp_trans)
  then have "met sched1 work3 gcs1 0 0 0 0"
    unfolding met_def gcs1_def
    using demo_own_gcs [OF demo_dials [OF ready_to_dial(2)]] by (rule rtranclp_trans)
  from met_packet(1) [OF this demo_bodies(1) demo_uris(1) written_so_far(1) _ listening(1) heard_silently(1)]
  have "met sched1 work4 gcs1 15 0 0 0" by (simp add: work4_def)
  from met_packet(2) [OF this demo_bodies(3) demo_uris(2) written_so_far(2) _ listening(2) heard_silently(4)]
  show ?thesis by (simp add: sched2_def)
qed

lemma met_whole: "met sched4 work7 gcs3 30 15 15 30"
proof -
  from met_packet(3) [OF met_half demo_bodies(2) demo_uris(1) written_so_far(3) _ listening(3) heard_silently(2)]
  have "met sched2 work5 gcs1 15 15 15 0" by (simp add: work5_def)
  from met_packet(4) [OF this demo_bodies(3) demo_uris(2) written_so_far(4) _ listening(4) heard_silently(5)]
  have "met sched2 work5 gcs2 15 15 15 15" by (simp add: gcs2_def)
  then have "met sched3 work5 gcs2 15 15 15 15"
    unfolding sched3_def by (rule met_own) (simp add: own_sched_push)
  then have "met sched4 work5 gcs2 15 15 15 15"
    unfolding sched4_def by (rule met_own) (rule own_sched_round, simp_all add: sched3_def demo_crew_kept flip: demo_crew)
  from met_packet(1) [OF this demo_bodies(4) demo_uris(3) written_so_far(5) _ listening(5) heard_silently(3)]
  have "met sched4 work6 gcs2 30 15 15 15" by (simp add: work6_def)
  then have "met sched4 work7 gcs2 30 15 15 15"
    unfolding work7_def by (rule met_own) (rule own_work_report)
  from met_packet(4) [OF this demo_bodies(5) demo_uris(4) written_so_far(8) _ listening(6) heard_silently(6)]
  show ?thesis by (simp add: gcs3_def)
qed

lemma met_idle: "met idle_sched idle_work gcs1 30 15 0 0"
proof -
  let ?s = "snd (PushTask idle_task sched2)"
  have "met ?s work4 gcs1 15 15 0 0"
    by (rule met_own(1) [OF met_half]) (simp add: own_sched_push)
  then have "met idle_sched work4 gcs1 15 15 0 0"
    unfolding idle_sched_def by (rule met_own(1)) (rule own_sched_round, simp_all add: demo_crew_kept flip: demo_crew)
  from met_packet(1) [OF this demo_bodies(6) demo_uris(5) written_so_far(6) _ listening(7) heard_silently(7)]
  show ?thesis by (simp add: idle_work_def)
qed

text \<open>The answer of the worker has arrived and has not been read.\<close>

definition idle_net :: net where
  "idle_net = (demo_net idle_sched idle_work gcs1 (tally 30 15 0 0))\<lparr>arrived := tally 30 30 0 0\<rparr>"

lemma idle_bytes: "inbuf demo_links 1 idle_net = wire_frame (fst answered_idle) [8]"
proof -
  have "link_bytes demo_links 1 idle_net = wire_frame (fst greeted) [3] @ wire_frame (fst answered_idle) [8]"
    using written_so_far(7) by (simp add: link_bytes_def idle_net_def demo_net_def)
  moreover have "arrived idle_net 1 = 30" "consumed idle_net 1 = 15" by (simp_all add: idle_net_def demo_net_def)
  ultimately show ?thesis by (simp add: inbuf_def del: One_nat_def)
qed

lemma idle_reach: "demo_step\<^sup>*\<^sup>* (demo_net sched0 work0 gcs0 (tally 0 0 0 0)) idle_net"
proof -
  let ?n = "demo_net idle_sched idle_work gcs1 (tally 30 15 0 0)"
  have "length (link_bytes demo_links 1 ?n) = 30"
    using written_so_far(7) by (simp add: link_bytes_def demo_net_def)
  then have "demo_step ?n (?n\<lparr>arrived := (arrived ?n)(1 := 30)\<rparr>)"
    by (intro net_arrive) (simp_all add: demo_net_def)
  then have "demo_step ?n idle_net" by (simp add: idle_net_def demo_net_def)
  then show ?thesis using met_idle unfolding met_def by (rule rtranclp.rtrancl_into_rtrancl [rotated])
qed

lemma idle_decode: "ZeroCopyDecode buf_ops demo_env (inbuf demo_links 1 idle_net) = (Inr answered_idle, [])"
  using ZeroCopyDecode_refines [OF buf_ops_ok, of demo_env "wire_frame (fst answered_idle) [8]"]
    decode_bytes_wire_frame [of "[8]" demo_env "fst answered_idle" "[]"]
    unmarshalByURI_roundtrip [OF demo_bodies(7) demo_uris(6)]
  unfolding idle_bytes by (simp add: prod_eq_iff)

lemma idle_reply: "fst (ZeroCopyDecode buf_ops demo_env (inbuf demo_links 1 idle_net)) = Inr answered_idle"
  by (simp only: idle_decode fst_conv)

lemma idle_can_read: "can_read demo_links 1 idle_net"
proof -
  have "node_listens (OutConn 0) idle_sched" by code_simp
  then show ?thesis by (simp add: can_read_def idle_net_def demo_net_def)
qed

text \<open>Once more from the handshake on, with a task that has arguments.\<close>

lemma scheduler_own_mono: "scheduler_own E A s t \<Longrightarrow> (\<And>u. A u \<Longrightarrow> B u) \<Longrightarrow> scheduler_own E B s t"
  by (induction rule: scheduler_own.induct) (auto intro: scheduler_own.intros)

lemma peer_own_mono: "peer_own E A p q \<Longrightarrow> (\<And>u. A u \<Longrightarrow> B u) \<Longrightarrow> peer_own E B p q"
  by (induction rule: peer_own.induct) (auto intro: peer_own.intros scheduler_own_mono)

lemma net_step_mono: "net_step E clock A W n n' \<Longrightarrow> (\<And>u. A u \<Longrightarrow> B u) \<Longrightarrow> net_step E clock B W n n'"
  by (induction rule: net_step.induct) (auto elim!: net_turn.cases intro: net_turn.intros net_step.intros peer_own_mono)

lemma demo_any_task: "demo_step\<^sup>*\<^sup>* n n' \<Longrightarrow> (net_step demo_env (\<lambda>_. 0) (\<lambda>_. True) demo_links)\<^sup>*\<^sup>* n n'"
  by (rule mono_rtranclp [rule_format, rotated], assumption) (erule net_step_mono, simp)

definition "heavy_sched = snd (PushTask heavy_task sched2)"

definition heavy_net :: net where
  "heavy_net = demo_net heavy_sched work4 gcs1 (tally 15 15 0 0)"

lemma heavy_reach:
  "(net_step demo_env (\<lambda>_. 0) (\<lambda>_. True) demo_links)\<^sup>*\<^sup>* (demo_net sched0 work0 gcs0 (tally 0 0 0 0)) heavy_net"
proof -
  have "(net_step demo_env (\<lambda>_. 0) (\<lambda>_. True) demo_links)\<^sup>*\<^sup>* (demo_net sched0 work0 gcs0 (tally 0 0 0 0))
      (demo_net sched2 work4 gcs1 (tally 15 15 0 0))"
    using met_half unfolding met_def by (rule demo_any_task)
  moreover have "scheduler_own demo_env (\<lambda>_. True) sched2 heavy_sched"
    unfolding heavy_sched_def by (rule own_sched_push) simp
  then have "net_step demo_env (\<lambda>_. 0) (\<lambda>_. True) demo_links (demo_net sched2 work4 gcs1 (tally 15 15 0 0)) heavy_net"
    using net_own [of "demo_net sched2 work4 gcs1 (tally 15 15 0 0)" 0 demo_env "\<lambda>_. True" "SchedulerPeer heavy_sched"]
    by (simp add: heavy_net_def demo_net_def own_scheduler fun_upd_def cong: if_cong)
  ultimately show ?thesis by (rule rtranclp.rtrancl_into_rtrancl)
qed

lemma heavy_queued: "buf (taskChan heavy_sched) = [heavy_task]" "workerConns heavy_sched ''w'' = Some (OutConn 0)"
  "rawConn (outb heavy_sched 0) = Some 0" "cl_established (outb heavy_sched 0)"
  "length (sent 0 (io_of (OutConn 0) heavy_sched)) = 15"
  by code_simp+

lemma demo_start: "net_start (demo_net sched0 work0 gcs0 (tally 0 0 0 0))"
proof -
  have s: "\<exists>l a opts. NewScheduler l a opts = Some sched0"
    by (intro exI [of _ "[]"] exI [of _ "[WithTaskChanSize 1]"])
      (simp add: sched0_def NewScheduler_def apply_options_def WithTaskChanSize_def zero_options_def)
  have w: "\<exists>l a opts. NewWorker l a opts = Some work0"
    by (intro exI [of _ "[]"] exI [of _ "[WithRegisterObjectChanSize 1]"])
      (simp add: work0_def NewWorker_def apply_options_def WithRegisterObjectChanSize_def zero_options_def)
  have g: "\<exists>l a opts. gcs0 = NewGCS l a opts" unfolding gcs0_def by blast
  show ?thesis using s w g by (auto simp: net_start_def demo_net_def tally_def fun_eq_iff)
qed

end
