(* ===== verification/Bridge.thy ===== *)
theory Bridge
  imports NetworkSpec
begin

text \<open>
  The turns of the read loop that the network interleaves are those of the code: a whole call of
  \<^verbatim>\<open>OnTraffic\<close> on what has arrived is a run of them.
\<close>

lemma flags_started [simp]:
  "started (ref_SetEstablished ref s) = started s" "started (ref_NotifyEstablish ref s) = started s"
  by (cases ref; simp)+

lemma bind_Send_started:
  "started (res_state (bind_res (ref_Send E ref p s) (\<lambda>_ t. Ok x t))) = started s"
  using ref_Send_frame(3) [of E ref p s] by (cases "ref_Send E ref p s") simp_all

lemma scheduler_OnPacket_started [simp]: "started (res_state (scheduler_OnPacket E ref h m s)) = started s"
proof -
  have push: "started (snd (PushTask t u)) = started u" for t u
    by (simp add: PushTask_def split: option.split)
  show ?thesis
    by (simp add: scheduler_OnPacket_def scheduler_onEstablish_def scheduler_onEstablishAck_def
        onAssignTaskResp_def Let_def push reply_frame split: option.split)
qed

lemma gcs_OnPacket_started [simp]: "started (res_state (gcs_OnPacket E ref h m s)) = started s"
  by (simp add: gcs_OnPacket_def gcs_onEstablish_def gcs_onEstablishAck_def gcs_onReportTaskResult_def
      gcs_onGetObjectLocation_def Let_def reply_frame split: option.split)

lemma worker_OnPacket_started [simp]: "started (res_state (worker_OnPacket E clock ref h m s)) = started s"
proof -
  have ans: "started (res_state (answer_assign E ref seq k err u)) = started u" for seq k err u
    by (simp add: answer_assign_def Let_def bind_Send_started split: sum.split)
  have exec: "started (res_state (dispatch_task clock t u)) = started u" for t u
    by (auto simp: dispatch_task_def onAddTowInt_def SetObject_def Let_def split_beta split: option.split)
  have task: "started (res_state (bind_res (dispatch_task clock t u)
      (\<lambda>err v. answer_assign E ref seq k err v))) = started u" for t seq k u
    using exec [of t u] by (cases "dispatch_task clock t u") (simp_all add: ans)
  have "started (res_state (onAssignTask E clock ref h req s)) = started s" for req
    using resolve_args_state [of "AssignTaskRequest_ArgsType req" 0 "AssignTaskRequest_Args req" s]
    by (cases "resolve_args (AssignTaskRequest_ArgsType req) 0 (AssignTaskRequest_Args req) s")
      (simp_all add: onAssignTask_def Let_def task)
  moreover have "started (res_state (reply_dropping E ref h' m' u)) = started u" for h' m' u
    by (simp add: reply_dropping_def bind_Send_started split: sum.split)
  ultimately show ?thesis
    by (simp add: worker_OnPacket_def worker_onEstablish_def worker_onEstablishAck_def onGetObjectData_def
        onGetObjectLocationResp_def onGetObjectDataResp_def Let_def reply_frame split: option.split)
qed

lemma node_hear_listens:
  assumes "\<And>ref h m s. heap_steps E s (res_state (onPacket ref h m s))"
    and "\<And>ref h m s. heap_steps E s (res_state (handlePacket ref h m s))"
    and "\<And>ref h m s. started (res_state (onPacket ref h m s)) = started s"
    and "node_listens ref s"
  shows "node_listens ref (res_state (node_hear onPacket handlePacket now ref h m s))"
proof (cases ref)
  case (InConn a)
  have "node_next s (res_state (onPacket ref h m s))" by (rule heap_steps_next [OF assms(1)])
  then show ?thesis using assms(3,4) InConn by (simp add: node_next_def)
next
  case (OutConn a)
  let ?s1 = "set_outb a s (snd (client_receive now h m (outb s a)))"
  have "node_next s ?s1" by (rule heap_steps_next [OF receive_heap])
  moreover have "node_next ?s1 (res_state (handlePacket ref h m ?s1))" by (rule heap_steps_next [OF assms(2)])
  ultimately have "node_next s (res_state (client_OnPacket now handlePacket a h m s))"
    using client_OnPacket_state [of now handlePacket a h m s] OutConn by (auto intro: node_next_trans)
  then show ?thesis using assms(4) OutConn by (simp add: dials_def node_next_def who_def)
qed

lemma peer_hear_listens:
  "peer_listens ref p \<Longrightarrow> peer_listens ref (res_state (peer_hear E clock now ref h m p))"
  using node_hear_listens [of E "scheduler_OnPacket E" "scheduler_HandlePacket E"]
    node_hear_listens [of E "gcs_OnPacket E" "gcs_HandlePacket E"]
    node_hear_listens [of E "worker_OnPacket E clock" worker_HandlePacket]
  by (cases p) (simp_all add: scheduler_OnPacket_heap gcs_OnPacket_heap worker_OnPacket_heap heap_refl
      scheduler_HandlePacket_def gcs_HandlePacket_def worker_HandlePacket_def)

text \<open>The read loop of a node, on peers.\<close>

lemma run_bytes_map:
  assumes "\<And>h m s. h2 h m (f s) = map_state f (h1 h m s)"
  shows "run_bytes E h2 bs (f s) = (map_state f (fst (run_bytes E h1 bs s)), snd (run_bytes E h1 bs s))"
proof (induction "length bs" arbitrary: bs s rule: less_induct)
  case less
  show ?case
  proof (cases "frame_ready bs")
    case True
    obtain d rest where d: "decode_bytes E bs = (d, rest)" by (cases "decode_bytes E bs")
    have "length rest < length bs" using decode_bytes_consumes [OF True, of E] d by simp
    note IH = less.hyps [OF this]
    show ?thesis
      unfolding run_bytes.simps [of E _ bs] using True d IH assms
      by (cases d; cases "h1 (fst (projr d)) (snd (projr d)) s") (auto split: if_splits)
  qed (simp add: run_bytes_not_ready)
qed

text \<open>
  What the program runs when bytes have arrived: the node's own \<^verbatim>\<open>OnTraffic\<close> on an accepted
  connection, the one of the global client on a dialling connection.
\<close>

fun node_OnTraffic ::
  "('a node_scheme \<Rightarrow> ((gnet_action, 'a node_scheme) res \<times> byte list) option)
     \<Rightarrow> env \<Rightarrow> (conn_ref \<Rightarrow> 'a node_scheme handler) \<Rightarrow> int \<Rightarrow> conn_ref \<Rightarrow> byte list \<Rightarrow> 'a node_scheme
     \<Rightarrow> ((gnet_action, 'a node_scheme) res \<times> byte list) option" where
  "node_OnTraffic server E handlePacket now (InConn a) bs s = server s"
| "node_OnTraffic server E handlePacket now (OutConn a) bs s =
     eventHandler_OnTraffic buf_ops E (client_OnPacket now handlePacket) (CtxConn a) bs s"

fun peer_OnTraffic ::
  "env \<Rightarrow> (nat \<Rightarrow> int64) \<Rightarrow> int \<Rightarrow> conn_ref \<Rightarrow> byte list \<Rightarrow> peer \<Rightarrow> (peer \<times> byte list) option" where
  "peer_OnTraffic E clock now ref bs (SchedulerPeer s) = map_option (\<lambda>(r, c). (SchedulerPeer (res_state r), c))
     (node_OnTraffic (scheduler_OnTraffic buf_ops E (CtxConn ref) bs) E (scheduler_HandlePacket E) now ref bs s)"
| "peer_OnTraffic E clock now ref bs (GcsPeer s) = map_option (\<lambda>(r, c). (GcsPeer (res_state r), c))
     (node_OnTraffic (gcs_OnTraffic buf_ops E (CtxConn ref) bs) E (gcs_HandlePacket E) now ref bs s)"
| "peer_OnTraffic E clock now ref bs (WorkerPeer s) = map_option (\<lambda>(r, c). (WorkerPeer (res_state r), c))
     (node_OnTraffic (worker_OnTraffic buf_ops E clock (CtxConn ref) bs) E worker_HandlePacket now ref bs s)"

lemma peer_OnTraffic_run:
  assumes "peer_listens ref p"
  shows "peer_OnTraffic E clock now ref bs p =
    (let (r, rest) = run_bytes E (peer_hear E clock now ref) bs p in Some (res_state r, rest))"
proof -
  have loop: "traffic_loop buf_ops E h bs s = Some (run_bytes E h bs s)" for h and s :: 's
    using traffic_loop_run_bytes [OF buf_ops_ok, of E h bs s] by (auto simp: prod_eq_iff)
  have node: "node_OnTraffic (cm_OnTraffic buf_ops E onPacket (CtxConn ref) bs) E handlePacket now ref bs s
      = Some (run_bytes E (node_hear onPacket handlePacket now ref) bs s)" if "node_listens ref s"
    for onPacket handlePacket and s :: "'a node_scheme"
  proof (cases ref)
    case (InConn a)
    have "node_hear onPacket handlePacket now ref = onPacket ref" by (simp add: InConn fun_eq_iff)
    then show ?thesis using that InConn by (simp add: cm_OnTraffic_def loop)
  next
    case (OutConn a)
    have "node_hear onPacket handlePacket now ref = client_OnPacket now handlePacket a" by (simp add: OutConn fun_eq_iff)
    then show ?thesis using OutConn by (simp add: eventHandler_OnTraffic_def loop)
  qed
  have same: "scheduler_OnTraffic buf_ops E (CtxConn ref) bs = cm_OnTraffic buf_ops E (scheduler_OnPacket E) (CtxConn ref) bs"
    "gcs_OnTraffic buf_ops E (CtxConn ref) bs = cm_OnTraffic buf_ops E (gcs_OnPacket E) (CtxConn ref) bs"
    "worker_OnTraffic buf_ops E clock (CtxConn ref) bs = cm_OnTraffic buf_ops E (worker_OnPacket E clock) (CtxConn ref) bs"
    by (simp_all add: fun_eq_iff scheduler_OnTraffic_def gcs_OnTraffic_def worker_OnTraffic_def)
  show ?thesis
  proof (cases p)
    case (SchedulerPeer s)
    then show ?thesis
      using assms node [of s "scheduler_OnPacket E" "scheduler_HandlePacket E"]
        run_bytes_map [of "peer_hear E clock now ref" SchedulerPeer "node_hear (scheduler_OnPacket E) (scheduler_HandlePacket E) now ref" E bs s]
      by (simp add: same split_beta)
  next
    case (GcsPeer s)
    then show ?thesis
      using assms node [of s "gcs_OnPacket E" "gcs_HandlePacket E"]
        run_bytes_map [of "peer_hear E clock now ref" GcsPeer "node_hear (gcs_OnPacket E) (gcs_HandlePacket E) now ref" E bs s]
      by (simp add: same split_beta)
  next
    case (WorkerPeer s)
    then show ?thesis
      using assms node [of s "worker_OnPacket E clock" worker_HandlePacket]
        run_bytes_map [of "peer_hear E clock now ref" WorkerPeer "node_hear (worker_OnPacket E clock) worker_HandlePacket now ref" E bs s]
      by (simp add: same split_beta)
  qed
qed

lemma run_bytes_shrinks: "length (snd (run_bytes E h bs s)) \<le> length bs"
proof (induction "length bs" arbitrary: bs s rule: less_induct)
  case less
  show ?case
  proof (cases "frame_ready bs")
    case True
    obtain d rest where d: "decode_bytes E bs = (d, rest)" by (cases "decode_bytes E bs")
    have "length rest < length bs" using decode_bytes_consumes [OF True, of E] d by simp
    then show ?thesis
      unfolding run_bytes.simps [of E h bs] using True d less.hyps [of rest]
      by (cases d; cases "h (fst (projr d)) (snd (projr d)) s")
        (auto split: if_splits intro: order_trans less_imp_le)
  qed (simp add: run_bytes_not_ready)
qed

text \<open>Running it in the network, packet by packet.\<close>

lemma decode_bytes_drop:
  "snd (decode_bytes E bs) = drop (length bs - length (snd (decode_bytes E bs))) bs"
proof (cases "frame_ready bs")
  case True
  then have "4 + frame_len bs \<le> length bs" by (simp add: frame_ready_def)
  then show ?thesis using True by (simp add: decode_bytes_def)
qed (simp add: decode_bytes_def)

lemma skip_bytes_inbuf:
  assumes "rest = drop (length (inbuf W l n) - length rest) (inbuf W l n)" and "length rest \<le> length (inbuf W l n)"
    and same: "link_bytes W l n' = link_bytes W l n" "arrived n' l = arrived n l"
      "consumed n' l = consumed n l + (length (inbuf W l n) - length rest)"
  shows "inbuf W l n' = rest"
proof -
  define k where "k = length (inbuf W l n) - length rest"
  have c: "consumed n' l = consumed n l + k" by (simp only: same(3) k_def)
  have "inbuf W l n' = drop k (inbuf W l n)"
    unfolding inbuf_def [of W l n'] c same(1,2) by (simp add: inbuf_def drop_take add.commute diff_diff_left)
  then show ?thesis using assms(1) by (simp add: k_def)
qed

lemma run_bytes_steps:
  assumes "can_read W l n" and "from_peer (W l) \<noteq> to_peer (W l)"
  shows "\<exists>n'. (net_turn E clock A W)\<^sup>*\<^sup>* n n'
    \<and> peers n' = (peers n)(to_peer (W l) :=
        res_state (fst (run_bytes E (peer_hear E clock now (to_conn (W l))) (inbuf W l n) (peers n (to_peer (W l))))))
    \<and> consumed n' l = consumed n l + (length (inbuf W l n) -
        length (snd (run_bytes E (peer_hear E clock now (to_conn (W l))) (inbuf W l n) (peers n (to_peer (W l))))))"
  using assms(1)
proof (induction "length (inbuf W l n)" arbitrary: n rule: less_induct)
  case less
  let ?j = "to_peer (W l)" and ?h = "peer_hear E clock now (to_conn (W l))" and ?bs = "inbuf W l n"
  have step: "net_turn E clock A W n (read_packet E clock now W l n)" using turn_read [OF less.prems] .
  show ?case
  proof (cases "frame_ready ?bs")
    case False
    then show ?thesis by (intro exI [of _ n]) (simp add: run_bytes_not_ready)
  next
    case ready: True
    obtain d rest where dec: "decode_bytes E ?bs = (d, rest)" by (cases "decode_bytes E ?bs")
    have z: "ZeroCopyDecode buf_ops E ?bs = (d, rest)"
      using ZeroCopyDecode_refines [OF buf_ops_ok, of E ?bs] dec by (simp add: prod_eq_iff)
    have shorter: "length rest < length ?bs" using decode_bytes_consumes [OF ready, of E] dec by simp
    have drop: "rest = drop (length ?bs - length rest) ?bs" using decode_bytes_drop [of E ?bs] dec by simp
    show ?thesis
    proof (cases d)
      case (Inl err)
      then have "read_packet E clock now W l n = skip_bytes W l rest n
          \<or> read_packet E clock now W l n = (skip_bytes W l rest n)\<lparr>shut := (shut n)(l := True)\<rparr>"
        using z by (simp add: read_packet_def)
      moreover have "run_bytes E ?h ?bs (peers n ?j) = (if err = ErrShortBuffer then Ok ActNone (peers n ?j) else Ok ActClose (peers n ?j), rest)"
        unfolding run_bytes.simps [of E ?h ?bs] using ready dec Inl by simp
      ultimately show ?thesis
        using step by (intro exI [of _ "read_packet E clock now W l n"]) (auto simp: skip_bytes_def)
    next
      case (Inr hm)
      obtain h m where hm: "hm = (h, m)" by (cases hm)
      define n1 where "n1 = read_packet E clock now W l n"
      define r where "r = ?h h m (peers n ?j)"
      have n1: "n1 = hand_over E clock now W l h m (skip_bytes W l rest n)"
        using z Inr hm by (simp add: n1_def read_packet_def)
      have fields: "peers n1 = (peers n)(?j := res_state r)" "arrived n1 = arrived n"
        "consumed n1 l = consumed n l + (length ?bs - length rest)"
        "shut n1 l = closes r" "status n1 ?j = loop_status (to_conn (W l)) (peer_stall clock (to_conn (W l)) h m (peers n ?j)) r (status n ?j)"
        by (simp_all add: n1 hand_over_def skip_bytes_def Let_def r_def)
      have run: "run_bytes E ?h ?bs (peers n ?j) = (case r of
            Ok err s1 \<Rightarrow> if err = None then run_bytes E ?h rest s1 else (Ok ActClose s1, rest)
          | Panic p s1 \<Rightarrow> (Panic p s1, rest) | Block s1 \<Rightarrow> (Block s1, rest))"
        unfolding run_bytes.simps [of E ?h ?bs] using ready dec Inr hm by (simp add: r_def)
      show ?thesis
      proof (cases "\<exists>p. r = Ok None p")
        case True
        then obtain p where p: "r = Ok None p" by blast
        have "peer_listens (to_conn (W l)) p"
          using peer_hear_listens [of "to_conn (W l)" "peers n ?j" E clock now h m] less.prems p
          by (simp add: can_read_def r_def)
        then have can: "can_read W l n1"
          using less.prems fields p
          by (simp add: can_read_def closes_def loop_status_def cong: conn_ref.case_cong)
        have "link_bytes W l n1 = link_bytes W l n" using assms(2) by (simp add: link_bytes_def fields)
        then have bs: "inbuf W l n1 = rest"
          using skip_bytes_inbuf [OF drop _ _ _ fields(3)] shorter fields(2) by simp
        from less.hyps [OF _ can] shorter obtain n' where n': "(net_turn E clock A W)\<^sup>*\<^sup>* n1 n'"
          "peers n' = (peers n1)(?j := res_state (fst (run_bytes E ?h rest (peers n1 ?j))))"
          "consumed n' l = consumed n1 l + (length rest - length (snd (run_bytes E ?h rest (peers n1 ?j))))"
          unfolding bs by blast
        have len: "length (snd (run_bytes E ?h rest p)) \<le> length rest"
          by (rule run_bytes_shrinks)
        have "(net_turn E clock A W)\<^sup>*\<^sup>* n n'"
          using step n'(1) unfolding n1_def by (rule converse_rtranclp_into_rtranclp)
        then show ?thesis
          using n'(2,3) run fields p shorter len by (intro exI [of _ n']) simp
      next
        case False
        then have "res_state (fst (run_bytes E ?h ?bs (peers n ?j))) = res_state r" "snd (run_bytes E ?h ?bs (peers n ?j)) = rest"
          unfolding run by (cases r; auto)+
        then show ?thesis
          using step fields unfolding n1_def [symmetric] by (intro exI [of _ n1]) auto
      qed
    qed
  qed
qed

end
