(* ===== verification/Calm.thy ===== *)
theory Calm
  imports NetworkSpec
begin

text \<open>
  What becomes of a call of a handler: on the packets that the nodes say to each other, with tasks
  that have no arguments, every handler returns, or waits in the announcement of a result.
\<close>

definition returns :: "('x, 's) res \<Rightarrow> bool" where
  "returns r \<longleftrightarrow> (\<exists>x t. r = Ok x t)"

lemma returns_simps [simp]:
  "returns (Ok x t)" "\<not> returns (Panic p t)" "\<not> returns (Block t)"
  by (simp_all add: returns_def)

lemma returns_map_state [simp]: "returns (map_state f r) = returns r"
  by (cases r) simp_all

lemma returns_bind: "returns r \<Longrightarrow> (\<And>x t. r = Ok x t \<Longrightarrow> returns (f x t)) \<Longrightarrow> returns (bind_res r f)"
  by (cases r) simp_all

section \<open>Sending\<close>

text \<open>No accepted connection writes on a \<^verbatim>\<open>net.Conn\<close>, so no send waits.\<close>

definition plain :: "'a node_scheme \<Rightarrow> bool" where
  "plain s \<longleftrightarrow> (\<forall>a. netC (inb s a) = None)"

lemma plain_good: "node_good s \<Longrightarrow> plain s"
  by (simp add: node_good_def plain_def conn_good_def)

lemma plain_flags [simp]:
  "plain (ref_SetEstablished ref s) = plain s" "plain (ref_NotifyEstablish ref s) = plain s"
  by (cases ref; auto simp: plain_def connection_SetEstablished_def connection_NotifyEstablish_def split: option.split)+

lemma ref_Send_returns:
  assumes "plain s"
  shows "returns (ref_Send E ref p s)"
proof (cases ref)
  case (InConn a)
  then show ?thesis using assms by (simp add: plain_def connection_Send_def Let_def split: option.split)
next
  case (OutConn a)
  then show ?thesis by (simp add: client_Send_def split: option.split prod.split)
qed

lemma reply_returns: "plain s \<Longrightarrow> returns (reply E ref h m s)"
  by (simp add: reply_def ref_Send_returns split: sum.split)

section \<open>Handlers\<close>

lemma heard_kind: "heard A h m \<Longrightarrow> uri_kind (Uri h) = Some (kind_of m)"
  by (simp add: heard_def)

lemma scheduler_OnPacket_returns:
  assumes "heard A h m" and "plain s"
  shows "returns (scheduler_OnPacket E ref h m s)"
proof -
  have "returns (scheduler_onEstablish E ref h req s)" for req
    using assms(2) by (simp add: scheduler_onEstablish_def reply_returns Let_def)
  moreover have "returns (scheduler_onEstablishAck ref resp s)" for resp
    by (simp add: scheduler_onEstablishAck_def Let_def)
  moreover have "returns (onAssignTaskResp resp s)" for resp
    by (simp add: onAssignTaskResp_def Let_def split: option.split)
  ultimately show ?thesis
    using heard_kind [OF assms(1)]
    by (cases m) (auto simp: scheduler_OnPacket_def uri_kind_def uri_table_def const_defs split: if_splits)
qed

lemma gcs_OnPacket_returns:
  assumes "heard A h m" and "plain s"
  shows "returns (gcs_OnPacket E ref h m s)"
proof -
  have "returns (gcs_onEstablish E ref h req s)" for req
    using assms(2) by (simp add: gcs_onEstablish_def reply_returns Let_def)
  moreover have "returns (gcs_onEstablishAck ref s)" by (simp add: gcs_onEstablishAck_def)
  moreover have "returns (gcs_onReportTaskResult ref req s)" for req
    by (simp add: gcs_onReportTaskResult_def)
  moreover have "\<not> fetches h" using assms(1) by (simp add: heard_def)
  ultimately show ?thesis
    using heard_kind [OF assms(1)]
    by (cases m) (auto simp: gcs_OnPacket_def fetches_def uri_kind_def uri_table_def const_defs split: if_splits)
qed


text \<open>On an assignment without arguments a worker returns, or waits to announce the result.\<close>

lemma answer_assign_returns: "plain s \<Longrightarrow> returns (answer_assign E ref seq k err s)"
  by (auto simp: answer_assign_def Let_def intro!: returns_bind ref_Send_returns split: sum.split)

lemma dispatch_task_frame:
  "dispatch_task clock task s \<noteq> Panic p t" "inb (res_state (dispatch_task clock task s)) = inb s"
proof -
  obtain result err where "AddTowIntFunc task = (result, err)" by (cases "AddTowIntFunc task")
  then show "dispatch_task clock task s \<noteq> Panic p t" "inb (res_state (dispatch_task clock task s)) = inb s"
    by (simp_all add: dispatch_task_def onAddTowInt_def SetObject_def Let_def split: option.split)
qed

lemma onAssignTask_returns:
  assumes "Args u = []" and "plain s" and uri: "Uri h = RayAssignTask"
  shows "returns (onAssignTask E clock ref h (assign_request u) s)
    \<or> (\<exists>t st. onAssignTask E clock ref h (assign_request u) s = Block t
        \<and> stalled_at clock ref h (MAssignTaskRequest (assign_request u)) s = Some st)"
proof (cases "dispatch_task clock (u\<lparr>Args := [], ArgsType := [], Dependencies := []\<rparr>) s")
  case (Ok err t)
  have "inb t = inb s"
    using dispatch_task_frame(2) [of clock "u\<lparr>Args := [], ArgsType := [], Dependencies := []\<rparr>" s] unfolding Ok by simp
  then have "plain t" using assms(2) by (simp add: plain_def)
  then show ?thesis using Ok assms(1) by (simp add: onAssignTask_request answer_assign_returns)
next
  case (Panic p t)
  then show ?thesis using dispatch_task_frame(1) by metis
next
  case (Block t)
  then have "FuncName u = TaskFuncAddTowInt" by (auto simp: dispatch_task_def split: if_splits)
  then obtain st where "stalled_at clock ref h (MAssignTaskRequest (assign_request u)) s = Some st"
    using assms(1) uri by (simp add: stalled_at_def assign_request_def Let_def)
  moreover have "onAssignTask E clock ref h (assign_request u) s = Block t"
    using Block assms(1) by (simp add: onAssignTask_request)
  ultimately show ?thesis by blast
qed

lemma worker_OnPacket_returns:
  assumes "heard A h m" and "plain s" and args: "\<And>t. A t \<Longrightarrow> Args t = []"
  shows "returns (worker_OnPacket E clock ref h m s)
    \<or> (\<exists>t st. worker_OnPacket E clock ref h m s = Block t \<and> stalled_at clock ref h m s = Some st)"
proof (cases "Uri h = RayAssignTask")
  case True
  then obtain u where u: "A u" "m = MAssignTaskRequest (assign_request u)" using assms(1) by (auto simp: heard_def)
  have "worker_OnPacket E clock ref h m s = onAssignTask E clock ref h (assign_request u) s"
    using True u(2) by (simp add: worker_OnPacket_def const_defs)
  then show ?thesis using onAssignTask_returns [OF args [OF u(1)] assms(2) True] u(2) by simp
next
  case False
  have "returns (worker_onEstablish E ref h req s)" for req
  proof -
    have "plain (ref_SetEstablished ref s)" using assms(2) by simp
    then have "plain ((ref_SetEstablished ref s)\<lparr>gcsConn := g\<rparr>)" for g by (simp add: plain_def)
    then show ?thesis using assms(2) by (simp add: worker_onEstablish_def reply_returns Let_def)
  qed
  moreover have "returns (worker_onEstablishAck ref s)" by (simp add: worker_onEstablishAck_def)
  moreover have "\<not> fetches h" using assms(1) by (simp add: heard_def)
  ultimately show ?thesis
    using heard_kind [OF assms(1)] False
    by (cases m) (auto simp: worker_OnPacket_def fetches_def uri_kind_def uri_table_def const_defs split: if_splits)
qed

text \<open>A dialling connection recovers the panics of its handler.\<close>

lemma client_OnPacket_returns:
  assumes "\<And>s. plain s \<Longrightarrow> \<not> (\<exists>t. handlePacket (OutConn a) h m s = Block t)" and "plain s"
  shows "returns (client_OnPacket now handlePacket a h m s)"
proof -
  let ?s1 = "set_outb a s (snd (client_receive now h m (outb s a)))"
  have "plain ?s1" using assms(2) by (simp add: plain_def)
  then have "\<not> (\<exists>t. handlePacket (OutConn a) h m ?s1 = Block t)" by (rule assms(1))
  then show ?thesis
    by (cases "handlePacket (OutConn a) h m ?s1") (auto simp: client_OnPacket_def Let_def split: prod.split verdict.split)
qed

lemma not_Block: "returns r \<Longrightarrow> \<not> (\<exists>t. r = Block t)"
  by (cases r) simp_all

lemma peer_hear_returns:
  assumes "heard A h m" and "peer_ok A p" and args: "\<And>t. A t \<Longrightarrow> Args t = []"
  shows "returns (peer_hear E clock now ref h m p)
    \<or> (\<exists>q st. peer_hear E clock now ref h m p = Block q \<and> peer_stall clock ref h m p = Some st)"
proof (cases p)
  case (SchedulerPeer s)
  then have "plain s" using assms(2) by (simp add: scheduler_ok_def plain_good)
  then have "returns (node_hear (scheduler_OnPacket E) (scheduler_HandlePacket E) now ref h m s)"
    using not_Block [OF scheduler_OnPacket_returns [OF assms(1)]] scheduler_OnPacket_returns [OF assms(1)]
    by (cases ref) (simp_all add: scheduler_HandlePacket_def client_OnPacket_returns)
  then show ?thesis using SchedulerPeer by simp
next
  case (GcsPeer s)
  then have "plain s" using assms(2) by (simp add: gcs_ok_def plain_good)
  then have "returns (node_hear (gcs_OnPacket E) (gcs_HandlePacket E) now ref h m s)"
    using not_Block [OF gcs_OnPacket_returns [OF assms(1)]] gcs_OnPacket_returns [OF assms(1)]
    by (cases ref) (simp_all add: gcs_HandlePacket_def client_OnPacket_returns)
  then show ?thesis using GcsPeer by simp
next
  case (WorkerPeer s)
  then have s: "plain s" using assms(2) by (simp add: worker_ok_def plain_good)
  show ?thesis
  proof (cases ref)
    case (InConn a)
    then show ?thesis using worker_OnPacket_returns [OF assms(1) s args, of E clock ref] WorkerPeer by auto
  next
    case (OutConn a)
    then have "returns (node_hear (worker_OnPacket E clock) worker_HandlePacket now ref h m s)"
      using s by (auto simp: worker_HandlePacket_def intro!: client_OnPacket_returns)
    then show ?thesis using WorkerPeer by simp
  qed
qed

lemma loop_status_returns:
  assumes "returns r \<or> (\<exists>q x. r = Block q \<and> st = Some x)"
  shows "loop_status ref st r old = old \<or> (\<exists>x. loop_status ref st r old = Sending x)"
  using assms by (cases r; cases ref) (auto simp: loop_status_def)

lemma finish_assign_returns:
  assumes "plain w" and "length (buf (registerObjectChan w)) < chan_slots (registerObjectChan w)"
  shows "returns (finish_assign E st w)"
proof -
  obtain ch where "try_send (st_object st) (registerObjectChan w) = Some ch"
    using assms(2) by (simp add: try_send_def chan_slots_def)
  moreover have "plain (w\<lparr>registerObjectChan := ch\<rparr>)" using assms(1) by (simp add: plain_def)
  ultimately show ?thesis by (simp add: finish_assign_def answer_assign_returns)
qed

end
