(* ===== verification/Fall.thy ===== *)
theory Fall
  imports Calm Delivery
begin

text \<open>
  How an assignment with arguments travels: a round of the scheduler's loop puts one frame on the
  transport of each registered worker, whatever becomes of the others, and a worker that reads it
  goes down.
\<close>

section \<open>A round of the scheduler\<close>

definition writes_ok :: "env \<Rightarrow> bool" where
  "writes_ok E \<longleftrightarrow> (\<forall>i g b. AsyncWriteErr E i g b = None)"

definition writes_frame :: "nat \<Rightarrow> Header \<Rightarrow> byte list \<Rightarrow> client \<Rightarrow> client" where
  "writes_frame g h body c = c\<lparr>cl_io := cl_io c @ [AsyncWrite g (wire_frame h body) None]\<rparr>"

lemma workerConns_upd:
  "workerConns (set_inb a s d) = workerConns s" "workerConns (set_outb a s e) = workerConns s"
  "taskChan (set_inb a s d) = taskChan s" "taskChan (set_outb a s e) = taskChan s"
  "pendingTasks (set_inb a s d) = pendingTasks s" "pendingTasks (set_outb a s e) = pendingTasks s"
  by (simp_all add: set_inb_def set_outb_def)

lemma handleServerReq_at:
  assumes E: "writes_ok E" and m: "m = MAssignTaskRequest q" and body: "pb_Marshal E m = Inr body"
    and s: "plain s"
    and live: "r = OutConn c \<Longrightarrow> rawConn (outb s c) = Some g \<and> cl_established (outb s c)"
  shows "\<exists>err s'. handleServerReq E r m s = Ok err s' \<and> plain s' \<and> workerConns s' = workerConns s
    \<and> pendingTasks s' = pendingTasks s \<and> outb s' c = (if r = OutConn c then writes_frame g \<lparr>Uri = RayAssignTask, SeqId = nextID s + 1\<rparr> body (outb s c)
        else outb s c)"
proof -
  let ?h = "\<lparr>Uri = RayAssignTask, SeqId = nextID s + 1\<rparr>" and ?s1 = "s\<lparr>nextID := nextID s + 1\<rparr>"
  obtain p where p: "EncodePayload E ?h m = Inr p" "MakeFrame p = wire_frame ?h body"
    using body wire_frame_EncodePayload [OF body, of ?h] by (simp add: EncodePayload_def)
  have run: "handleServerReq E r m s = ref_Send E r p ?s1"
    using p(1) by (simp add: m handleServerReq_def reply_def Let_def)
  show ?thesis
  proof (cases r)
    case (InConn a)
    have "plain ?s1" using s by (simp add: plain_def)
    from ref_Send_returns [OF this, of E r p] obtain err s' where s': "ref_Send E r p ?s1 = Ok err s'"
      unfolding returns_def by blast
    then obtain d where d: "connection_Send E p (inb s a) = Ok err d" "s' = set_inb a ?s1 d"
      using InConn by (cases "connection_Send E p (inb s a)") auto
    have "netC d = None" using d(1) s by (auto simp: plain_def connection_Send_def Let_def split: option.splits)
    then have "plain s'" using s d(2) by (simp add: plain_def)
    then show ?thesis using run s' d(2) InConn by (simp add: workerConns_upd)
  next
    case (OutConn b)
    let ?d = "\<lambda>d. set_outb b ?s1 d"
    show ?thesis
    proof (cases "b = c")
      case True
      then have "client_Send E p (outb s b) = Ok None (writes_frame g ?h body (outb s b))"
        using live OutConn E p(2) by (simp add: client_Send_def client_write_def writes_ok_def writes_frame_def)
      then show ?thesis using run OutConn True s by (simp add: plain_def workerConns_upd)
    next
      case False
      obtain err d where "client_Send E p (outb s b) = Ok err d" using client_Send_total by blast
      then show ?thesis using run OutConn False s by (simp add: plain_def workerConns_upd)
    qed
  qed
qed

lemma assign_loop_at:
  assumes E: "writes_ok E" and body: "pb_Marshal E (MAssignTaskRequest (assign_request task)) = Inr body"
  shows "plain s \<Longrightarrow> rawConn (outb s c) = Some g \<Longrightarrow> cl_established (outb s c) \<Longrightarrow>
    distinct (map (workerConns s) order) \<Longrightarrow> set order \<subseteq> dom (workerConns s) \<Longrightarrow>
    \<exists>s' seq. assign_loop E task order s = Ok None s' \<and> workerConns s' = workerConns s \<and>
      pendingTasks s' = (if order = [] then pendingTasks s else (pendingTasks s)(ID task \<mapsto> task)) \<and>
      outb s' c = (if Some (OutConn c) \<in> workerConns s ` set order
        then writes_frame g \<lparr>Uri = RayAssignTask, SeqId = seq\<rparr> body (outb s c) else outb s c)"
proof (induction order arbitrary: s)
  case (Cons k order)
  obtain r where r: "workerConns s k = Some r" using Cons.prems(5) by auto
  let ?s0 = "s\<lparr>pendingTasks := (pendingTasks s)(ID task \<mapsto> task)\<rparr>"
  have "plain ?s0" using Cons.prems(1) by (simp add: plain_def)
  from handleServerReq_at [OF E refl body this, of r c g] Cons.prems(2,3)
  obtain err s1 where s1: "handleServerReq E r (MAssignTaskRequest (assign_request task)) ?s0 = Ok err s1" "plain s1"
    "workerConns s1 = workerConns s"
    "pendingTasks s1 = (pendingTasks s)(ID task \<mapsto> task)"
    "outb s1 c = (if r = OutConn c then writes_frame g \<lparr>Uri = RayAssignTask, SeqId = nextID s + 1\<rparr> body (outb s c) else outb s c)"
    by auto
  have "rawConn (outb s1 c) = Some g" "cl_established (outb s1 c)"
    using s1(5) Cons.prems(2,3) by (simp_all add: writes_frame_def)
  from Cons.IH [OF s1(2) this] Cons.prems(4,5) s1(3)
  obtain s' seq where s': "assign_loop E task order s1 = Ok None s'" "workerConns s' = workerConns s1"
    "pendingTasks s' = (if order = [] then pendingTasks s1 else (pendingTasks s1)(ID task \<mapsto> task))"
    "outb s' c = (if Some (OutConn c) \<in> workerConns s ` set order
        then writes_frame g \<lparr>Uri = RayAssignTask, SeqId = seq\<rparr> body (outb s1 c) else outb s1 c)" by auto
  have "assign_loop E task (k # order) s = Ok None s'" using r s1(1) s'(1) by simp
  moreover have "Some (OutConn c) \<notin> workerConns s ` set order" if "r = OutConn c"
    using Cons.prems(4) r that by auto
  ultimately show ?case
    using s'(2-4) s1(3-5) r by (cases "r = OutConn c") (auto intro: exI [of _ "nextID s + 1"])
qed simp

text \<open>A scheduler knows finitely many workers: each is registered under the address of its connection.\<close>

lemma crew_finite:
  assumes "scheduler_inv s"
  shows "finite (dom (workerConns s))"
proof -
  let ?refs = "InConn ` {..< fresh s} \<union> OutConn ` {..< fresh s}"
  have "dom (workerConns s) \<subseteq> (\<lambda>r. ref_Remote r s) ` ?refs"
  proof
    fix k assume "k \<in> dom (workerConns s)"
    then obtain r where r: "workerConns s k = Some r" by blast
    then have "ref_alloc r s" "ref_Remote r s = k" using assms by (simp_all add: scheduler_inv_def)
    then have "r \<in> ?refs" by (cases r) auto
    then show "k \<in> (\<lambda>r. ref_Remote r s) ` ?refs" using \<open>ref_Remote r s = k\<close> by blast
  qed
  then show ?thesis by (rule finite_subset) simp
qed

section \<open>The worker that reads it\<close>

lemma onAssignTask_panics:
  assumes "Args u \<noteq> []" and "Uri h = RayAssignTask"
  shows "worker_OnPacket E clock ref h (MAssignTaskRequest (assign_request u)) s = Panic IndexOutOfRange s"
  using assms by (simp add: worker_OnPacket_def onAssignTask_request const_defs)

text \<open>
  The next packet that the reader of \<open>l\<close> takes is the assignment of the task, its handler panics on it, and
  the node goes down for this reason.
\<close>

definition breaks_on :: "env \<Rightarrow> (nat \<Rightarrow> int64) \<Rightarrow> (nat \<Rightarrow> link) \<Rightarrow> nat \<Rightarrow> Task \<Rightarrow> net \<Rightarrow> bool" where
  "breaks_on E clock W l task n \<longleftrightarrow> can_read W l n \<and> (\<exists>w a h. peers n (to_peer (W l)) = WorkerPeer w \<and> to_conn (W l) = InConn a
     \<and> fst (ZeroCopyDecode buf_ops E (inbuf W l n)) = Inr (h, MAssignTaskRequest (assign_request task))
     \<and> worker_OnPacket E clock (InConn a) h (MAssignTaskRequest (assign_request task)) w = Panic IndexOutOfRange w)
     \<and> (\<forall>now. status (read_packet E clock now W l n) (to_peer (W l)) = Down)"

lemma read_falls:
  assumes E: "faithful E" and body: "pb_Marshal E (MAssignTaskRequest (assign_request u)) = Inr body"
    and args: "Args u \<noteq> []" and uri: "Uri h = RayAssignTask"
    and w: "to_conn (W l) = InConn a" "peers n (to_peer (W l)) = WorkerPeer w"
    and can: "can_read W l n"
    and front: "arrived n l = consumed n l" "consumed n l \<le> length (link_bytes W l n)"
      "drop (consumed n l) (link_bytes W l n) = wire_frame h body"
  shows "net_turn E clock A W n (all_arrived W l n) \<and> breaks_on E clock W l u (all_arrived W l n)"
proof -
  let ?m = "MAssignTaskRequest (assign_request u)"
  have rt: "pb_roundtrips E ?m body" and len: "length body < 2 ^ 32 - 10"
    using E body by (simp_all add: faithful_def)
  have kind: "uri_kind (Uri h) = Some (kind_of ?m)" by (simp add: uri uri_kind_def uri_table_def const_defs)
  note arrives = frame_arrives [OF rt len kind front]
  have "status (hand_over E clock now W l h ?m (delivered W l n)) (to_peer (W l)) = Down" for now
    using w onAssignTask_panics [OF args uri]
    by (simp add: hand_over_def delivered_def Let_def loop_status_def)
  then show ?thesis
    using arrives w onAssignTask_panics [OF args uri] can
    by (auto simp: breaks_on_def can_read_arrived) (simp_all add: all_arrived_def)
qed

text \<open>From the queue of a scheduler to the fall of a worker that is registered there.\<close>

lemma assigned_falls:
  assumes E: "faithful E" "writes_ok E" and ok: "net_ok E A W n"
    and j: "peers n (from_peer (W l)) = SchedulerPeer s" "status n (from_peer (W l)) \<noteq> Down"
    and queue: "buf (taskChan s) = u # rest" "Args u \<noteq> []"
    and body: "pb_Marshal E (MAssignTaskRequest (assign_request u)) = Inr body"
    and reg: "workerConns s k = Some (OutConn c)"
    and conn: "from_conn (W l) = OutConn c" "rawConn (outb s c) = Some (handle (W l))" "cl_established (outb s c)"
    and w: "to_conn (W l) = InConn a" "peers n (to_peer (W l)) = WorkerPeer w"
    and can: "can_read W l n" and read: "consumed n l = length (link_bytes W l n)"
  shows "\<exists>n1 s1. (net_turn E clock A W)\<^sup>*\<^sup>* n n1 \<and> peers n1 (from_peer (W l)) = SchedulerPeer s1
    \<and> pendingTasks s1 (ID u) = Some u \<and> workerConns s1 = workerConns s
    \<and> peers n1 (to_peer (W l)) = WorkerPeer w \<and> breaks_on E clock W l u n1"
proof -
  have s: "plain s" "scheduler_inv s"
    using ok j(1) unfolding net_ok_def by (metis peer_ok.simps(1) plain_good scheduler_ok_def)+
  obtain order where order: "set order = dom (workerConns s)" "distinct order"
    using finite_distinct_list [OF crew_finite [OF s(2)]] by blast
  let ?q = "s\<lparr>taskChan := (taskChan s)\<lparr>buf := rest\<rparr>\<rparr>"
  have "plain ?q" using s(1) by (simp add: plain_def)
  moreover have mem: "Some (OutConn c) \<in> workerConns ?q ` set order"
    using reg order(1) by (simp add: image_iff) (metis domI)
  moreover have "order \<noteq> []" using reg order(1) by auto
  ultimately obtain s' seq where s': "assign_loop E u order ?q = Ok None s'"
    "outb s' c = writes_frame (handle (W l)) \<lparr>Uri = RayAssignTask, SeqId = seq\<rparr> body (outb s c)"
    "workerConns s' = workerConns s" "pendingTasks s' (ID u) = Some u"
    using assign_loop_at [OF E(2) body, of ?q c "handle (W l)" order] conn(2,3) order
      workerConns_inj [OF s(2) order(2)] unfolding if_P [OF mem] by auto
  let ?h = "\<lparr>Uri = RayAssignTask, SeqId = seq\<rparr>"
  have "res_state (scheduler_Loop_round E order s) = s'"
    using queue(1) s'(1) by (simp add: scheduler_Loop_round_def chan_len_def AssignTask_def try_recv_def)
  then have own: "scheduler_own E A s s'" using own_sched_round [OF order(2,1), of E A] by simp
  let ?n1 = "n\<lparr>peers := (peers n)(from_peer (W l) := SchedulerPeer s')\<rparr>"
  have step: "net_turn E clock A W n ?n1"
    by (rule turn_own [OF j(2)]) (simp add: j(1) own_scheduler own)
  have apart: "from_peer (W l) \<noteq> to_peer (W l)" using j(1) w(2) by auto
  have bytes: "link_bytes W l ?n1 = link_bytes W l n @ wire_frame ?h body"
    using j(1) s'(2) conn(1) by (simp add: link_bytes_def writes_frame_def)
  have "arrived n l = consumed n l"
    using ok read unfolding net_ok_def link_ok_def by (metis le_antisym)
  then have fall: "net_turn E clock A W ?n1 (all_arrived W l ?n1) \<and> breaks_on E clock W l u (all_arrived W l ?n1)"
    using can w apart read bytes
    by (intro read_falls [OF E(1) body queue(2), of ?h]) (simp_all add: can_read_def cong: conn_ref.case_cong)
  then have "(net_turn E clock A W)\<^sup>*\<^sup>* n (all_arrived W l ?n1)"
    using step by (meson converse_rtranclp_into_rtranclp r_into_rtranclp)
  then show ?thesis
    using fall s'(3,4) apart w(2) by (intro exI [of _ "all_arrived W l ?n1"] exI [of _ s']) (simp add: all_arrived_def)
qed

end
