(* ===== verification/Join.thy ===== *)
theory Join
  imports Fall
begin

text \<open>
  How a worker joins a scheduler: the loop of the scheduler's dialling connection sends its greeting,
  the worker that reads it marks its end as established and answers, and the scheduler that reads
  the answer files the worker.
\<close>

section \<open>The three turns of a handshake\<close>

text \<open>The dial: the greeting is on the wire and the loop waits in its inner \<^verbatim>\<open>select\<close>.\<close>

definition greet_msg :: "client \<Rightarrow> int32 \<Rightarrow> pb_msg" where
  "greet_msg c mode = MEstablishReq \<lparr>EstablishReq_Addr = cl_localAddr c, EstablishReq_Mode = mode\<rparr>"

definition greets :: "nat \<Rightarrow> byte list \<Rightarrow> client \<Rightarrow> client" where
  "greets g body c = c\<lparr>cl_established := False, seqID := seqID c + 1, rawConn := Some g, lastRecv := 0, lastSent := 0,
     nextDial := hour, subCtx := Some False, pc := PcInner,
     cl_io := cl_io c @ [AsyncWrite g (wire_frame \<lparr>Uri = MetaEstablish, SeqId = seqID c + 1\<rparr> body) None]\<rparr>"

lemma loop_greets:
  assumes E: "writes_ok E" and body: "pb_Marshal E (greet_msg c mode) = Inr body" and mode: "handlerMode c = Some mode"
    and ready: "pc c = PcTop" "cl_started c" "\<not> ctxDone c"
  shows "solo_step E c (greets g body c)"
proof -
  let ?h = "\<lparr>Uri = MetaEstablish, SeqId = seqID c + 1\<rparr>"
  obtain p where p: "EncodePayload E ?h (greet_msg c mode) = Inr p" "MakeFrame p = wire_frame ?h body"
    using body wire_frame_EncodePayload [OF body, of ?h] by (simp add: EncodePayload_def)
  have "loop_dial E 0 (Inr g) c = Ok () (greets g body c)"
    using p E mode
    by (simp add: loop_dial_def dialOnce_def sendEstablish_def client_write_def writes_ok_def greets_def
        greet_msg_def Let_def)
  then show ?thesis by (intro solo_loop loop_dialed [OF ready])
qed

text \<open>The answer of the worker.\<close>

definition ack_msg :: pb_msg where
  "ack_msg = MEstablishResponse \<lparr>EstablishResponse_Mode = ModeWorker, EstablishResponse_Err = ''OK''\<rparr>"

lemma worker_welcomes:
  assumes E: "writes_ok E" and body: "pb_Marshal E ack_msg = Inr body" and w: "plain w" "gnetC (inb w a) = Some g"
  shows "\<exists>w'. worker_OnPacket E clock (InConn a) \<lparr>Uri = MetaEstablish, SeqId = i\<rparr> (MEstablishReq req) w = Ok None w'
    \<and> established (inb w' a) \<and> started w' = started w \<and> fresh w' = fresh w
    \<and> conn_io (inb w' a) = conn_io (inb w a) @ [AsyncWrite g (wire_frame \<lparr>Uri = MetaEstablishAck, SeqId = i\<rparr> body) None]"
proof -
  let ?h = "\<lparr>Uri = MetaEstablishAck, SeqId = i\<rparr>"
  obtain p where p: "EncodePayload E ?h ack_msg = Inr p" "MakeFrame p = wire_frame ?h body"
    using body wire_frame_EncodePayload [OF body, of ?h] by (simp add: EncodePayload_def)
  have netC: "netC (inb w a) = None" using w(1) by (simp add: plain_def)
  show ?thesis
    using p netC w(2) E
    by (simp add: worker_OnPacket_def worker_onEstablish_def reply_def connection_Send_def
        connection_SetEstablished_def writes_ok_def ack_msg_def const_defs Let_def)
qed

text \<open>The scheduler that reads it.\<close>

lemma scheduler_files:
  assumes "dials c s"
  shows "\<exists>s'. client_OnPacket 0 (scheduler_HandlePacket E) c \<lparr>Uri = MetaEstablishAck, SeqId = i\<rparr> ack_msg s = Ok None s'
    \<and> workerConns s' = (workerConns s)(cl_endpoint (outb s c) \<mapsto> OutConn c) \<and> taskChan s' = taskChan s
    \<and> cl_established (outb s' c) \<and> rawConn (outb s' c) = rawConn (outb s c) \<and> cl_io (outb s' c) = cl_io (outb s c)"
  using assms
  by (auto simp: client_OnPacket_def client_receive_def ack_msg_def scheduler_HandlePacket_def dials_def
      scheduler_OnPacket_def scheduler_onEstablishAck_def client_NotifyEstablish_def workerConns_upd Let_def const_defs)

section \<open>The whole handshake\<close>

lemma worker_joins:
  assumes E: "faithful E" "writes_ok E" and ok: "net_ok E A W n"
    and s: "peers n (from_peer (W l)) = SchedulerPeer s" "status n (from_peer (W l)) \<noteq> Down"
    and w: "peers n (to_peer (W l)) = WorkerPeer w" "to_conn (W l) = InConn a" "gnetC (inb w a) = Some (handle (W r))"
    and fore: "from_conn (W l) = OutConn c" "can_read W l n" "link_bytes W l n = []"
    and rear: "from_peer (W r) = to_peer (W l)" "from_conn (W r) = to_conn (W l)" "to_peer (W r) = from_peer (W l)"
      "to_conn (W r) = from_conn (W l)" "\<not> shut n r" "link_bytes W r n = []"
    and dial: "dials c s" "handlerMode (outb s c) = Some mode" "pc (outb s c) = PcTop" "cl_started (outb s c)"
      "\<not> ctxDone (outb s c)"
    and bodies: "pb_Marshal E (greet_msg (outb s c) mode) = Inr b1" "pb_Marshal E ack_msg = Inr b2"
  shows "\<exists>n' s' w'. (net_turn E clock A W)\<^sup>*\<^sup>* n n'
    \<and> peers n' (from_peer (W l)) = SchedulerPeer s' \<and> workerConns s' (cl_endpoint (outb s c)) = Some (OutConn c)
    \<and> cl_established (outb s' c) \<and> rawConn (outb s' c) = Some (handle (W l))
    \<and> peers n' (to_peer (W l)) = WorkerPeer w' \<and> established (inb w' a)
    \<and> can_read W l n' \<and> consumed n' l = length (link_bytes W l n')
    \<and> taskChan s' = taskChan s \<and> status n' = status n"
proof -
  have apart: "from_peer (W l) \<noteq> to_peer (W l)" using s(1) w(1) by auto
  have differ: "l \<noteq> r" using apart rear(1) by auto
  have plain: "plain w" using ok w(1) unfolding net_ok_def by (metis peer_ok.simps(3) plain_good worker_ok_def)
  have empty: "arrived n l = 0" "consumed n l = 0" "arrived n r = 0" "consumed n r = 0"
    using ok fore(3) rear(6) unfolding net_ok_def link_ok_def by (metis le_zero_eq list.size(3) le_trans)+
  have rt: "pb_roundtrips E (greet_msg (outb s c) mode) b1" "length b1 < 2 ^ 32 - 10"
    "pb_roundtrips E ack_msg b2" "length b2 < 2 ^ 32 - 10"
    using E(1) bodies by (simp_all add: faithful_def)
  let ?i = "seqID (outb s c) + 1" and ?d = "greets (handle (W l)) b1 (outb s c)"
  let ?h1 = "\<lparr>Uri = MetaEstablish, SeqId = ?i\<rparr>" and ?m1 = "greet_msg (outb s c) mode"
  let ?h2 = "\<lparr>Uri = MetaEstablishAck, SeqId = ?i\<rparr>"
  let ?s1 = "set_outb c s ?d"
  let ?n1 = "n\<lparr>peers := (peers n)(from_peer (W l) := SchedulerPeer ?s1)\<rparr>"
  have "solo_step E (outb s c) ?d" by (rule loop_greets [OF E(2) bodies(1) dial(2-5)])
  then have "scheduler_own E A s ?s1" by (intro own_sched_node own_client dial(1))
  then have one: "net_turn E clock A W n ?n1" by (intro turn_own [OF s(2)]) (simp add: s(1) own_scheduler)
  have bytes1: "link_bytes W l ?n1 = wire_frame ?h1 b1"
    using fore(1,3) s(1) by (simp add: link_bytes_def greets_def)
  obtain w1 where w1: "worker_OnPacket E clock (InConn a) ?h1 ?m1 w = Ok None w1" "established (inb w1 a)"
    "started w1 = started w" "fresh w1 = fresh w"
    "conn_io (inb w1 a) = conn_io (inb w a) @ [AsyncWrite (handle (W r)) (wire_frame ?h2 b2) None]"
    using worker_welcomes [OF E(2) bodies(2) plain w(3), of clock ?i] unfolding greet_msg_def by blast
  let ?n2 = "(delivered W l ?n1)\<lparr>peers := (peers ?n1)(to_peer (W l) := WorkerPeer w1)\<rparr>"
  have can1: "can_read W l ?n1"
    using fore(2) apart w(1) by (simp add: can_read_def cong: conn_ref.case_cong)
  have hear1: "peer_hear E clock 0 (to_conn (W l)) ?h1 ?m1 (peers ?n1 (to_peer (W l))) = Ok None (WorkerPeer w1)"
    using w(1,2) apart w1(1) by simp
  have two: "(net_turn E clock A W)\<^sup>*\<^sup>* ?n1 ?n2"
    by (rule read_quiet [OF rt(1,2) _ can1 _ _ _ hear1])
      (use empty bytes1 in \<open>simp_all add: greet_msg_def uri_kind_def uri_table_def const_defs\<close>)
  have bytes2: "link_bytes W r ?n2 = wire_frame ?h2 b2"
    using rear w(2) w1(5) apart by (simp add: link_bytes_def w(1))
  have dial1: "dials c ?s1" "cl_endpoint ?d = cl_endpoint (outb s c)" using dial(1) by (simp_all add: dials_def greets_def)
  obtain s2 where s2: "client_OnPacket 0 (scheduler_HandlePacket E) c ?h2 ack_msg ?s1 = Ok None s2"
    "workerConns s2 = (workerConns ?s1)(cl_endpoint (outb ?s1 c) \<mapsto> OutConn c)"
    "cl_established (outb s2 c)" "rawConn (outb s2 c) = rawConn ?d" "cl_io (outb s2 c) = cl_io ?d"
    "taskChan s2 = taskChan ?s1"
    using scheduler_files [OF dial1(1), of E ?i] by auto
  let ?n3 = "(delivered W r ?n2)\<lparr>peers := (peers ?n2)(to_peer (W r) := SchedulerPeer s2)\<rparr>"
  have can2: "can_read W r ?n2"
    using rear fore(1) s(1,2) dial1(1) apart by (simp add: can_read_def delivered_def)
  have hear2: "peer_hear E clock 0 (to_conn (W r)) ?h2 ack_msg (peers ?n2 (to_peer (W r))) = Ok None (SchedulerPeer s2)"
    using rear(3,4) fore(1) apart s2(1) by simp
  have three: "(net_turn E clock A W)\<^sup>*\<^sup>* ?n2 ?n3"
    by (rule read_quiet [OF rt(3,4) _ can2 _ _ _ hear2])
      (use empty bytes2 differ in \<open>simp_all add: ack_msg_def uri_kind_def uri_table_def const_defs delivered_def\<close>)
  have "link_bytes W l ?n3 = link_bytes W l ?n1"
    using rear(3) fore(1) s2(5) apart by (simp add: link_bytes_def)
  then have "consumed ?n3 l = length (link_bytes W l ?n3)" using differ by (simp add: delivered_def)
  moreover have "can_read W l ?n3"
    using fore(2) rear(3) w(1,2) w1(3,4) apart by (simp add: can_read_def delivered_def)
  moreover have "workerConns s2 (cl_endpoint (outb s c)) = Some (OutConn c)" using s2(2) dial1(2) by simp
  moreover have "rawConn (outb s2 c) = Some (handle (W l))" using s2(4) by (simp add: greets_def)
  moreover have "(net_turn E clock A W)\<^sup>*\<^sup>* n ?n3" using one two three by (meson converse_rtranclp_into_rtranclp rtranclp_trans)
  ultimately show ?thesis
    using s2(3,6) w1(2) rear(3) apart
    by (intro exI [of _ ?n3] exI [of _ s2] exI [of _ w1]) (simp add: set_outb_def delivered_def)
qed

end
