(* ===== verification/NetworkProps.thy ===== *)
theory NetworkProps
  imports SampleNet Bridge Join
begin

text \<open>
  The theorems about the whole system: the step relation of \<^verbatim>\<open>Network\<close> from any newly made nodes, with
  any number of nodes and pipes, in every interleaving. Each is applied to the run of \<^verbatim>\<open>SampleNet\<close>.
\<close>

lemma newly_made_io: "newly_made p \<Longrightarrow> peer_io ref p = []"
  by (cases p; cases ref) (auto simp: NewScheduler_def NewWorker_def NewGCS_def newConnection_def
      NewConnection_def split: if_splits)

lemma newly_made_ok:
  assumes "newly_made p"
  shows "peer_ok A p"
proof (cases p)
  case (SchedulerPeer s)
  then obtain l a opts where new: "NewScheduler l a opts = Some s" using assms by auto
  have "held s = {}" "blank s"
    using new by (auto simp: NewScheduler_def held_def blank_def newConnection_def NewConnection_def split: if_splits)
  then show ?thesis using NewScheduler_start [OF new] SchedulerPeer by (simp add: scheduler_ok_def)
next
  case (GcsPeer s)
  then obtain l a opts where new: "s = NewGCS l a opts" using assms by auto
  have "blank s" by (simp add: new NewGCS_def blank_def newConnection_def NewConnection_def)
  then show ?thesis using NewGCS_start GcsPeer new by (simp add: gcs_ok_def)
next
  case (WorkerPeer s)
  then obtain l a opts where new: "NewWorker l a opts = Some s" using assms by auto
  have "results A s" "blank s"
    using new by (auto simp: NewWorker_def results_def blank_def newConnection_def NewConnection_def split: if_splits)
  then show ?thesis using NewWorker_start [OF new] WorkerPeer by (simp add: worker_ok_def)
qed

lemma newly_made_told: "newly_made p \<Longrightarrow> peer_told A W n j p"
  by (cases p) (auto simp: scheduler_told_def gcs_told_def NewScheduler_def NewGCS_def split: if_splits)

lemma net_start_ok:
  assumes "net_start n"
  shows "net_ok E A W n \<and> net_told A W n"
proof -
  have new: "newly_made (peers n i)" for i using assms by (simp add: net_start_def)
  have "link_bytes W l n = []" for l using newly_made_io [OF new] by (simp add: link_bytes_def)
  then have "link_ok E A W l n" for l using assms by (simp add: link_ok_def net_start_def)
  then show ?thesis
    using newly_made_ok [OF new] newly_made_told [OF new] assms
    by (simp add: net_ok_def net_told_def net_start_def)
qed

interpretation net_sys: step_invariant "net_step E clock A W"
    "\<lambda>n. faithful E \<and> net_ok E A W n \<and> net_told A W n" for E clock A W
  by unfold_locales (use net_step_ok net_step_told in blast)

lemma net_reach:
  assumes "faithful E" and "net_start n0" and "(net_step E clock A W)\<^sup>*\<^sup>* n0 n"
  shows "net_ok E A W n \<and> net_told A W n"
  using net_sys.reach_inv [OF assms(3)] net_start_ok [OF assms(2)] assms(1) by blast

text \<open>What a decode of the arrived bytes gives.\<close>

lemma read_said:
  assumes "faithful E" and "net_start n0" and "(net_step E clock A W)\<^sup>*\<^sup>* n0 n"
  shows "fst (ZeroCopyDecode buf_ops E (inbuf W l n)) = Inl ErrShortBuffer
    \<or> (\<exists>h m. fst (ZeroCopyDecode buf_ops E (inbuf W l n)) = Inr (h, m)
        \<and> peer_says A (peers n (from_peer (W l))) (from_conn (W l)) h m)"
proof -
  have "net_ok E A W n" using net_reach [OF assms] by blast
  then have "link_ok E A W l n" by (simp add: net_ok_def)
  then have "frames_of E (peer_says A (peers n (from_peer (W l))) (from_conn (W l)))
      (drop (consumed n l) (link_bytes W l n))"
    by (simp add: link_ok_def)
  from decode_frames [OF assms(1) peer_says_paired this, of "arrived n l - consumed n l"]
  show ?thesis
    using ZeroCopyDecode_refines [OF buf_ops_ok, of E "inbuf W l n"] unfolding inbuf_def by auto
qed

text \<open>
  C9. Only packets come out of the pipes, and only true ones. In every reachable state of the system,
  wherever the stream has been cut, a decode of what has arrived on a connection either wants more
  bytes or returns a packet that the node at the other end says in the state it is in now: the decoder
  never refuses what it finds on the wire.
\<close>

theorem network_streams:
  assumes "faithful E" and "net_start n0" and "(net_step E clock A W)\<^sup>*\<^sup>* n0 n"
  shows "fst (ZeroCopyDecode buf_ops E (inbuf W l n)) = Inl ErrShortBuffer
    \<or> (\<exists>h m. fst (ZeroCopyDecode buf_ops E (inbuf W l n)) = Inr (h, m)
        \<and> peer_says A (peers n (from_peer (W l))) (from_conn (W l)) h m)"
  by (rule read_said [OF assms])

text \<open>
  C7. The directory is true. In every reachable state of the system, if the store says that an object
  is at an address, then this is the address of a connection whose other end is a worker that stores
  the object. The object is a zero, and its name is that of an addition that was pushed to a
  scheduler, one without arguments.
\<close>

theorem network_directory:
  assumes "faithful E" and "net_start n0" and "(net_step E clock A W)\<^sup>*\<^sup>* n0 n"
    and "peers n j = GcsPeer g" and "objectLocationMap g obj = Some addr"
  shows "\<exists>l w t k. to_peer (W l) = j \<and> ref_alloc (to_conn (W l)) g \<and> ref_Remote (to_conn (W l)) g = addr
    \<and> peers n (from_peer (W l)) = WorkerPeer w \<and> GetObject obj w = Some zero_object
    \<and> A t \<and> FuncName t = TaskFuncAddTowInt \<and> Args t = [] \<and> obj = ID t @ FuncName t @ FormatInt k"
proof -
  have ok: "net_ok E A W n" "net_told A W n" using net_reach [OF assms(1-3)] by blast+
  then have "gcs_told A W n j g" using assms(4) by (metis net_told_def peer_told.simps(2))
  then obtain l h m where l: "to_peer (W l) = j" "ref_alloc (to_conn (W l)) g" "ref_Remote (to_conn (W l)) g = addr"
    and said: "Uri h = RayReportTaskResult" "reports obj m"
      "peer_says A (peers n (from_peer (W l))) (from_conn (W l)) h m"
    using assms(5) unfolding gcs_told_def told_def by blast
  then obtain w where w: "peers n (from_peer (W l)) = WorkerPeer w" "obj \<in> dom (objectStorage w)"
    by (cases "peers n (from_peer (W l))")
      (auto simp: scheduler_says_def gcs_says_def worker_says_def dial_talk_def const_defs)
  have "peer_ok A (peers n (from_peer (W l)))" using ok(1) by (simp add: net_ok_def)
  then have "results A w" using w(1) by (simp add: worker_ok_def)
  then show ?thesis using l w unfolding results_def GetObject_def by blast
qed

text \<open>
  C2. No work gets done. In every reachable state of the system, everything that a worker stores is a
  zero that belongs to a pushed addition without arguments, and an answer that arrives and accepts a
  task is about a pushed task that is no addition: the one function that the workers know is never
  carried out, whatever is pushed.
\<close>

theorem network_results:
  assumes "faithful E" and "net_start n0" and "(net_step E clock A W)\<^sup>*\<^sup>* n0 n"
  shows "(peers n i = WorkerPeer w \<longrightarrow> GetObject obj w = Some object \<longrightarrow> object = zero_object
      \<and> (\<exists>t k. A t \<and> FuncName t = TaskFuncAddTowInt \<and> Args t = [] \<and> obj = ID t @ FuncName t @ FormatInt k))
    \<and> (fst (ZeroCopyDecode buf_ops E (inbuf W l n)) = Inr (h, MAssignTaskResponse r) \<longrightarrow>
      AssignTaskResponse_Accepted r \<longrightarrow>
      (\<exists>t. A t \<and> ID t = AssignTaskResponse_TaskId r \<and> FuncName t \<noteq> TaskFuncAddTowInt))"
proof (intro conjI impI)
  have ok: "net_ok E A W n" using net_reach [OF assms] by blast
  assume "peers n i = WorkerPeer w" "GetObject obj w = Some object"
  moreover from this ok have "results A w" unfolding net_ok_def by (metis peer_ok.simps(3) worker_ok_def)
  ultimately show "object = zero_object"
    "\<exists>t k. A t \<and> FuncName t = TaskFuncAddTowInt \<and> Args t = [] \<and> obj = ID t @ FuncName t @ FormatInt k"
    unfolding results_def GetObject_def by blast+
next
  assume dec: "fst (ZeroCopyDecode buf_ops E (inbuf W l n)) = Inr (h, MAssignTaskResponse r)"
    and acc: "AssignTaskResponse_Accepted r"
  then have "peer_says A (peers n (from_peer (W l))) (from_conn (W l)) h (MAssignTaskResponse r)"
    using read_said [OF assms, of l] by simp
  then show "\<exists>t. A t \<and> ID t = AssignTaskResponse_TaskId r \<and> FuncName t \<noteq> TaskFuncAddTowInt"
    using acc by (cases "peers n (from_peer (W l))")
      (auto simp: scheduler_says_def gcs_says_def worker_says_def dial_talk_def rejects_def)
qed

text \<open>
  C8. A registered worker is one. In every reachable state of the system, a connection under which a
  scheduler has registered a worker has this address, and at its other end is a worker that holds its
  end of the connection as established.
\<close>

theorem network_handshake:
  assumes "faithful E" and "net_start n0" and "(net_step E clock A W)\<^sup>*\<^sup>* n0 n"
    and "peers n j = SchedulerPeer s" and "workerConns s k = Some ref"
  shows "ref_Remote ref s = k \<and> (\<exists>l a w. to_peer (W l) = j \<and> to_conn (W l) = ref
    \<and> from_conn (W l) = InConn a \<and> peers n (from_peer (W l)) = WorkerPeer w \<and> established (inb w a))"
proof -
  have ok: "net_ok E A W n" "net_told A W n" using net_reach [OF assms(1-3)] by blast+
  then have "scheduler_told A W n j s" using assms(4) by (metis net_told_def peer_told.simps(1))
  then obtain l h m where l: "to_peer (W l) = j" "to_conn (W l) = ref"
    and said: "Uri h = MetaEstablishAck" "greets_as_worker m"
      "peer_says A (peers n (from_peer (W l))) (from_conn (W l)) h m"
    using assms(5) unfolding scheduler_told_def told_def by blast
  then obtain w where w: "peers n (from_peer (W l)) = WorkerPeer w" "holds_open (from_conn (W l)) w"
    by (cases "peers n (from_peer (W l))")
      (auto simp: scheduler_says_def gcs_says_def worker_says_def dial_talk_def const_defs)
  then obtain a where "from_conn (W l) = InConn a" "established (inb w a)"
    by (cases "from_conn (W l)") auto
  moreover have "peer_ok A (peers n j)" using ok(1) by (simp add: net_ok_def)
  then have "scheduler_inv s" using assms(4) by (simp add: scheduler_ok_def)
  then have "ref_Remote ref s = k" using assms(5) by (simp add: scheduler_inv_def)
  ultimately show ?thesis using l w(1) by blast
qed

text \<open>
  C10. The packets that the network interleaves one by one are those of the code. Whenever a call of
  \<^verbatim>\<open>OnTraffic\<close> on the bytes that have arrived on a connection would leave a node in some state with
  some rest of the bytes, turns of the system lead to this state of the node and this rest: every
  whole call is among the executions about which the other theorems speak.
\<close>

theorem network_runs_OnTraffic:
  assumes "can_read W l n" and "from_peer (W l) \<noteq> to_peer (W l)"
    and "peer_OnTraffic E clock now (to_conn (W l)) (inbuf W l n) (peers n (to_peer (W l))) = Some (p, rest)"
  shows "\<exists>n'. (net_turn E clock A W)\<^sup>*\<^sup>* n n' \<and> peers n' = (peers n)(to_peer (W l) := p)
    \<and> consumed n' l = consumed n l + (length (inbuf W l n) - length rest)"
proof -
  have "peer_listens (to_conn (W l)) (peers n (to_peer (W l)))" using assms(1) by (simp add: can_read_def)
  then have "p = res_state (fst (run_bytes E (peer_hear E clock now (to_conn (W l))) (inbuf W l n) (peers n (to_peer (W l)))))"
    "rest = snd (run_bytes E (peer_hear E clock now (to_conn (W l))) (inbuf W l n) (peers n (to_peer (W l))))"
    using assms(3) by (simp_all add: peer_OnTraffic_run split_beta)
  then show ?thesis using run_bytes_steps [OF assms(1,2)] by simp
qed

text \<open>
  C3. Without arguments no event loop breaks. In a system to which no task with arguments is pushed, every
  step is the crash of a node, or takes no event loop down and stops none on a channel that does not
  exist: whatever is read, reported or resumed, in whatever order, no handler panics and none waits but
  for a place in the channel of announcements.
\<close>

theorem network_serves:
  assumes "faithful E" and "net_start n0" and "(net_step E clock A W)\<^sup>*\<^sup>* n0 n"
    and args: "\<And>t. A t \<Longrightarrow> Args t = []" and "net_step E clock A W n n'"
  shows "(\<exists>i. n' = n\<lparr>status := (status n)(i := Down)\<rparr>)
    \<or> (\<forall>i. status n' i \<in> {Stuck, Down} \<longrightarrow> status n i \<in> {Stuck, Down})"
  using assms(5)
proof cases
  case (net_read l now)
  have ok: "net_ok E A W n" using net_reach [OF assms(1-3)] by blast
  from assms(1) ok show ?thesis
  proof (cases rule: read_packet_cases [where clock = clock and now = now and l = l])
    case (packet h m k n1)
    have "peer_ok A (peers n1 (to_peer (W l)))" using packet(3) by (simp add: net_ok_def)
    note loop_status_returns [OF peer_hear_returns [OF peer_says_heard [OF packet(4)] this args]]
    then have "status n' i = status n i \<or> (\<exists>st. status n' i = Sending st)" for i
      using packet(2) unfolding net_read(1) packet(1) hand_over_def Let_def by simp
    then show ?thesis by (metis insertE singletonD status.distinct(7,9))
  qed (simp add: net_read(1))
next
  case (net_resume j w st)
  have "plain w"
    using net_reach [OF assms(1-3)] net_resume(2) unfolding net_ok_def
    by (metis peer_ok.simps(3) plain_good worker_ok_def)
  from finish_assign_returns [OF this net_resume(4)]
  obtain err t where "finish_assign E st w = Ok err t" unfolding returns_def by blast
  then show ?thesis unfolding net_resume(1) by (simp add: resume_def)
qed auto

text \<open>
  C5. Workers can join. From every reachable state in which a connection of a scheduler is about to
  dial over a fresh transport a worker that accepts it, and the runtime encodes the two packets, the
  turns of the nodes alone, without any fault, lead to a state in which the scheduler has registered the
  worker under the address it dialled, both ends hold the connection as established, and the worker has read all that was written
  to it. (The run of the proof is the dial and the reading of one packet on either side.)
\<close>

theorem network_joins:
  assumes "faithful E" and "writes_ok E" and "net_start n0" and "(net_step E clock A W)\<^sup>*\<^sup>* n0 n"
    and "peers n (from_peer (W l)) = SchedulerPeer s" and "status n (from_peer (W l)) \<noteq> Down"
    and "peers n (to_peer (W l)) = WorkerPeer w" and "to_conn (W l) = InConn a" and "gnetC (inb w a) = Some (handle (W r))"
    and "from_conn (W l) = OutConn c" and "can_read W l n" and "link_bytes W l n = []"
    and "from_peer (W r) = to_peer (W l)" and "from_conn (W r) = to_conn (W l)" and "to_peer (W r) = from_peer (W l)"
    and "to_conn (W r) = from_conn (W l)" and "\<not> shut n r" and "link_bytes W r n = []"
    and "dials c s" and "handlerMode (outb s c) = Some mode" and "pc (outb s c) = PcTop" and "cl_started (outb s c)"
    and "\<not> ctxDone (outb s c)"
    and "pb_Marshal E (greet_msg (outb s c) mode) = Inr b1" and "pb_Marshal E ack_msg = Inr b2"
  shows "\<exists>n' s' w'. (net_turn E clock A W)\<^sup>*\<^sup>* n n'
    \<and> peers n' (from_peer (W l)) = SchedulerPeer s' \<and> workerConns s' (cl_endpoint (outb s c)) = Some (OutConn c)
    \<and> cl_established (outb s' c) \<and> rawConn (outb s' c) = Some (handle (W l))
    \<and> peers n' (to_peer (W l)) = WorkerPeer w' \<and> established (inb w' a)
    \<and> can_read W l n' \<and> consumed n' l = length (link_bytes W l n')"
proof -
  have "net_ok E A W n" using net_reach [OF assms(1,3,4)] by blast
  from worker_joins [OF assms(1,2) this assms(5-25)] show ?thesis by blast
qed

text \<open>
  C6. What the first task of a test does. From every reachable state in which a scheduler with an empty
  queue, which has places, is about to dial over a fresh transport a worker that accepts it, and for
  every task with arguments that the runtime encodes, turns of the nodes alone, without any fault, lead
  to a state in which the scheduler has registered the worker and holds the task as pending, the worker
  holds the connection as established, and the next packet that it reads on it is the assignment of
  this task: its handler runs past the end of the types of the arguments, with the worker unchanged,
  and the worker goes down. (The run of the proof is the handshake, the push, a round of the
  scheduler's loop, and the arrival of the assignment.)
\<close>

theorem network_first_task:
  assumes "faithful E" and "writes_ok E" and "net_start n0" and "(net_step E clock A W)\<^sup>*\<^sup>* n0 n"
    and "peers n (from_peer (W l)) = SchedulerPeer s" and "status n (from_peer (W l)) \<noteq> Down"
    and "peers n (to_peer (W l)) = WorkerPeer w" and "to_conn (W l) = InConn a" and "gnetC (inb w a) = Some (handle (W r))"
    and "from_conn (W l) = OutConn c" and "can_read W l n" and "link_bytes W l n = []"
    and "from_peer (W r) = to_peer (W l)" and "from_conn (W r) = to_conn (W l)" and "to_peer (W r) = from_peer (W l)"
    and "to_conn (W r) = from_conn (W l)" and "\<not> shut n r" and "link_bytes W r n = []"
    and "dials c s" and "handlerMode (outb s c) = Some mode" and "pc (outb s c) = PcTop" and "cl_started (outb s c)"
    and "\<not> ctxDone (outb s c)"
    and "pb_Marshal E (greet_msg (outb s c) mode) = Inr b1" and "pb_Marshal E ack_msg = Inr b2"
    and queue: "buf (taskChan s) = []" "0 < chan_slots (taskChan s)" and task: "A task" "Args task \<noteq> []"
    and body: "pb_Marshal E (MAssignTaskRequest (assign_request task)) = Inr b3"
  shows "\<exists>n' s' w'. (net_turn E clock A W)\<^sup>*\<^sup>* n n'
    \<and> peers n' (from_peer (W l)) = SchedulerPeer s' \<and> workerConns s' (cl_endpoint (outb s c)) = Some (OutConn c)
    \<and> pendingTasks s' (ID task) = Some task
    \<and> peers n' (to_peer (W l)) = WorkerPeer w' \<and> established (inb w' a) \<and> breaks_on E clock W l task n'"
proof -
  have "net_ok E A W n" using net_reach [OF assms(1,3,4)] by blast
  from worker_joins [OF assms(1,2) this assms(5-25), of clock] obtain n1 s1 w1 where
    n1: "(net_turn E clock A W)\<^sup>*\<^sup>* n n1" and s1: "peers n1 (from_peer (W l)) = SchedulerPeer s1"
      "workerConns s1 (cl_endpoint (outb s c)) = Some (OutConn c)" "cl_established (outb s1 c)"
      "rawConn (outb s1 c) = Some (handle (W l))" "taskChan s1 = taskChan s"
    and w1: "peers n1 (to_peer (W l)) = WorkerPeer w1" "established (inb w1 a)" and l: "can_read W l n1" "consumed n1 l = length (link_bytes W l n1)"
    and up: "status n1 (from_peer (W l)) \<noteq> Down"
    using assms(6) by auto
  let ?s2 = "snd (PushTask task s1)" and ?j = "from_peer (W l)"
  let ?n2 = "n1\<lparr>peers := (peers n1)(?j := SchedulerPeer ?s2)\<rparr>"
  have pushed: "buf (taskChan ?s2) = [task]" "workerConns ?s2 = workerConns s1" "outb ?s2 = outb s1"
    using s1(5) queue by (simp_all add: PushTask_def try_send_def chan_slots_def)
  have apart: "?j \<noteq> to_peer (W l)" using s1(1) w1(1) by auto
  have two: "net_turn E clock A W n1 ?n2"
    by (rule turn_own [OF up]) (simp add: s1(1) own_scheduler own_sched_push [of A, OF task(1)])
  then have reach: "(net_turn E clock A W)\<^sup>*\<^sup>* n ?n2" using n1 by simp
  then have "(net_step E clock A W)\<^sup>*\<^sup>* n0 ?n2" using assms(4) net_by_turns rtranclp_trans by metis
  then have "net_ok E A W ?n2" using net_reach [OF assms(1,3)] by blast
  moreover have "link_bytes W l ?n2 = link_bytes W l n1" using assms(10) s1(1) pushed(3) by (simp add: link_bytes_def)
  moreover have "can_read W l ?n2" using l(1) apart by (simp add: can_read_def cong: conn_ref.case_cong)
  ultimately obtain n3 s3 where "(net_turn E clock A W)\<^sup>*\<^sup>* ?n2 n3" "peers n3 ?j = SchedulerPeer s3"
    "pendingTasks s3 (ID task) = Some task" "workerConns s3 = workerConns ?s2" "peers n3 (to_peer (W l)) = WorkerPeer w1"
    "breaks_on E clock W l task n3"
    using assigned_falls [OF assms(1,2), of A W ?n2 l ?s2 task "[]" b3 "cl_endpoint (outb s c)" c a w1 clock]
      up task(2) body pushed s1 w1(1) l(2) apart assms(8,10) by auto
  then show ?thesis using reach s1(2) w1(2) pushed(2) rtranclp_trans by metis
qed

text \<open>
  C4. With arguments something breaks. From every reachable state in which the oldest task of a
  scheduler has arguments, and a started worker has read everything that the scheduler has written to
  it on a connection on which it is registered, turns of the nodes alone, without any fault, lead to a
  state in which the scheduler holds the task as pending, the worker is still as it was, and the next
  packet that it reads is the assignment of this task: its handler runs past the end of the types of
  the arguments, with the worker unchanged, and the worker goes down. (The run of the proof is a round
  of the scheduler's loop and the arrival of one packet.)
\<close>

theorem network_falls:
  assumes "faithful E" and "writes_ok E" and "net_start n0" and "(net_step E clock A W)\<^sup>*\<^sup>* n0 n"
    and "peers n (from_peer (W l)) = SchedulerPeer s" and "status n (from_peer (W l)) \<noteq> Down"
    and "buf (taskChan s) = task # rest" and "Args task \<noteq> []"
    and "pb_Marshal E (MAssignTaskRequest (assign_request task)) = Inr body"
    and "workerConns s k = Some (OutConn c)" and "from_conn (W l) = OutConn c"
    and "rawConn (outb s c) = Some (handle (W l))" and "cl_established (outb s c)"
    and "to_conn (W l) = InConn a" and "peers n (to_peer (W l)) = WorkerPeer w"
    and "can_read W l n" and "consumed n l = length (link_bytes W l n)"
  shows "\<exists>n' s'. (net_turn E clock A W)\<^sup>*\<^sup>* n n'
    \<and> peers n' (from_peer (W l)) = SchedulerPeer s' \<and> pendingTasks s' (ID task) = Some task
    \<and> peers n' (to_peer (W l)) = WorkerPeer w \<and> breaks_on E clock W l task n'"
proof -
  have "net_ok E A W n" using net_reach [OF assms(1,3,4)] by blast
  then show ?thesis using assigned_falls [OF assms(1,2) _ assms(5-17)] by blast
qed

section \<open>The theorems on a run\<close>

lemma network_streams_witness:
  "\<exists>h m. fst (ZeroCopyDecode buf_ops demo_env (inbuf demo_links 1 idle_net)) = Inr (h, m)
    \<and> worker_says pushed idle_work (InConn 0) h m"
proof -
  have w: "peers idle_net 1 = WorkerPeer idle_work" by (simp add: idle_net_def demo_net_def)
  show ?thesis
    using network_streams [OF demo_faithful demo_start idle_reach, of 1] w idle_reply by (auto simp: demo_links_def)
qed

lemma network_serves_witness:
  "let n' = read_packet demo_env (\<lambda>_. 0) 0 demo_links 1 idle_net in
    consumed n' 1 = 30 \<and> (\<forall>i. status n' i \<notin> {Stuck, Down})"
proof -
  let ?n' = "read_packet demo_env (\<lambda>_. 0) 0 demo_links 1 idle_net"
  have z: "ZeroCopyDecode buf_ops demo_env (inbuf demo_links 1 idle_net) = (Inr answered_idle, [])"
    using idle_decode .
  have c: "consumed ?n' 1 = 30"
  proof -
    obtain h m where hm: "answered_idle = (h, m)" by (cases answered_idle)
    show ?thesis
      using z idle_bytes unfolding read_packet_def hm
      by (simp add: hand_over_def skip_bytes_def Let_def) (simp add: idle_net_def demo_net_def)
  qed
  have up: "status idle_net i = Serving" "consumed idle_net 1 = 15" for i
    by (simp_all add: idle_net_def demo_net_def)
  have args: "pushed t \<Longrightarrow> Args t = []" for t by (auto simp: demo_task_def idle_task_def)
  have "demo_step idle_net ?n'" by (rule net_read [OF idle_can_read])
  from network_serves [OF demo_faithful demo_start idle_reach args this]
  have "\<forall>i. status ?n' i \<notin> {Stuck, Down}"
  proof
    assume "\<exists>i. ?n' = idle_net\<lparr>status := (status idle_net)(i := Down)\<rparr>"
    then obtain i where "?n' = idle_net\<lparr>status := (status idle_net)(i := Down)\<rparr>" ..
    then have "consumed ?n' 1 = consumed idle_net 1" by (metis net.select_convs(5) net.surjective net.update_convs(2))
    then show ?thesis using c up by simp
  qed (auto simp: up)
  then show ?thesis using c by (simp add: Let_def)
qed

lemma heavy_fields: "Args heavy_task = [EncodeInt 1, EncodeInt 2]" "ID heavy_task = ''h''"
  by (simp_all add: heavy_task_def)

lemma network_falls_witness:
  "buf (taskChan heavy_sched) = [heavy_task]
    \<and> (\<exists>n'. (net_turn demo_env (\<lambda>_. 0) (\<lambda>_. True) demo_links)\<^sup>*\<^sup>* heavy_net n'
        \<and> peers n' 1 = WorkerPeer work4 \<and> breaks_on demo_env (\<lambda>_. 0) demo_links 0 heavy_task n')"
proof -
  have n: "peers heavy_net 0 = SchedulerPeer heavy_sched" "peers heavy_net 1 = WorkerPeer work4"
    "status heavy_net i = Serving" "consumed heavy_net 0 = 15" "shut heavy_net i = False" for i
    by (simp_all add: heavy_net_def demo_net_def)
  have "can_read demo_links 0 heavy_net" using n listening(7) by (simp add: can_read_def)
  moreover have "consumed heavy_net 0 = length (link_bytes demo_links 0 heavy_net)"
    using n heavy_queued(5) by (simp add: link_bytes_def)
  moreover have "writes_ok demo_env" by (simp add: writes_ok_def demo_env_def)
  moreover have "pb_Marshal demo_env (MAssignTaskRequest (assign_request heavy_task)) = Inr [9]" by code_simp
  ultimately show ?thesis
    using network_falls [OF demo_faithful _ demo_start heavy_reach, of 0 heavy_sched heavy_task "[]" "[9]" "''w''" 0 0 work4]
      n heavy_queued heavy_fields by auto
qed

lemma network_directory_witness:
  "objectLocationMap gcs3 demo_object = Some ''w''
    \<and> (\<exists>l w. to_peer (demo_links l) = 2 \<and> peers (demo_net sched4 work7 gcs3 (tally 30 15 15 30)) (from_peer (demo_links l)) = WorkerPeer w
        \<and> GetObject demo_object w = Some zero_object)"
proof -
  have g: "peers (demo_net sched4 work7 gcs3 (tally 30 15 15 30)) 2 = GcsPeer gcs3" by (simp add: demo_net_def)
  have o: "objectLocationMap gcs3 demo_object = Some ''w''" by code_simp
  from network_directory [OF demo_faithful demo_start met_whole [unfolded met_def] g o] o
  show ?thesis by blast
qed

lemma network_results_witness:
  "GetObject demo_object work7 = Some zero_object
    \<and> fst (ZeroCopyDecode buf_ops demo_env (inbuf demo_links 1 idle_net)) = Inr (fst answered_idle, MAssignTaskResponse idle_answer)
    \<and> (\<exists>t. pushed t \<and> ID t = ''i'' \<and> FuncName t \<noteq> TaskFuncAddTowInt)"
proof -
  obtain object where o: "GetObject demo_object work7 = Some object"
  proof -
    have "GetObject demo_object work7 \<noteq> None" by code_simp
    then show thesis using that by auto
  qed
  have w: "peers (demo_net sched4 work7 gcs3 (tally 30 15 15 30)) 1 = WorkerPeer work7" by (simp add: demo_net_def)
  have m: "snd answered_idle = MAssignTaskResponse idle_answer" by (simp add: answered_idle_def)
  have d: "fst (ZeroCopyDecode buf_ops demo_env (inbuf demo_links 1 idle_net)) = Inr (fst answered_idle, MAssignTaskResponse idle_answer)"
    by (metis idle_reply m prod.collapse)
  have "object = zero_object"
    using network_results [OF demo_faithful demo_start met_whole [unfolded met_def], of 1] w o by blast
  moreover have "\<exists>t. pushed t \<and> ID t = AssignTaskResponse_TaskId idle_answer \<and> FuncName t \<noteq> TaskFuncAddTowInt"
    using network_results [OF demo_faithful demo_start idle_reach, of 0 _ _ _ 1] d
    unfolding idle_answer_def by (metis AssignTaskResponse.select_convs(1))
  ultimately show ?thesis using o d by (simp add: idle_answer_def)
qed

lemma network_handshake_witness:
  "workerConns sched2 ''w'' = Some (OutConn 0) \<and> ref_Remote (OutConn 0) sched2 = ''w''"
proof -
  have s: "peers (demo_net sched2 work4 gcs1 (tally 15 15 0 0)) 0 = SchedulerPeer sched2" by (simp add: demo_net_def)
  have k: "workerConns sched2 ''w'' = Some (OutConn 0)" by code_simp
  from network_handshake [OF demo_faithful demo_start met_half [unfolded met_def] s k] k
  show ?thesis by blast
qed

lemma idle_run: "snd (run_bytes demo_env hear (wire_frame (fst answered_idle) [8]) s) = []"
  using run_bytes_packet [of demo_env "fst answered_idle" "snd answered_idle" "[8]" hear "[]" s] demo_bodies(7) demo_uris(6)
  by (auto simp: good_packet_def run_bytes_not_ready frame_ready_def split: res.splits)

lemma network_runs_OnTraffic_witness:
  "\<exists>n' p. (net_turn demo_env (\<lambda>_. 0) pushed demo_links)\<^sup>*\<^sup>* idle_net n' \<and> peers n' 0 = p \<and> consumed n' 1 = 30
    \<and> peer_OnTraffic demo_env (\<lambda>_. 0) 0 (OutConn 0) (wire_frame (fst answered_idle) [8]) (SchedulerPeer idle_sched) = Some (p, [])"
proof -
  let ?r = "peer_OnTraffic demo_env (\<lambda>_. 0) 0 (OutConn 0) (wire_frame (fst answered_idle) [8]) (SchedulerPeer idle_sched)"
  have listens: "node_listens (OutConn 0) idle_sched" by code_simp
  obtain p where p: "?r = Some (p, [])"
    using peer_OnTraffic_run [of "OutConn 0" "SchedulerPeer idle_sched" demo_env "\<lambda>_. 0" 0
        "wire_frame (fst answered_idle) [8]"] listens
    by (simp only: split_beta Let_def idle_run peer_listens.simps)
  have "can_read demo_links 1 idle_net" by (rule idle_can_read)
  moreover have "peers idle_net 0 = SchedulerPeer idle_sched" "consumed idle_net 1 = 15"
    by (simp_all add: idle_net_def demo_net_def)
  ultimately show ?thesis
    using network_runs_OnTraffic [of demo_links 1 idle_net demo_env "\<lambda>_. 0" 0 p "[]" pushed] p idle_bytes by auto
qed

definition met_dialler :: scheduler where
  "met_dialler = snd (cm_AddConnection scheduler_GetMode False ''w'' sched0)"

lemma met_unjoined: "met met_dialler work3 gcs0 0 0 0 0"
proof -
  have "met sched0 work3 gcs0 0 0 0 0" unfolding met_def by (rule demo_own_worker [OF demo_worker_up])
  then show ?thesis
    unfolding met_dialler_def by (rule met_own(1)) (intro own_sched_node own_connect)
qed

definition unjoined_net :: net where
  "unjoined_net = demo_net met_dialler work3 gcs0 (tally 0 0 0 0)"

lemma unjoined_dials: "dials 0 met_dialler" "handlerMode (outb met_dialler 0) = Some ModeScheduler"
  "pc (outb met_dialler 0) = PcTop" "cl_started (outb met_dialler 0)" "\<not> ctxDone (outb met_dialler 0)"
  "cl_endpoint (outb met_dialler 0) = ''w''" "cl_localAddr (outb met_dialler 0) = []" "cl_io (outb met_dialler 0) = []"
  "buf (taskChan met_dialler) = []" "0 < chan_slots (taskChan met_dialler)"
  by code_simp+

lemma unjoined_worker: "started work3" "0 < fresh work3" "gnetC (inb work3 0) = Some 0" "conn_io (inb work3 0) = []"
  by code_simp+

lemma unjoined_net:
  "peers unjoined_net 0 = SchedulerPeer met_dialler" "peers unjoined_net 1 = WorkerPeer work3" "status unjoined_net i = Serving"
  "shut unjoined_net i = False" "can_read demo_links 0 unjoined_net"
  "link_bytes demo_links 0 unjoined_net = []" "link_bytes demo_links 1 unjoined_net = []"
  using unjoined_dials(8) unjoined_worker by (simp_all add: unjoined_net_def demo_net_def can_read_def link_bytes_def)

lemma unjoined_bodies: "writes_ok demo_env" "pb_Marshal demo_env (greet_msg (outb met_dialler 0) ModeScheduler) = Inr [1]"
  "pb_Marshal demo_env ack_msg = Inr [3]"
  using unjoined_dials(7) by (simp_all add: writes_ok_def greet_msg_def ack_msg_def demo_env_def)

lemma network_joins_witness:
  "\<exists>n' s'. (net_turn demo_env (\<lambda>_. 0) pushed demo_links)\<^sup>*\<^sup>* unjoined_net n' \<and> peers n' 0 = SchedulerPeer s' \<and> workerConns s' ''w'' = Some (OutConn 0)"
  using network_joins [OF demo_faithful unjoined_bodies(1) demo_start met_unjoined [unfolded met_def, folded unjoined_net_def],
      of 0 met_dialler work3 0 1 0 ModeScheduler "[1]" "[3]"]
    unjoined_net unjoined_dials unjoined_worker unjoined_bodies by auto

lemma network_first_task_witness:
  "Args heavy_task = [EncodeInt 1, EncodeInt 2]
    \<and> (\<exists>n' s'. (net_turn demo_env (\<lambda>_. 0) (\<lambda>_. True) demo_links)\<^sup>*\<^sup>* unjoined_net n'
        \<and> peers n' 0 = SchedulerPeer s' \<and> workerConns s' ''w'' = Some (OutConn 0) \<and> pendingTasks s' ''h'' = Some heavy_task
        \<and> breaks_on demo_env (\<lambda>_. 0) demo_links 0 heavy_task n')"
proof -
  have "pb_Marshal demo_env (MAssignTaskRequest (assign_request heavy_task)) = Inr [9]" by code_simp
  then show ?thesis
    using network_first_task [OF demo_faithful unjoined_bodies(1) demo_start
        demo_any_task [OF met_unjoined [unfolded met_def, folded unjoined_net_def]],
        of 0 met_dialler work3 0 1 0 ModeScheduler "[1]" "[3]" heavy_task "[9]"]
      unjoined_net unjoined_dials unjoined_worker unjoined_bodies heavy_fields by auto
qed

end
