(* ===== verification/ReportLoop.thy ===== *)
theory ReportLoop
  imports Calm WorkerSpec Programs
begin

text \<open>
  The worker's program as its goroutines: the event loop, which runs one packet after the other, and
  the report loop, which the pool runs and whose panic the pool recovers. The two meet in the channel of
  announcements; what is shown is when the report loop is lost and what becomes of the event loop then.
\<close>

section \<open>Two goroutines\<close>

text \<open>
  The report loop takes its turns, waits in its \<^verbatim>\<open>select\<close> as a parked receiver, has returned, has
  panicked, or waits in a write. The event loop runs, waits in the send of an announcement, waits for
  ever on a channel that does not exist, or has panicked, and the process with it.
\<close>

datatype reporter = Turn | Waits | Over | Dead | Writes

datatype event_thread = Runs | InSend stall | Hung | Fell

record worker_sys =
  the_worker :: worker
  thread :: event_thread
  reporter :: reporter

definition launched :: "worker \<Rightarrow> worker_sys" where
  "launched w = \<lparr>the_worker = w, thread = Runs, reporter = Turn\<rparr>"

definition thread_after :: "(go_error option, worker) res \<Rightarrow> stall option \<Rightarrow> worker_sys \<Rightarrow> worker_sys" where
  "thread_after r st s =
    s\<lparr>the_worker := res_state r,
      thread := (case r of
          Ok err t \<Rightarrow> Runs
        | Panic p t \<Rightarrow> Fell
        | Block t \<Rightarrow> (case st of Some x \<Rightarrow> InSend x | None \<Rightarrow> Hung))\<rparr>"

definition hear_worker :: "env \<Rightarrow> (nat \<Rightarrow> int64) \<Rightarrow> nat \<Rightarrow> Header \<Rightarrow> pb_msg \<Rightarrow> worker_sys \<Rightarrow> worker_sys" where
  "hear_worker E clock a h m s =
    thread_after (worker_OnPacket E clock (InConn a) h m (the_worker s))
      (stalled_at clock (InConn a) h m (the_worker s)) s"

definition resume_worker :: "env \<Rightarrow> stall \<Rightarrow> worker_sys \<Rightarrow> worker_sys" where
  "resume_worker E st s = thread_after (finish_assign E st (the_worker s)) None s"

definition report_turn :: "env \<Rightarrow> bool \<Rightarrow> worker_sys \<Rightarrow> worker_sys" where
  "report_turn E pick s =
    (case worker_Loop_round E pick (the_worker s) of
       Ok on t \<Rightarrow> s\<lparr>the_worker := t, reporter := (if on then Turn else Over)\<rparr>
     | Panic p t \<Rightarrow> s\<lparr>the_worker := t, reporter := Dead\<rparr>
     | Block t \<Rightarrow>
         if buf (registerObjectChan (the_worker s)) = []
         then s\<lparr>the_worker := with_reports park (the_worker s), reporter := Waits\<rparr>
         else s\<lparr>the_worker := t, reporter := Writes\<rparr>)"

definition report_wake :: "env \<Rightarrow> worker_sys \<Rightarrow> worker_sys" where
  "report_wake E s = report_turn E True (s\<lparr>the_worker := with_reports unpark (the_worker s)\<rparr>)"

text \<open>What else moves a worker: no packet of an accepted connection and no turn of the report loop.\<close>

inductive side_step :: "env \<Rightarrow> worker \<Rightarrow> worker \<Rightarrow> bool" for E where
  side_node: "own_step E worker_GetMode s t \<Longrightarrow> side_step E s t"
| side_dialled: "dials a s \<Longrightarrow> side_step E s (res_state (client_OnPacket now worker_HandlePacket a h m s))"
| side_open: "side_step E s (snd (worker_OnOpen g remote s))"
| side_tick: "side_step E s (res_state (worker_Ontick E keys s))"
| side_establish: "a < fresh s \<Longrightarrow> side_step E s (res_state (worker_conn_Establish E a s))"
| side_conn_loop: "a < fresh s \<Longrightarrow> worker_conn_Loop timeout a s = Some (d, t) \<Longrightarrow> side_step E s t"
| side_ctx: "side_step E s (s\<lparr>worker_ctxDone := True\<rparr>)"

text \<open>
  A move is what the goroutines do by themselves; a step is a move, or the end of the process from
  outside.
\<close>

inductive sys_move :: "env \<Rightarrow> (nat \<Rightarrow> int64) \<Rightarrow> worker_sys \<Rightarrow> worker_sys \<Rightarrow> bool" for E clock where
  move_packet: "thread s = Runs \<Longrightarrow> a < fresh (the_worker s) \<Longrightarrow>
    sys_move E clock s (hear_worker E clock a h m s)"
| move_resume: "thread s = InSend st \<Longrightarrow>
    length (buf (registerObjectChan (the_worker s))) < chan_slots (registerObjectChan (the_worker s)) \<Longrightarrow>
    sys_move E clock s (resume_worker E st s)"
| move_turn: "thread s \<noteq> Fell \<Longrightarrow> reporter s = Turn \<Longrightarrow> sys_move E clock s (report_turn E pick s)"
| move_wake: "thread s \<noteq> Fell \<Longrightarrow> reporter s = Waits \<Longrightarrow> buf (registerObjectChan (the_worker s)) \<noteq> [] \<Longrightarrow>
    sys_move E clock s (report_wake E s)"
| move_leave: "thread s \<noteq> Fell \<Longrightarrow> reporter s = Waits \<Longrightarrow> buf (registerObjectChan (the_worker s)) = [] \<Longrightarrow>
    worker_ctxDone (the_worker s) \<Longrightarrow>
    sys_move E clock s (s\<lparr>the_worker := with_reports unpark (the_worker s), reporter := Over\<rparr>)"
| move_side: "thread s \<noteq> Fell \<Longrightarrow> side_step E (the_worker s) w \<Longrightarrow> sys_move E clock s (s\<lparr>the_worker := w\<rparr>)"

inductive sys_step :: "env \<Rightarrow> (nat \<Rightarrow> int64) \<Rightarrow> worker_sys \<Rightarrow> worker_sys \<Rightarrow> bool" for E clock where
  sys_by_move: "sys_move E clock s t \<Longrightarrow> sys_step E clock s t"
| sys_fall: "sys_step E clock s (s\<lparr>thread := Fell\<rparr>)"

lemma sys_by_moves: "(sys_move E clock)\<^sup>*\<^sup>* s t \<Longrightarrow> (sys_step E clock)\<^sup>*\<^sup>* s t"
  by (erule rtranclp_mono [THEN predicate2D, rotated]) (blast intro: sys_by_move)

lemma sys_step_cases [consumes 1, case_names sys_packet sys_resume sys_turn sys_wake sys_leave sys_side sys_fall,
    cases pred: sys_step]:
  assumes "sys_step E clock s t"
  obtains a h m where "t = hear_worker E clock a h m s" "thread s = Runs" "a < fresh (the_worker s)"
  | st where "t = resume_worker E st s" "thread s = InSend st"
      "length (buf (registerObjectChan (the_worker s))) < chan_slots (registerObjectChan (the_worker s))"
  | pick where "t = report_turn E pick s" "thread s \<noteq> Fell" "reporter s = Turn"
  | "t = report_wake E s" "thread s \<noteq> Fell" "reporter s = Waits" "buf (registerObjectChan (the_worker s)) \<noteq> []"
  | "t = s\<lparr>the_worker := with_reports unpark (the_worker s), reporter := Over\<rparr>" "thread s \<noteq> Fell" "reporter s = Waits"
      "buf (registerObjectChan (the_worker s)) = []" "worker_ctxDone (the_worker s)"
  | w where "t = s\<lparr>the_worker := w\<rparr>" "thread s \<noteq> Fell" "side_step E (the_worker s) w"
  | "t = s\<lparr>thread := Fell\<rparr>"
  using assms by (elim sys_step.cases sys_move.cases) blast+

section \<open>What the steps do to the channel\<close>

lemma side_worker_step: "side_step E s t \<Longrightarrow> worker_step ops E clock s t"
  by (induction rule: side_step.induct)
    (auto intro: worker_step.intros own_node_step node_step.intros)

text \<open>\<open>announce_part s\<close>: the part of a worker that the channel and the loop at its end depend on.\<close>

definition announce_part :: "worker \<Rightarrow> conn_ref option \<times> string chan \<times> nat \<times> (string \<Rightarrow> Object option)" where
  "announce_part s = (gcsConn s, registerObjectChan s, time_calls s, objectStorage s)"

lemma reports_data: "worker_data t = worker_data s \<Longrightarrow> announce_part t = announce_part s"
  using worker_dataD [of t s] by (simp add: announce_part_def)

lemma side_reports: "side_step E s t \<Longrightarrow> announce_part t = announce_part s"
proof (induction rule: side_step.induct)
  case (side_node s t)
  then have "node.more t = node.more s" by (induction rule: own_step.induct) simp_all
  then show ?case by (intro reports_data worker_more)
next
  case (side_dialled a s now h m)
  have "node.more (res_state (client_OnPacket now worker_HandlePacket a h m s)) = node.more s"
    by (simp add: client_OnPacket_def worker_HandlePacket_def Let_def split: prod.split verdict.split)
  then show ?case by (intro reports_data worker_more)
next
  case (side_open s g remote)
  have "announce_part (snd (cm_OnOpen g remote s)) = announce_part s" by (intro reports_data worker_more) simp
  then show ?case by (simp add: worker_OnOpen_def announce_part_def split_beta Let_def)
next
  case (side_tick s keys)
  then show ?case by (intro reports_data worker_more) (simp add: worker_Ontick_def node_Ontick_more)
next
  case (side_establish a s)
  then show ?case using worker_conn_Establish_quiet by (intro reports_data worker_more) blast
next
  case (side_conn_loop a s timeout d t)
  then show ?case
    by (auto simp: worker_conn_Loop_def Let_def set_inb_def announce_part_def split: if_splits option.splits)
qed (simp add: announce_part_def)

text \<open>
  A packet either leaves the channel alone, or it is an addition: its announcement enters the channel and
  the packet is done, or the channel is full and the event loop waits.
\<close>

definition announcing :: "string \<Rightarrow> worker \<Rightarrow> (go_error option, worker) res \<Rightarrow> stall option \<Rightarrow> bool" where
  "announcing k s r st \<longleftrightarrow> time_calls (res_state r) = Suc (time_calls s) \<and> gcsConn (res_state r) = gcsConn s \<and>
     (if length (buf (registerObjectChan s)) < chan_slots (registerObjectChan s)
      then try_send k (registerObjectChan s) = Some (registerObjectChan (res_state r)) \<and> returns r
      else registerObjectChan (res_state r) = registerObjectChan s \<and> (\<exists>t x. r = Block t \<and> st = Some x))"

definition announces :: "worker \<Rightarrow> (go_error option, worker) res \<Rightarrow> stall option \<Rightarrow> bool" where
  "announces s r st \<longleftrightarrow> (\<exists>k. announcing k s r st)"

definition ignores :: "worker \<Rightarrow> (go_error option, worker) res \<Rightarrow> stall option \<Rightarrow> bool" where
  "ignores s r st \<longleftrightarrow> registerObjectChan (res_state r) = registerObjectChan s
     \<and> time_calls (res_state r) = time_calls s \<and> (gcsConn s \<noteq> None \<longrightarrow> gcsConn (res_state r) \<noteq> None)
     \<and> (returns r \<or> (\<exists>p t. r = Panic p t) \<or> st = None)"

lemma ignores_quiet:
  "announce_part (res_state r) = announce_part s \<Longrightarrow> returns r \<or> (\<exists>p t. r = Panic p t) \<or> st = None \<Longrightarrow> ignores s r st"
  by (simp add: ignores_def announce_part_def)

lemma answer_assign_reports [simp]: "announce_part (res_state (answer_assign E ref seq k err s)) = announce_part s"
  by (rule reports_data) simp

lemma reports_Send_then:
  "announce_part (res_state (bind_res (ref_Send E ref p s) (\<lambda>_ s1. Ok x s1))) = announce_part s"
  using reports_data [OF worker_data_ops(1) [of E ref p s]] by (cases "ref_Send E ref p s") simp_all

lemma addition_announces:
  assumes "plain s" and "st \<noteq> None" and "FuncName task = TaskFuncAddTowInt"
  shows "announcing (object_name clock task s) s (bind_res (dispatch_task clock task s) (\<lambda>err s2. answer_assign E ref seq k err s2)) st"
proof -
  let ?obj = "object_name clock task s"
  obtain v err where add: "AddTowIntFunc task = (v, err)" by (cases "AddTowIntFunc task")
  define w where "w = SetObject ?obj \<lparr>ObjType = ObjectTypeInt, ObjData = EncodeInt v\<rparr>
    (s\<lparr>time_calls := Suc (time_calls s)\<rparr>)"
  have w: "registerObjectChan w = registerObjectChan s" "gcsConn w = gcsConn s" "time_calls w = Suc (time_calls s)"
    by (simp_all add: w_def SetObject_def)
  have run: "dispatch_task clock task s = (case try_send ?obj (registerObjectChan s) of
      None \<Rightarrow> Block w | Some ch \<Rightarrow> Ok err (w\<lparr>registerObjectChan := ch\<rparr>))"
    using assms(3) add
    by (simp add: dispatch_task_def onAddTowInt_def w_def SetObject_def Let_def split: option.split)
  show ?thesis
  proof (cases "try_send ?obj (registerObjectChan s)")
    case None
    then have "announcing ?obj s (Block w) st"
      using assms(2) w by (simp add: announcing_def try_send_def chan_slots_def split: if_splits)
    then show ?thesis using None by (simp add: run)
  next
    case (Some ch)
    let ?w = "w\<lparr>registerObjectChan := ch\<rparr>"
    have room: "length (buf (registerObjectChan s)) < chan_slots (registerObjectChan s)"
      using Some by (simp add: try_send_def chan_slots_def split: if_splits)
    have "plain ?w" using assms(1) by (simp add: plain_def w_def SetObject_def)
    from answer_assign_returns [OF this] have ret: "returns (answer_assign E ref seq k err ?w)" .
    have same: "announce_part (res_state (answer_assign E ref seq k err ?w)) = (gcsConn s, ch, Suc (time_calls s), objectStorage w)"
      using w answer_assign_reports [of E ref seq k err ?w] by (simp add: announce_part_def)
    have "announcing ?obj s (answer_assign E ref seq k err ?w) st"
      using ret same room Some unfolding announcing_def announce_part_def by auto
    then show ?thesis using Some by (simp add: run)
  qed
qed

lemma run_task_announces:
  assumes "plain s" and "st \<noteq> None \<or> FuncName task \<noteq> TaskFuncAddTowInt"
  shows "announces s (bind_res (dispatch_task clock task s) (\<lambda>err s2. answer_assign E ref seq k err s2)) st
    \<or> ignores s (bind_res (dispatch_task clock task s) (\<lambda>err s2. answer_assign E ref seq k err s2)) st"
proof (cases "FuncName task = TaskFuncAddTowInt")
  case True
  then show ?thesis using addition_announces [OF assms(1)] assms(2) unfolding announces_def by blast
next
  case False
  then show ?thesis
    using answer_assign_returns [OF assms(1)] by (auto simp: dispatch_task_def intro!: ignores_quiet)
qed

lemma onAssignTask_announces:
  assumes "plain s" and "as_AssignTaskRequest m = Some req" and "Uri h = RayAssignTask"
  shows "announces s (onAssignTask E clock ref h req s) (stalled_at clock ref h m s)
    \<or> ignores s (onAssignTask E clock ref h req s) (stalled_at clock ref h m s)"
proof (cases "resolve_args (AssignTaskRequest_ArgsType req) 0 (AssignTaskRequest_Args req) s")
  case (Ok args s1)
  then have s1: "s1 = s" by (rule resolve_args_OkD)
  show ?thesis
    using run_task_announces [OF assms(1)] Ok assms(2,3) unfolding s1
    by (simp add: onAssignTask_def stalled_at_def Let_def)
next
  case (Panic p s1)
  then show ?thesis
    using resolve_args_state [of "AssignTaskRequest_ArgsType req" 0 "AssignTaskRequest_Args req" s]
    by (auto simp: onAssignTask_def intro!: ignores_quiet)
qed (simp add: resolve_args_not_Block)

lemma worker_OnPacket_announces:
  assumes plain: "plain s"
  shows "announces s (worker_OnPacket E clock ref h m s) (stalled_at clock ref h m s)
    \<or> ignores s (worker_OnPacket E clock ref h m s) (stalled_at clock ref h m s)"
proof (cases "Uri h = RayAssignTask")
  case True
  show ?thesis
  proof (cases "as_AssignTaskRequest m")
    case None
    then show ?thesis using True by (auto simp: worker_OnPacket_def const_defs intro!: ignores_quiet)
  next
    case (Some req)
    then show ?thesis
      using onAssignTask_announces [OF plain Some True] True by (simp add: worker_OnPacket_def const_defs)
  qed
next
  case False
  then have none: "stalled_at clock ref h m s = None" by (simp add: stalled_at_def split: option.split)
  let ?keeps = "\<lambda>t :: worker. registerObjectChan t = registerObjectChan s \<and> time_calls t = time_calls s
    \<and> (gcsConn s \<noteq> None \<longrightarrow> gcsConn t \<noteq> None)"
  have same: "?keeps t" if "announce_part t = announce_part s" for t using that by (simp add: announce_part_def)
  have reply: "?keeps (res_state (reply E ref h' m' u))" if "?keeps u" for h' m' and u :: worker
    using that worker_dataD [OF worker_data_reply [of E ref h' m' u]] by simp
  have marked: "?keeps (ref_SetEstablished ref s)" "?keeps ((ref_SetEstablished ref s)\<lparr>gcsConn := Some ref\<rparr>)"
    using worker_dataD [OF worker_data_ops(2) [of ref s]] by simp_all
  have "?keeps (res_state (worker_onEstablish E ref h req s))" for req
    unfolding worker_onEstablish_def Let_def by (intro reply) (use marked in \<open>simp split: if_split\<close>)
  moreover have "announce_part (res_state (reply_dropping E ref h' m' u)) = announce_part u" for h' m' u
    by (simp add: reply_dropping_def reports_Send_then split: sum.split)
  then have "?keeps (res_state (onGetObjectData E ref req s))" for req
    by (intro same) (simp add: onGetObjectData_def announce_part_def Let_def split: option.split)
  moreover have "?keeps (ref_NotifyEstablish ref s)" by (intro same reports_data) simp
  moreover have "?keeps (res_state (onGetObjectLocationResp resp s))"
    "?keeps (res_state (onGetObjectDataResp resp' s))" for resp resp'
    by (simp_all add: onGetObjectLocationResp_def onGetObjectDataResp_def Let_def split: option.split)
  ultimately have "?keeps (res_state (worker_OnPacket E clock ref h m s))"
    using False by (simp add: worker_OnPacket_def worker_onEstablishAck_def split: option.split)
  then show ?thesis by (simp add: ignores_def none)
qed

lemma stalled_at_stores:
  assumes "stalled_at clock ref h m s = Some st"
  shows "st_object st \<in> dom (objectStorage (res_state (worker_OnPacket E clock ref h m s)))"
proof -
  obtain req where req: "as_AssignTaskRequest m = Some req" "Uri h = RayAssignTask"
      "AssignTaskRequest_FuncName req = TaskFuncAddTowInt"
    using assms by (auto simp: stalled_at_def split: option.splits if_splits)
  obtain args s1 where "resolve_args (AssignTaskRequest_ArgsType req) 0 (AssignTaskRequest_Args req) s = Ok args s1"
    using assms req by (auto simp: stalled_at_def split: res.splits)
  then have args: "resolve_args (AssignTaskRequest_ArgsType req) 0 (AssignTaskRequest_Args req) s = Ok args s"
    using resolve_args_OkD by blast
  define task where "task = \<lparr>ID = AssignTaskRequest_TaskId req, FuncName = AssignTaskRequest_FuncName req,
    Args = args, ArgsType = AssignTaskRequest_ArgsType req, Dependencies = AssignTaskRequest_Dependencies req\<rparr>"
  have obj: "st_object st = object_name clock task s"
    using assms req args by (auto simp: stalled_at_def task_def Let_def)
  have run: "worker_OnPacket E clock ref h m s = bind_res (onAddTowInt clock task s)
      (\<lambda>err s2. answer_assign E ref (SeqId h) (ID task) err s2)"
    using req args by (simp add: worker_OnPacket_def onAssignTask_def dispatch_task_def task_def Let_def const_defs)
  have stored: "st_object st \<in> dom (objectStorage (res_state (onAddTowInt clock task s)))"
    by (simp add: obj onAddTowInt_def SetObject_def Let_def split: prod.split option.split)
  show ?thesis
  proof (cases "onAddTowInt clock task s")
    case (Ok err s2)
    have "objectStorage (res_state (answer_assign E ref (SeqId h) (ID task) err s2)) = objectStorage s2"
      using worker_dataD(6) [OF answer_assign_data] by blast
    then show ?thesis using stored Ok by (simp add: run)
  qed (use stored in \<open>simp_all add: run\<close>)
qed

text \<open>
  A turn of the report loop takes at most one announcement and touches neither the store nor the event
  loop. It goes to wait only on an empty channel, and it dies only while there is no store to tell.
\<close>

lemma report_turn_thread [simp]: "thread (report_turn E pick s) = thread s"
  by (simp add: report_turn_def Let_def split: res.split)

lemma worker_Loop_round_fate:
  assumes "plain w"
  shows "returns (worker_Loop_round E pick w) \<or> (\<exists>p t. gcsConn w = None \<and> worker_Loop_round E pick w = Panic p t)
    \<or> (buf (registerObjectChan w) = [] \<and> worker_Loop_round E pick w = Block w)"
proof -
  have "returns (ref_Send E ref p w1)" if "w1 = w\<lparr>registerObjectChan := ch, nextID := i\<rparr>" for ref p ch i w1
    using assms unfolding that by (intro ref_Send_returns) (simp add: plain_def)
  then have "returns (bind_res (ref_Send E ref p (w\<lparr>registerObjectChan := ch, nextID := i\<rparr>)) (\<lambda>_ s2. Ok True s2))"
    for ref p ch i by (intro returns_bind) simp_all
  then show ?thesis
    by (auto simp: worker_Loop_round_def Let_def try_recv_def split: list.splits option.splits sum.splits)
qed

lemma report_turn_effect:
  assumes plain: "plain (the_worker s)" and u: "u = report_turn E pick s"
  shows "gcsConn (the_worker u) = gcsConn (the_worker s) \<and> time_calls (the_worker u) = time_calls (the_worker s)
    \<and> objectStorage (the_worker u) = objectStorage (the_worker s)
    \<and> (gcsConn (the_worker s) \<noteq> None \<longrightarrow> reporter u \<noteq> Dead)
    \<and> (if reporter u = Waits then buf (registerObjectChan (the_worker s)) = []
         \<and> worker_Loop_round E pick (the_worker s) = Block (the_worker s)
         \<and> the_worker u = with_reports park (the_worker s)
       else the_worker u = res_state (worker_Loop_round E pick (the_worker s))
         \<and> (registerObjectChan (the_worker u) = registerObjectChan (the_worker s)
           \<or> (\<exists>k. try_recv (registerObjectChan (the_worker s)) = Some (k, registerObjectChan (the_worker u)))))"
proof -
  let ?w = "the_worker s"
  obtain q where q: "worker_data (res_state (worker_Loop_round E pick ?w)) = worker_data (?w\<lparr>registerObjectChan := q\<rparr>)"
    "q = registerObjectChan ?w \<or> (\<exists>k. try_recv (registerObjectChan ?w) = Some (k, q))"
    by (rule worker_Loop_round_quiet [of E ?w pick]) (use that in blast)
  note same = worker_dataD [OF q(1)]
  from worker_Loop_round_fate [OF plain, of E pick] consider
    (ret) on t where "worker_Loop_round E pick ?w = Ok on t"
    | (pan) p t where "gcsConn ?w = None" "worker_Loop_round E pick ?w = Panic p t"
    | (wait) "buf (registerObjectChan ?w) = []" "worker_Loop_round E pick ?w = Block ?w"
    by (auto simp: returns_def)
  then show ?thesis
  proof cases
    case ret
    then show ?thesis using same q(2) by (simp add: u report_turn_def)
  next
    case pan
    then show ?thesis using same q(2) by (simp add: u report_turn_def)
  next
    case wait
    then show ?thesis by (simp add: u report_turn_def with_reports_def)
  qed
qed

section \<open>The invariant\<close>

text \<open>
  The worker is well-formed, a stalled announcement is about a stored object, and one receiver waits at
  the channel exactly while the report loop does.
\<close>

definition sys_inv :: "worker_sys \<Rightarrow> bool" where
  "sys_inv s \<longleftrightarrow> node_good (the_worker s) \<and> worker_inv (the_worker s) \<and> worker_links (the_worker s)
     \<and> (\<forall>st. thread s = InSend st \<longrightarrow> st_object st \<in> dom (objectStorage (the_worker s)))
     \<and> parked (registerObjectChan (the_worker s)) = (if reporter s = Waits then 1 else 0)"

lemma sys_inv_plain: "sys_inv s \<Longrightarrow> plain (the_worker s)"
  by (simp add: sys_inv_def plain_good)

lemma parked_simps [simp]:
  "parked (park ch) = Suc (parked ch)" "parked (unpark ch) = parked ch - 1"
  "buf (park ch) = buf ch" "buf (unpark ch) = buf ch" "cap (park ch) = cap ch" "cap (unpark ch) = cap ch"
  by (simp_all add: park_def unpark_def)

lemma try_parked:
  "try_send k ch = Some ch' \<Longrightarrow> parked ch' = parked ch" "try_recv ch = Some (k, ch') \<Longrightarrow> parked ch' = parked ch"
  by (auto simp: try_send_def try_recv_def split: if_splits list.splits)

lemma sys_inv_keeps:
  assumes inv: "sys_inv s" and "worker_step ops E clock (the_worker s) (the_worker u)"
    and "thread u = thread s" and "objectStorage (the_worker u) = objectStorage (the_worker s)"
    and "parked (registerObjectChan (the_worker u)) = (if reporter u = Waits then 1 else 0)"
  shows "sys_inv u"
  using worker_step_keeps [OF assms(2)] assms by (simp add: sys_inv_def)

lemma plain_with_reports [simp]: "plain (with_reports f w) = plain w"
  by (simp add: plain_def with_reports_def)

lemma with_reports_simps [simp]:
  "registerObjectChan (with_reports f w) = f (registerObjectChan w)" "gcsConn (with_reports f w) = gcsConn w"
  "time_calls (with_reports f w) = time_calls w" "objectStorage (with_reports f w) = objectStorage w"
  "fresh (with_reports f w) = fresh w" "worker_ctxDone (with_reports f w) = worker_ctxDone w"
  by (simp_all add: with_reports_def)

lemma sys_inv_turn:
  assumes inv: "sys_inv s" and turn: "reporter s = Turn" and u: "u = report_turn E pick s"
  shows "sys_inv u"
proof -
  note eff = report_turn_effect [OF sys_inv_plain [OF inv] u]
  have step: "worker_step buf_ops E (\<lambda>_. 0) (the_worker s) (the_worker u)"
    using eff work_wait [of E pick "the_worker s"] work_report [of _ E _ "the_worker s" pick] by (simp split: if_splits)
  have "parked (registerObjectChan (the_worker u)) = (if reporter u = Waits then 1 else 0)"
    using eff inv turn by (auto simp: sys_inv_def dest!: try_parked(2) split: if_splits)
  then show ?thesis using sys_inv_keeps [OF inv step] eff by (simp add: u)
qed

lemma sys_inv_wake:
  assumes inv: "sys_inv s" and waits: "reporter s = Waits" and some: "buf (registerObjectChan (the_worker s)) \<noteq> []"
    and u: "u = report_wake E s"
  shows "sys_inv u" and "reporter u \<noteq> Waits"
proof -
  let ?s = "s\<lparr>the_worker := with_reports unpark (the_worker s)\<rparr>"
  have "plain (the_worker ?s)" using sys_inv_plain [OF inv] by simp
  note eff = report_turn_effect [OF this u [unfolded report_wake_def]]
  show away: "reporter u \<noteq> Waits" using eff some by (auto split: if_splits)
  have one: "parked (registerObjectChan (the_worker s)) = 1" using inv waits by (simp add: sys_inv_def)
  then have step: "worker_step buf_ops E (\<lambda>_. 0) (the_worker s) (the_worker u)"
    using eff away work_wake [OF some] by simp
  have "parked (registerObjectChan (the_worker u)) = (if reporter u = Waits then 1 else 0)"
    using eff away one by (auto dest!: try_parked(2))
  moreover have "thread u = thread s" by (simp add: u report_wake_def)
  ultimately show "sys_inv u" using sys_inv_keeps [OF inv step] eff by simp
qed

lemma announces_parked:
  assumes "announces s r st \<or> ignores s r st"
  shows "parked (registerObjectChan (res_state r)) = parked (registerObjectChan s)"
  using assms by (auto simp: announces_def announcing_def ignores_def dest!: try_parked(1) split: if_splits)

lemma sys_inv_packet:
  assumes inv: "sys_inv s" and a: "a < fresh (the_worker s)" and u: "u = hear_worker E clock a h m s"
  shows "sys_inv u"
proof -
  let ?w = "the_worker s"
  let ?r = "worker_OnPacket E clock (InConn a) h m ?w"
  have good: "node_good ?w" and w: "worker_inv ?w" "worker_links ?w" using inv by (simp_all add: sys_inv_def)
  have "node_good (res_state ?r)" using node_inv_next [OF worker_OnPacket_heap good] by blast
  moreover have "worker_inv (res_state ?r)" by (rule worker_OnPacket_inv [OF w(1)])
  moreover have "worker_links (res_state ?r)" by (rule worker_OnPacket_links [OF w]) (simp add: a)
  moreover have "parked (registerObjectChan (res_state ?r)) = parked (registerObjectChan ?w)"
    by (rule announces_parked [OF worker_OnPacket_announces [OF sys_inv_plain [OF inv]]])
  ultimately show ?thesis
    using inv stalled_at_stores [of clock "InConn a" h m ?w _ E]
    by (auto simp: u hear_worker_def thread_after_def sys_inv_def split: res.splits option.splits)
qed

lemma sys_inv_resume:
  assumes inv: "sys_inv s" and st: "thread s = InSend st" and u: "u = resume_worker E st s"
  shows "sys_inv u"
proof -
  let ?t = "res_state (finish_assign E st (the_worker s))"
  have "st_object st \<in> dom (objectStorage (the_worker s))" using inv st by (simp add: sys_inv_def)
  from finish_assign_inv [OF _ _ this refl, of E] have "node_good ?t \<and> worker_inv ?t \<and> worker_links ?t"
    using inv by (simp add: sys_inv_def)
  moreover have "parked (registerObjectChan ?t) = parked (registerObjectChan (the_worker s))"
    by (auto simp: finish_assign_def worker_dataD(3) [OF answer_assign_data] dest!: try_parked(1)
        split: option.split)
  ultimately show ?thesis
    using inv by (auto simp: u resume_worker_def thread_after_def sys_inv_def split: res.splits)
qed

lemma sys_step_inv:
  assumes "sys_step E clock s t" and inv: "sys_inv s"
  shows "sys_inv t"
  using assms(1)
proof cases
  case (sys_packet a h m)
  then show ?thesis using sys_inv_packet [OF inv] by blast
next
  case (sys_resume st)
  then show ?thesis using sys_inv_resume [OF inv] by blast
next
  case (sys_turn pick)
  then show ?thesis using sys_inv_turn [OF inv] by blast
next
  case sys_wake
  then show ?thesis using sys_inv_wake(1) [OF inv] by blast
next
  case sys_leave
  have "parked (registerObjectChan (the_worker s)) = 1" using inv sys_leave by (simp add: sys_inv_def)
  then show ?thesis
    using sys_inv_keeps [OF inv, of buf_ops E "\<lambda>_. 0" t] work_leave [OF sys_leave(4,5), of buf_ops E "\<lambda>_. 0"]
      sys_leave(1) by simp
next
  case (sys_side w)
  have "announce_part w = announce_part (the_worker s)" by (rule side_reports [OF sys_side(3)])
  then show ?thesis
    using sys_inv_keeps [OF inv, of buf_ops E clock t] side_worker_step [OF sys_side(3), of buf_ops clock] inv sys_side(1)
    by (simp add: announce_part_def sys_inv_def)
next
  case sys_fall
  then show ?thesis using inv by (simp add: sys_inv_def)
qed

interpretation worker_goroutines: step_invariant "sys_step E clock" sys_inv for E clock
  by unfold_locales (rule sys_step_inv)

lemmas sys_move_inv = sys_step_inv [OF sys_by_move]
lemmas sys_moves_inv = worker_goroutines.reach_inv [OF sys_by_moves]

section \<open>The fate of the loop\<close>

definition places :: "worker \<Rightarrow> nat" where
  "places w = chan_slots (registerObjectChan w) - length (buf (registerObjectChan w))"

definition gone :: "worker_sys \<Rightarrow> bool" where
  "gone s \<longleftrightarrow> reporter s = Dead \<or> reporter s = Over"

lemma try_send_places:
  "try_send k ch = Some ch' \<Longrightarrow> Suc (chan_slots ch' - length (buf ch')) = chan_slots ch - length (buf ch)"
  by (auto simp: try_send_def chan_slots_def split: if_splits)

lemma places_reports: "announce_part w = announce_part v \<Longrightarrow> places w = places v \<and> time_calls w = time_calls v"
  by (simp add: announce_part_def places_def)

lemma hear_worker_simps [simp]:
  "the_worker (hear_worker E clock a h m s) = res_state (worker_OnPacket E clock (InConn a) h m (the_worker s))"
  "reporter (hear_worker E clock a h m s) = reporter s"
  "the_worker (resume_worker E st s) = res_state (finish_assign E st (the_worker s))"
  "reporter (resume_worker E st s) = reporter s"
  by (simp_all add: hear_worker_def resume_worker_def thread_after_def)

lemma finish_assign_reports:
  assumes "length (buf (registerObjectChan w)) < chan_slots (registerObjectChan w)"
  shows "gcsConn (res_state (finish_assign E st w)) = gcsConn w
    \<and> time_calls (res_state (finish_assign E st w)) = time_calls w
    \<and> Suc (places (res_state (finish_assign E st w))) = places w"
proof -
  obtain ch where ch: "try_send (st_object st) (registerObjectChan w) = Some ch"
    using assms by (simp add: try_send_def chan_slots_def)
  then show ?thesis
    using worker_dataD [OF answer_assign_data, of E "st_conn st" "st_seq st" "st_task st" "st_err st"
        "w\<lparr>registerObjectChan := ch\<rparr>"]
    by (simp add: finish_assign_def places_def try_send_places [OF ch])
qed

lemma packet_places:
  assumes "announces s r st \<or> ignores s r st"
  shows "time_calls (res_state r) = time_calls s \<and> places (res_state r) = places s
    \<or> time_calls (res_state r) = Suc (time_calls s) \<and> Suc (places (res_state r)) = places s
    \<or> time_calls (res_state r) = Suc (time_calls s) \<and> places (res_state r) = 0 \<and> places s = 0
        \<and> (\<exists>t x. r = Block t \<and> st = Some x)"
  using assms
proof
  assume ann: "announces s r st"
  show ?thesis
  proof (cases "length (buf (registerObjectChan s)) < chan_slots (registerObjectChan s)")
    case True
    then obtain k where k: "try_send k (registerObjectChan s) = Some (registerObjectChan (res_state r))"
      "time_calls (res_state r) = Suc (time_calls s)" using ann by (auto simp: announces_def announcing_def)
    show ?thesis using k(2) try_send_places [OF k(1)] by (simp add: places_def)
  next
    case False
    then show ?thesis using ann by (simp add: announces_def announcing_def places_def)
  qed
next
  assume "ignores s r st"
  then show ?thesis by (simp add: ignores_def places_def)
qed

text \<open>A report loop that has gone does not come back.\<close>

lemma gone_stays:
  assumes "sys_step E clock s t" and "gone s"
  shows "reporter t = reporter s"
  using assms by cases (auto simp: gone_def)

text \<open>A report loop that has a store to tell is never lost.\<close>

lemma told_survives:
  assumes "sys_step E clock s t" and inv: "sys_inv s"
    and told: "gcsConn (the_worker s) \<noteq> None \<and> reporter s \<noteq> Dead"
  shows "gcsConn (the_worker t) \<noteq> None \<and> reporter t \<noteq> Dead"
  using assms(1)
proof cases
  case (sys_packet a h m)
  then show ?thesis
    using told worker_OnPacket_announces [OF sys_inv_plain [OF inv], of E clock "InConn a" h m]
    by (auto simp: announces_def announcing_def ignores_def)
next
  case (sys_resume st)
  then show ?thesis using told finish_assign_reports [of "the_worker s" E st] by simp
next
  case (sys_turn pick)
  then show ?thesis using told report_turn_effect [OF sys_inv_plain [OF inv] sys_turn(1)] by simp
next
  case sys_wake
  have "plain (the_worker (s\<lparr>the_worker := with_reports unpark (the_worker s)\<rparr>))"
    using sys_inv_plain [OF inv] by simp
  from report_turn_effect [OF this sys_wake(1) [unfolded report_wake_def]] show ?thesis using told by simp
next
  case (sys_side w)
  then show ?thesis using told side_reports [OF sys_side(3)] by (simp add: announce_part_def)
qed (use told in simp_all)

text \<open>
  Without the loop every announcement takes a place of the channel for good: with \<open>K\<close> the additions
  done and the places left, one more addition can begin than there are places, and it ends in the send.
\<close>

definition spent :: "nat \<Rightarrow> worker_sys \<Rightarrow> bool" where
  "spent K s \<longleftrightarrow> gone s \<and>
     (time_calls (the_worker s) + places (the_worker s) \<le> K
      \<or> thread s \<noteq> Runs \<and> places (the_worker s) = 0 \<and> time_calls (the_worker s) \<le> Suc K)"

lemma spent_step:
  assumes "sys_step E clock s t" and inv: "sys_inv s" and spent: "spent K s"
  shows "spent K t"
proof -
  have gone: "gone t" using gone_stays [OF assms(1)] spent by (simp add: spent_def gone_def)
  from assms(1) show ?thesis
  proof cases
    case (sys_packet a h m)
    have "time_calls (the_worker s) + places (the_worker s) \<le> K" using spent sys_packet(2) by (simp add: spent_def)
    then show ?thesis
      using packet_places [OF worker_OnPacket_announces [OF sys_inv_plain [OF inv], of E clock "InConn a" h m]]
        gone sys_packet(1)
      by (auto simp: spent_def hear_worker_def thread_after_def)
  next
    case (sys_resume st)
    then show ?thesis
      using finish_assign_reports [OF sys_resume(3), of E st] spent gone
      by (auto simp: spent_def places_def)
  next
    case (sys_side w)
    then show ?thesis using places_reports [OF side_reports [OF sys_side(3)]] spent gone by (simp add: spent_def)
  next
    case sys_fall
    then show ?thesis using spent gone by (auto simp: spent_def)
  qed (use spent in \<open>auto simp: spent_def gone_def\<close>)
qed

definition stuck_in :: "stall \<Rightarrow> worker_sys \<Rightarrow> bool" where
  "stuck_in st s \<longleftrightarrow> gone s \<and> places (the_worker s) = 0 \<and> (thread s = InSend st \<or> thread s = Fell)"

lemma stuck_step:
  assumes "sys_step E clock s t" and stuck: "stuck_in st s"
  shows "stuck_in st t"
proof -
  have gone: "gone t" using gone_stays [OF assms(1)] stuck by (simp add: stuck_in_def gone_def)
  from assms(1) show ?thesis
  proof cases
    case (sys_side w)
    then show ?thesis using places_reports [OF side_reports [OF sys_side(3)]] stuck gone by (simp add: stuck_in_def)
  qed (use stuck gone in \<open>auto simp: stuck_in_def gone_def places_def\<close>)
qed

text \<open>Only the end of the process releases an event loop that waits for a place which nobody will make.\<close>

definition hangs_in :: "stall \<Rightarrow> worker_sys \<Rightarrow> bool" where
  "hangs_in st s \<longleftrightarrow> gone s \<and> places (the_worker s) = 0 \<and> thread s = InSend st"

lemma hangs_stuck: "hangs_in st s \<Longrightarrow> stuck_in st s"
  by (simp add: hangs_in_def stuck_in_def)

lemma hangs_step:
  assumes move: "sys_move E clock s t" and hangs: "hangs_in st s"
  shows "hangs_in st t"
proof -
  have "stuck_in st t" by (rule stuck_step [OF sys_by_move [OF move] hangs_stuck [OF hangs]])
  moreover have "thread t = InSend st"
    using move hangs by cases (auto simp: hangs_in_def gone_def places_def)
  ultimately show ?thesis by (simp add: stuck_in_def hangs_in_def)
qed

interpretation told_loop: step_invariant "sys_step E clock"
    "\<lambda>s. sys_inv s \<and> gcsConn (the_worker s) \<noteq> None \<and> reporter s \<noteq> Dead" for E clock
  by unfold_locales (use told_survives sys_step_inv in blast)

interpretation lost_loop: step_invariant "sys_step E clock" "\<lambda>s. sys_inv s \<and> spent K s" for E clock K
  by unfold_locales (use spent_step sys_step_inv in blast)

interpretation stuck_loop: step_invariant "sys_step E clock" "stuck_in st" for E clock st
  by unfold_locales (rule stuck_step)

interpretation hung_loop: step_invariant "sys_move E clock" "hangs_in st" for E clock st
  by unfold_locales (rule hangs_step)

end
