(* ===== verification/ReportFall.thy ===== *)
theory ReportFall
  imports ReportLoop
begin

text \<open>
  The run that loses the report loop of a worker and then its event loop, and the properties of the
  two goroutines.
\<close>

section \<open>Additions\<close>

definition hear_addition :: "env \<Rightarrow> (nat \<Rightarrow> int64) \<Rightarrow> nat \<Rightarrow> Task \<Rightarrow> worker_sys \<Rightarrow> worker_sys" where
  "hear_addition E clock a task s =
    hear_worker E clock a \<lparr>Uri = RayAssignTask, SeqId = 1\<rparr> (MAssignTaskRequest (assign_request task)) s"

definition empty_addition :: "Task \<Rightarrow> bool" where
  "empty_addition task \<longleftrightarrow> FuncName task = TaskFuncAddTowInt \<and> Args task = []"

lemma addition_packet:
  assumes "plain w" and "empty_addition task" and "Uri h = RayAssignTask"
  shows "announcing (object_name clock task w) w
    (worker_OnPacket E clock ref h (MAssignTaskRequest (assign_request task)) w)
    (stalled_at clock ref h (MAssignTaskRequest (assign_request task)) w)"
proof -
  let ?t = "task\<lparr>Args := [], ArgsType := [], Dependencies := []\<rparr>"
  have "stalled_at clock ref h (MAssignTaskRequest (assign_request task)) w \<noteq> None"
    using assms(2,3) by (simp add: stalled_at_def assign_request_def empty_addition_def Let_def)
  from addition_announces [OF assms(1) this, of ?t clock E ref "SeqId h" "ID task"]
  show ?thesis
    using assms(2,3)
    by (simp add: worker_OnPacket_def onAssignTask_request empty_addition_def object_name_def const_defs)
qed

lemma hear_addition_step:
  assumes inv: "sys_inv s" and runs: "thread s = Runs" and a: "a < fresh (the_worker s)"
    and task: "empty_addition task" and u: "u = hear_addition E clock a task s"
  shows "sys_move E clock s u" and "fresh (the_worker u) = fresh (the_worker s)"
    and "gcsConn (the_worker u) = gcsConn (the_worker s)" and "reporter u = reporter s"
    and "0 < places (the_worker s) \<Longrightarrow> thread u = Runs \<and> Suc (places (the_worker u)) = places (the_worker s)
      \<and> buf (registerObjectChan (the_worker u))
        = buf (registerObjectChan (the_worker s)) @ [object_name clock task (the_worker s)]"
    and "places (the_worker s) = 0 \<Longrightarrow> places (the_worker u) = 0 \<and> (\<exists>st. thread u = InSend st)"
proof -
  let ?w = "the_worker s"
  let ?h = "\<lparr>Uri = RayAssignTask, SeqId = 1\<rparr>" and ?m = "MAssignTaskRequest (assign_request task)"
  let ?r = "worker_OnPacket E clock (InConn a) ?h ?m ?w" and ?st = "stalled_at clock (InConn a) ?h ?m ?w"
  have ann: "announcing (object_name clock task ?w) ?w ?r ?st"
    by (rule addition_packet [OF sys_inv_plain [OF inv] task]) simp
  show "sys_move E clock s u" unfolding u hear_addition_def by (rule move_packet [OF runs a])
  show "fresh (the_worker u) = fresh ?w"
    using worker_OnPacket_heap [of E ?w clock "InConn a" ?h ?m] by (simp add: u hear_addition_def heap_steps_def)
  show "gcsConn (the_worker u) = gcsConn ?w" "reporter u = reporter s"
    using ann by (simp_all add: u hear_addition_def announcing_def)
  show "thread u = Runs \<and> Suc (places (the_worker u)) = places ?w
      \<and> buf (registerObjectChan (the_worker u)) = buf (registerObjectChan ?w) @ [object_name clock task ?w]"
    if "0 < places ?w"
  proof -
    have "length (buf (registerObjectChan ?w)) < chan_slots (registerObjectChan ?w)"
      using that by (simp add: places_def)
    then have sent: "try_send (object_name clock task ?w) (registerObjectChan ?w) = Some (registerObjectChan (res_state ?r))"
      "returns ?r" using ann by (simp_all add: announcing_def)
    then show ?thesis
      using try_send_places [OF sent(1)] chq.push_items [OF sent(1)]
      by (auto simp: u hear_addition_def hear_worker_def thread_after_def places_def returns_def)
  qed
  show "places (the_worker u) = 0 \<and> (\<exists>st. thread u = InSend st)" if "places ?w = 0"
    using ann that by (auto simp: u hear_addition_def hear_worker_def thread_after_def places_def announcing_def)
qed

section \<open>The end of the event loop\<close>

text \<open>Without the report loop the additions fill the channel, and the one that finds it full stops the event loop.\<close>

lemma additions_fill:
  assumes "sys_inv s" and "thread s = Runs" and "a < fresh (the_worker s)" and "gone s" and "empty_addition task"
  shows "\<exists>t st. (sys_move E clock)\<^sup>*\<^sup>* s t \<and> hangs_in st t \<and> reporter t = reporter s"
  using assms(1-4)
proof (induction "places (the_worker s)" arbitrary: s)
  case 0
  let ?u = "hear_addition E clock a task s"
  note hear = hear_addition_step [OF 0(2-4) assms(5) refl, where E = E and clock = clock]
  obtain st where "hangs_in st ?u" using hear(4,6) 0 by (auto simp: hangs_in_def gone_def)
  then show ?case using hear(1,4) by blast
next
  case (Suc n)
  let ?u = "hear_addition E clock a task s"
  note hear = hear_addition_step [OF Suc(3-5) assms(5) refl, where E = E and clock = clock]
  have u: "thread ?u = Runs" "n = places (the_worker ?u)" using hear(5) Suc(2) by auto
  have "a < fresh (the_worker ?u)" "gone ?u" using hear(2,4) Suc(5,6) by (simp_all add: gone_def)
  from Suc(1) [OF u(2) sys_move_inv [OF hear(1) Suc(3)] u(1) this] show ?case
    using hear(1,4) by (metis converse_rtranclp_into_rtranclp)
qed

section \<open>The end of the report loop\<close>

definition can_report :: "env \<Rightarrow> string \<Rightarrow> bool" where
  "can_report E k \<longleftrightarrow> (\<exists>b. pb_Marshal E (report_msg k) = Inr b)"

lemma report_turn_dies:
  assumes "gcsConn (the_worker s) = None" and "buf (registerObjectChan (the_worker s)) = k # rest" and "can_report E k"
  shows "reporter (report_turn E True s) = Dead" and "fresh (the_worker (report_turn E True s)) = fresh (the_worker s)"
  using early_report_panics [OF assms(1,2), of True E] assms(3)
  by (simp_all add: report_turn_def can_report_def report_msg_def)

lemma wake_dies:
  assumes "reporter s = Waits" and "gcsConn (the_worker s) = None"
    and "buf (registerObjectChan (the_worker s)) = k # rest" and "can_report E k"
  shows "reporter (report_wake E s) = Dead" and "fresh (the_worker (report_wake E s)) = fresh (the_worker s)"
    and "thread (report_wake E s) = thread s"
  using report_turn_dies [of "s\<lparr>the_worker := with_reports unpark (the_worker s)\<rparr>" k rest E] assms
  by (simp_all add: report_wake_def)

text \<open>From a report loop that waits: the channel holds an announcement, or one addition puts it there.\<close>

lemma waiting_dies:
  assumes inv: "sys_inv s" and runs: "thread s = Runs" and a: "a < fresh (the_worker s)" and waits: "reporter s = Waits"
    and gcs: "gcsConn (the_worker s) = None" and task: "empty_addition task"
    and enc: "\<forall>k \<in> set (buf (registerObjectChan (the_worker s))). can_report E k"
      "\<forall>w. can_report E (object_name clock task w)"
  shows "\<exists>t. (sys_move E clock)\<^sup>*\<^sup>* s t \<and> thread t = Runs \<and> reporter t = Dead \<and> a < fresh (the_worker t)"
proof (cases "buf (registerObjectChan (the_worker s))")
  case (Cons k rest)
  have "can_report E k" using enc(1) Cons by simp
  note dies = wake_dies [OF waits gcs Cons this]
  have "sys_move E clock s (report_wake E s)" by (rule move_wake) (simp_all add: runs waits Cons)
  then show ?thesis using dies runs a by (intro exI [of _ "report_wake E s"]) auto
next
  case Nil
  let ?u = "hear_addition E clock a task s" and ?k = "object_name clock task (the_worker s)"
  note hear = hear_addition_step [OF inv runs a task refl, where E = E and clock = clock]
  have "0 < places (the_worker s)" using inv waits Nil by (simp add: places_def chan_slots_def sys_inv_def)
  note full = hear(5) [OF this]
  have "sys_move E clock ?u (report_wake E ?u)" by (rule move_wake) (use full hear(4) waits in simp_all)
  moreover have "reporter ?u = Waits" "gcsConn (the_worker ?u) = None" "buf (registerObjectChan (the_worker ?u)) = [?k]"
    using hear(3,4) full waits gcs Nil by simp_all
  note dies = wake_dies [OF this enc(2) [rule_format]]
  ultimately show ?thesis
    using hear(1,2) dies full a by (intro exI [of _ "report_wake E ?u"]) (auto intro: converse_rtranclp_into_rtranclp)
qed

lemma turning_dies:
  assumes inv: "sys_inv s" and runs: "thread s = Runs" and a: "a < fresh (the_worker s)"
    and alive: "reporter s = Turn \<or> reporter s = Waits" and ctx: "\<not> worker_ctxDone (the_worker s)"
    and gcs: "gcsConn (the_worker s) = None" and task: "empty_addition task"
    and enc: "\<forall>k \<in> set (buf (registerObjectChan (the_worker s))). can_report E k"
      "\<forall>w. can_report E (object_name clock task w)"
  shows "\<exists>t. (sys_move E clock)\<^sup>*\<^sup>* s t \<and> thread t = Runs \<and> reporter t = Dead \<and> a < fresh (the_worker t)"
proof (cases "reporter s = Waits")
  case True
  then show ?thesis using waiting_dies [OF inv runs a _ gcs task enc] by simp
next
  case False
  let ?u = "report_turn E True s"
  have step: "sys_move E clock s ?u" by (rule move_turn) (use runs alive False in simp_all)
  show ?thesis
  proof (cases "buf (registerObjectChan (the_worker s))")
    case (Cons k rest)
    then have "can_report E k" using enc(1) by simp
    from report_turn_dies [OF gcs Cons this] show ?thesis
      using step runs a by (intro exI [of _ ?u]) auto
  next
    case Nil
    then have "worker_Loop_round E True (the_worker s) = Block (the_worker s)"
      using ctx by (simp add: worker_Loop_round_def try_recv_def)
    then have u: "?u = s\<lparr>the_worker := with_reports park (the_worker s), reporter := Waits\<rparr>"
      using Nil by (simp add: report_turn_def)
    have "sys_inv ?u" by (rule sys_move_inv [OF step inv])
    then have "\<exists>t. (sys_move E clock)\<^sup>*\<^sup>* ?u t \<and> thread t = Runs \<and> reporter t = Dead \<and> a < fresh (the_worker t)"
      by (rule waiting_dies [where task = task]) (simp_all add: u runs a gcs task Nil enc(2))
    then show ?thesis using step converse_rtranclp_into_rtranclp by metis
  qed
qed

text \<open>Both ends, one after the other; an accepted connection brings the additions.\<close>

lemma opened_dies:
  assumes inv: "sys_inv s" and runs: "thread s = Runs" and alive: "reporter s = Turn \<or> reporter s = Waits"
    and ctx: "\<not> worker_ctxDone (the_worker s)" and gcs: "gcsConn (the_worker s) = None" and task: "empty_addition task"
    and enc: "\<forall>k \<in> set (buf (registerObjectChan (the_worker s))). can_report E k"
      "\<forall>w. can_report E (object_name clock task w)"
  shows "\<exists>t u st. (sys_move E clock)\<^sup>*\<^sup>* s t \<and> (sys_move E clock)\<^sup>*\<^sup>* t u
    \<and> reporter t = Dead \<and> reporter u = Dead \<and> hangs_in st u"
proof -
  let ?a = "fresh (the_worker s)" and ?w = "snd (worker_OnOpen 0 None (the_worker s))"
  let ?s = "s\<lparr>the_worker := ?w\<rparr>"
  have side: "side_step E (the_worker s) ?w" by (rule side_open)
  have opened: "sys_move E clock s ?s" by (rule move_side [OF _ side]) (simp add: runs)
  have same: "gcsConn ?w = None" "registerObjectChan ?w = registerObjectChan (the_worker s)"
    using side_reports [OF side] gcs by (simp_all add: announce_part_def)
  have "?a < fresh ?w" "worker_ctxDone ?w = worker_ctxDone (the_worker s)"
    by (simp_all add: worker_OnOpen_def cm_OnOpen_def Let_def)
  then obtain t where t: "(sys_move E clock)\<^sup>*\<^sup>* ?s t" "thread t = Runs" "reporter t = Dead" "?a < fresh (the_worker t)"
    using turning_dies [OF sys_move_inv [OF opened inv], where a = ?a and task = task and clock = clock and E = E]
      assms same by auto
  have "sys_inv t" by (rule sys_moves_inv [OF t(1) sys_move_inv [OF opened inv]])
  from additions_fill [OF this t(2,4), where task = task and E = E and clock = clock] obtain u st where
    "(sys_move E clock)\<^sup>*\<^sup>* t u" "hangs_in st u" "reporter u = Dead"
    using t(3) task by (auto simp: gone_def)
  then show ?thesis using t(3) converse_rtranclp_into_rtranclp [OF opened t(1)] by blast
qed

section \<open>Properties\<close>

lemma launched_inv:
  assumes "NewWorker listen advertise opts = Some w"
  shows "sys_inv (launched (worker_Start w))"
proof -
  have "worker_step buf_ops E (\<lambda>_. 0) w (worker_Start w)" for E
    unfolding worker_Start_def by (intro work_node node_by_quiet quiet_start)
  from worker_step_keeps [OF this] have "node_good (worker_Start w) \<and> worker_inv (worker_Start w) \<and> worker_links (worker_Start w)"
    using NewWorker_start [OF assms] by blast
  moreover have "parked (registerObjectChan (worker_Start w)) = 0"
    using assms by (auto simp: NewWorker_def worker_Start_def node_Start_def split: if_splits)
  ultimately show ?thesis by (simp add: launched_def sys_inv_def)
qed

text \<open>
  C15. The report loop of a worker and what hangs on it, in every interleaving of the packets, the turns of
  the loop and everything else, from the start of the worker on. A loop that has a store to tell is not
  lost any more. A loop that has panicked or returned does not come back, and from then on at most
  as many additions begin (each reads the clock once) as the channel of announcements has places left,
  and one more: that one waits in its send, and with it the event loop, until the process ends.
\<close>

theorem report_loop_fate:
  assumes "NewWorker listen advertise opts = Some w" and "(sys_step E clock)\<^sup>*\<^sup>* (launched (worker_Start w)) s"
    and "(sys_step E clock)\<^sup>*\<^sup>* s t"
  shows "(gcsConn (the_worker s) \<noteq> None \<and> reporter s \<noteq> Dead \<longrightarrow> reporter t \<noteq> Dead)
    \<and> (reporter s = Dead \<or> reporter s = Over \<longrightarrow>
        reporter t = reporter s
        \<and> time_calls (the_worker t) \<le> time_calls (the_worker s) + places (the_worker s) + 1
        \<and> (thread s = InSend st \<and> places (the_worker s) = 0 \<longrightarrow> thread t = InSend st \<or> thread t = Fell))"
proof -
  have s: "sys_inv s" by (rule worker_goroutines.reach_inv [OF assms(2) launched_inv [OF assms(1)]])
  have "reporter t \<noteq> Dead" if "gcsConn (the_worker s) \<noteq> None \<and> reporter s \<noteq> Dead"
    using told_loop.reach_inv [OF assms(3)] that s by blast
  moreover have "reporter t = reporter s" if "gone s"
    using assms(3) that
  proof (induction rule: rtranclp_induct)
    case (step u v)
    then show ?case using gone_stays [OF step(2)] by (simp add: gone_def)
  qed simp
  moreover have "time_calls (the_worker t) \<le> time_calls (the_worker s) + places (the_worker s) + 1" if "gone s"
  proof -
    have "spent (time_calls (the_worker s) + places (the_worker s)) s" using that by (simp add: spent_def)
    with lost_loop.reach_inv [OF assms(3)] s have "spent (time_calls (the_worker s) + places (the_worker s)) t" by blast
    then show ?thesis by (auto simp: spent_def)
  qed
  moreover have "thread t = InSend st \<or> thread t = Fell" if "gone s" "thread s = InSend st \<and> places (the_worker s) = 0"
    using stuck_loop.reach_inv [OF assms(3), of st] that by (auto simp: stuck_in_def)
  ultimately show ?thesis by (simp add: gone_def)
qed

text \<open>
  C14. A result that comes before the store stops a worker. From every reachable state in which the worker
  serves, no store has greeted it and its report loop is alive, the goroutines of the worker by
  themselves, without any fault from outside, can go on to a state in which the report loop is dead, the
  channel of announcements has no place left and the event loop waits in the send of an announcement.
  Nothing that they do from there on ends this wait: the report loop stays dead and the event loop
  stays in the same send, until the process is ended. (The run of the proof accepts a connection,
  hears additions without arguments on it and takes turns of the loop.)
\<close>

theorem early_addition_hangs_worker:
  assumes "NewWorker listen advertise opts = Some w" and "(sys_step E clock)\<^sup>*\<^sup>* (launched (worker_Start w)) s"
    and "thread s = Runs" and "reporter s = Turn \<or> reporter s = Waits"
    and "gcsConn (the_worker s) = None" and "\<not> worker_ctxDone (the_worker s)"
    and "FuncName task = TaskFuncAddTowInt" and "Args task = []"
    and "\<forall>k \<in> set (buf (registerObjectChan (the_worker s))). can_report E k"
    and "\<forall>v. can_report E (object_name clock task v)"
  shows "\<exists>t st. (sys_move E clock)\<^sup>*\<^sup>* s t \<and> reporter t = Dead \<and> thread t = InSend st \<and> places (the_worker t) = 0
    \<and> (\<forall>u. (sys_move E clock)\<^sup>*\<^sup>* t u \<longrightarrow> reporter u = Dead \<and> thread u = InSend st)
    \<and> (\<forall>u. (sys_step E clock)\<^sup>*\<^sup>* t u \<longrightarrow> reporter u = Dead \<and> (thread u = InSend st \<or> thread u = Fell))"
proof -
  have inv: "sys_inv s" by (rule worker_goroutines.reach_inv [OF assms(2) launched_inv [OF assms(1)]])
  have "empty_addition task" using assms(7,8) by (simp add: empty_addition_def)
  from opened_dies [OF inv assms(3,4,6,5) this assms(9,10)] obtain t u st where
    u: "(sys_move E clock)\<^sup>*\<^sup>* s u" "hangs_in st u" "reporter u = Dead"
    using rtranclp_trans [of "sys_move E clock" s] by metis
  have dead: "reporter v = Dead" if "(sys_step E clock)\<^sup>*\<^sup>* u v" for v
    using that u(3) by (induction rule: rtranclp_induct) (auto dest: gone_stays simp: gone_def)
  have "thread v = InSend st" if "(sys_move E clock)\<^sup>*\<^sup>* u v" for v
    using hung_loop.reach_inv [OF that u(2)] by (simp add: hangs_in_def)
  moreover have "thread v = InSend st \<or> thread v = Fell" if "(sys_step E clock)\<^sup>*\<^sup>* u v" for v
    using stuck_loop.reach_inv [OF that hangs_stuck [OF u(2)]] by (simp add: stuck_in_def)
  ultimately show ?thesis using u dead sys_by_moves [of E clock u] unfolding hangs_in_def by blast
qed

definition early_task :: Task where
  "early_task = \<lparr>ID = ''t'', FuncName = TaskFuncAddTowInt, Args = [], ArgsType = [], Dependencies = []\<rparr>"

definition early_env :: env where
  "early_env = table_env [(report_msg (''t'' @ TaskFuncAddTowInt @ FormatInt 0), [9])]"

definition early_start :: worker_sys where
  "early_start = launched (worker_Start (the (NewWorker [] [] [])))"

lemma early_made: "NewWorker [] [] [] = Some (the (NewWorker [] [] []))"
  by (simp add: NewWorker_def apply_options_def zero_options_def)

lemma early_start_simps:
  "thread early_start = Runs" "reporter early_start = Turn" "gcsConn (the_worker early_start) = None"
  "\<not> worker_ctxDone (the_worker early_start)" "buf (registerObjectChan (the_worker early_start)) = []"
  by (simp_all add: early_start_def launched_def worker_Start_def node_Start_def NewWorker_def apply_options_def
      zero_options_def)

lemma early_reports: "\<forall>v. can_report early_env (object_name (\<lambda>_. 0) early_task v)"
  by (simp add: can_report_def early_env_def object_name_def early_task_def)

lemma early_addition_hangs_worker_witness:
  "\<exists>t st. (sys_move early_env (\<lambda>_. 0))\<^sup>*\<^sup>* early_start t \<and> reporter t = Dead \<and> thread t = InSend st
    \<and> places (the_worker t) = 0"
proof -
  have "(sys_step early_env (\<lambda>_. 0))\<^sup>*\<^sup>* (launched (worker_Start (the (NewWorker [] [] [])))) early_start"
    by (simp add: early_start_def)
  from early_addition_hangs_worker [OF early_made this, of early_task] show ?thesis
    using early_reports by (auto simp: early_start_simps early_task_def)
qed

lemma report_loop_fate_witness:
  "\<exists>s t st. (sys_step early_env (\<lambda>_. 0))\<^sup>*\<^sup>* early_start s \<and> (sys_step early_env (\<lambda>_. 0))\<^sup>*\<^sup>* s t \<and> reporter s = Dead
    \<and> stuck_in st t \<and> time_calls (the_worker t) \<le> time_calls (the_worker s) + places (the_worker s) + 1"
proof -
  have "sys_inv early_start" unfolding early_start_def by (rule launched_inv [OF early_made])
  from opened_dies [OF this, of early_task early_env "\<lambda>_. 0"] obtain s t st where
    m: "(sys_move early_env (\<lambda>_. 0))\<^sup>*\<^sup>* early_start s" "(sys_move early_env (\<lambda>_. 0))\<^sup>*\<^sup>* s t" "reporter s = Dead" "hangs_in st t"
    using early_reports by (auto simp: early_start_simps empty_addition_def early_task_def)
  note s = sys_by_moves [OF m(1)] sys_by_moves [OF m(2)] m(3) hangs_stuck [OF m(4)]
  from report_loop_fate [OF early_made s(1) [unfolded early_start_def] s(2)] s show ?thesis by blast
qed

end
