(* ===== verification/Spec2Isabelle.thy ===== *)
theory Spec2Isabelle
  imports SchedulerSteps GcsSteps WorkerSteps Programs Link RoundTrip WireSpec
    NetworkProps ReportFall
begin

text \<open>
  A verification development for mini_ray, a small distributed task system in Go: a \<^bold>\<open>driver\<close>
  submits tasks, a \<^bold>\<open>scheduler\<close> queues them and assigns them to \<^bold>\<open>workers\<close>, workers execute them
  and store the results as objects, and a \<^bold>\<open>global control store\<close> (GCS) knows which node holds
  which object. The nodes exchange framed protobuf packets over TCP (the gnet library).

  \<^bold>\<open>Parts and theories.\<close> Each theory models the files it names; names are the source's, with the
  node as a prefix where several nodes have a function of the same name.

  \<^item> \<open>Prelude\<close>: Go's machine types as words, errors and panics as values, the result type
    \<open>res\<close> (returned, panicked, waiting), big-endian integers, strings as bytes.
  \<^item> \<open>Go_Channel\<close>: buffered channels with their two non-blocking operations; the locale
    \<open>bounded_queue\<close> is their contract.
  \<^item> \<open>Messages\<close>: the messages of \<^verbatim>\<open>proto/\<close> as records, and the type assertions of Go.
  \<^item> \<open>External\<close>: third-party code as parameters (the reading side of a gnet connection, the
    protobuf runtime, the two ways of writing), with the documented behaviour as named hypotheses.
  \<^item> \<open>Frame\<close>, \<open>Codec\<close>: \<^verbatim>\<open>common/rpc_conn.go\<close> and \<^verbatim>\<open>codec/header.go\<close>. \<open>decode_bytes\<close> is the
    abstract decoder on the bytes of a stream; \<open>ZeroCopyDecode\<close> refines it.
  \<^item> \<open>Traffic\<close>: the read loop of \<^verbatim>\<open>common/eventHandler.go\<close> and of every \<^verbatim>\<open>OnTraffic\<close>;
    \<open>run_bytes\<close> is the loop on bytes, \<open>deliver\<close> the sequence of handler calls it amounts to. The
    locale \<open>packet_handler\<close> carries an invariant of a handler over the loop.
  \<^item> \<open>ReadLoop\<close>: the reader of a dialled \<^verbatim>\<open>net.Conn\<close> (\<^verbatim>\<open>readFrame\<close>, \<^verbatim>\<open>readLoop\<close>).
  \<^item> \<open>Conn\<close>: the object of the server side connection of \<^verbatim>\<open>core/*/connection.go\<close>; the locale
    \<open>frame_sender\<close> is what both kinds of connection promise about \<^verbatim>\<open>Send\<close>. \<open>ServerConn\<close> has the
    methods of each of the four copies of the file at its node; the locale \<open>heartbeat\<close> is what the
    copies of the scheduler, the worker and the GCS share.
  \<^item> \<open>ClientConn\<close>: \<^verbatim>\<open>common/client_conn.go\<close>, the dialling connection with its reconnect loop as a
    step relation that interleaves with the event thread, the callers and the context.
  \<^item> \<open>Node\<close>: options, the tables of a connection manager, the interface \<^verbatim>\<open>common.Connection\<close>
    over two heaps of connection objects, the gnet callbacks every manager has.
  \<^item> \<open>Gcs\<close>, \<open>Scheduler\<close>, \<open>Worker\<close>, \<open>Driver\<close>: one node each, \<^verbatim>\<open>core/gcs\<close>, \<^verbatim>\<open>core/scheduler\<close>,
    \<^verbatim>\<open>core/worker\<close>, \<^verbatim>\<open>core/driver\<close>; each extends the record \<open>node\<close>. \<open>ArgCodec\<close> is
    \<^verbatim>\<open>core/worker/codec_util.go\<close> with the locales \<open>arg_codec\<close> and \<open>fixed_arg_codec\<close>.
  \<^item> \<open>Exit\<close>: \<^verbatim>\<open>common/safe_exit.go\<close> and the start and stop of the global client in
    \<^verbatim>\<open>common/eventHandler.go\<close>. \<open>Programs\<close>: the four \<^verbatim>\<open>core/*/main/main.go\<close>.
  \<^item> \<open>Steps\<close>: the locales \<open>step_invariant\<close>, \<open>step_refinement\<close> and \<open>labelled_refinement\<close> carry an
    invariant or a simulation from one step to every execution. \<open>HeapSteps\<close> and \<open>NodeSteps\<close> are
    what every node's handlers do to its connections and tables (\<open>node_step\<close>, \<open>node_good\<close>);
    \<open>GcsSteps\<close>, \<open>SchedulerSteps\<close>, \<open>WorkerSteps\<close> are the nodes as step relations, one rule for each
    callback, method, goroutine turn and timer.
  \<^item> \<open>TaskPool\<close> and \<open>Link\<close>: abstract specifications. The pool of tasks, with the events submit,
    assign, drop, accept, retry, lose, ignore and hire, is what the scheduler promises; each step of the
    scheduler is labelled with the events that it should be, read off the state before it, the packets
    that reach its handler and the call, and the pool goes through exactly these. The link automaton
    (down, handshaking, up) is what the dialling connection promises.
  \<^item> \<open>Network\<close>: the nodes joined by pipes of bytes, any number of them. \<open>net_turn\<close> is what the programs
    do, \<open>net_step\<close> adds the faults from outside (a connection is cut, a process is killed);
    \<open>NetworkProps\<close> has the theorems about all of its executions, \<open>SampleNet\<close> a run to which they are
    applied. They rest on \<open>Says\<close> (a node in a state says certain packets on a connection, and
    whatever it appends to a stream is frames of these), \<open>SchedulerTalk\<close>, \<open>GcsTalk\<close>, \<open>WorkerTalk\<close>
    (what each node says, and its events in which no packet is handled), \<open>Talk\<close> (the locale
    \<open>talking_node\<close>, interpreted on the three nodes), \<open>Flow\<close> (what a reader gets out of a stream of
    frames, wherever it is cut), \<open>NetworkSpec\<close> (what a node has learnt, its peer says), \<open>Bridge\<close>
    (the packet turns of the network and the calls of \<^verbatim>\<open>OnTraffic\<close>), \<open>Calm\<close> (handlers return on what
    the nodes say), \<open>Delivery\<close> (one frame through an empty pipe), \<open>Fall\<close> (an assignment with arguments on
    its way to a worker) and \<open>Join\<close> (a worker on its way into the scheduler's table).
  \<^item> \<open>ReportLoop\<close>: the event loop and the report loop of one worker as two goroutines that meet in the
    channel of announcements: \<open>sys_move\<close> is what they do by themselves, \<open>sys_step\<close> adds the end of the
    process from outside. \<open>ReportFall\<close> has the run in which one is lost and stops the other, and the
    properties.
  \<^item> \<open>WireSpec\<close>, \<open>WorkerSpec\<close>, \<open>RoundTrip\<close> and this theory hold properties that span definitions of several
    groups; \<open>Sample_Env\<close> is the concrete environment that their instances are evaluated in.

  \<^bold>\<open>State and operations.\<close> A handler takes the state of its node and returns a \<open>res\<close>: \<open>Ok\<close> with
  Go's error (\<open>None\<close> is nil), \<open>Panic\<close> for a run-time panic, \<open>Block\<close> for a goroutine that waits
  on a channel nothing can serve. What a connection writes is recorded in order in a trace;
  \<open>ref_stream\<close> is the bytes the peer will read. Logging is left out. Handlers are atomic, as
  they are in gnet's single event loop; the interleaving that matters inside one object, the
  dialling connection's, is explicit, and in the step relations of the nodes it is part of the
  node's: packets, callers, timers and the turns of every reconnect loop come in any order.

  \<^bold>\<open>The network.\<close> A state is the state of every node, what its event loop is doing (\<open>Serving\<close>,
  \<open>Sending\<close> a result into a full channel, \<open>Stuck\<close> for ever, \<open>Down\<close> after a panic), and for each direction
  of a transport how many bytes have arrived and been consumed and whether it is shut. Bytes arrive in
  order in pieces of any size; packets are taken one at a time by \<open>ZeroCopyDecode\<close> from what has
  arrived, so nodes interleave between the packets of a batch; the gnet engine of a node is one event
  loop (\<^verbatim>\<open>WithMulticore(false)\<close>), so a handler that waits holds up the accepted connections of its
  node. Connections may be shut and nodes may crash at any time: safety holds of all these steps, and
  what can be reached is shown for turns without faults. Which connection is joined to which is
  fixed for an execution, arbitrary otherwise: a dialling connection has a fresh handle for each
  transport, so a reconnect is another pipe. The driver is not a node of it, since its constructor does
  not return, nor is \<^verbatim>\<open>getRemoteObject\<close>, which nothing reaches. A goroutine of a node may go on after
  another has panicked, and the report loop after its own panic, which only adds executions; what its
  panic means for the event loop is in \<open>ReportLoop\<close>, where the pool recovers it and the loop is gone.

  \<^bold>\<open>What is proved.\<close> Wire: round trips, one URI for each message and refusal of all others, the read loop returns,
  delivers in order and does not depend on segmentation. Connections: a send that reports no error
  has put exactly one frame on the wire, the reconnect loop never loses its transport and shuts
  down, every stream is a sequence of whole frames. Nodes: an invariant that every batch of bytes
  keeps, and the functional behaviour of queueing, assignment, execution, storage, reports and
  submission on every branch. Executions: every reachable state of the GCS, the scheduler and the
  worker keeps the node's invariant; every execution of the scheduler is the one of the task pool that its labels
  spell out, which accounts for each task; every execution of a dialling connection is one of the link automaton.
  The whole system: what comes out of the pipes is what the node at the other end says in the state it
  is in, the store's directory is true, a registered worker is one that holds the connection open, no
  addition is ever carried out; without tasks that have arguments nothing but a crash takes an event loop down,
  with one a registered worker goes down when it reads the assignment, to which turns without faults
  lead; a worker that a scheduler dials can join, and every call of \<^verbatim>\<open>OnTraffic\<close> is a run of the
  system's turns.
  The goroutines of a worker: a report loop that has a store to tell lasts; a result before any store has
  greeted the worker ends it, and the additions that follow leave the event loop in a send that only
  the end of the process ends.
  Across nodes: the handshake, the report of results (which the store reads on the connection it has
  dialled, through \<^verbatim>\<open>OnPacket\<close> with its gate and its recover), the assignment, a task's way to a worker
  and back. Programs: what each of them
  comes to for all values of its flags, and what a signal stops.
  Several theorems state behaviour that is surely not meant: an assignment with arguments panics the
  worker and one without stores a zero, location requests panic the handler of the GCS and cost
  it the connection, remote objects are never fetched, the driver is never constructed, tasks are lost without workers or with a full queue,
  and no program gets an address or sizes its channels.

  \<^bold>\<open>Bounds.\<close> No fuel is used. The read loops terminate by the number of buffered bytes, each
  iteration that goes on having consumed a frame; \<open>writeFull\<close> and \<open>NewDriver\<close> are partial
  functions, where \<open>None\<close> is a call that does not return. Frames are assumed shorter than
  4 GiB, the range of their length field, wherever a round trip is stated.

  \<^bold>\<open>Not modelled.\<close> The generated code of the messages beyond their fields, and the gRPC stubs; the
  gnet engine, dialling, timers, the pool, zap and the command line library (their outcomes are
  arguments); what the loggers print; data races between the event loop and the goroutines of a node; the tests.
\<close>

section \<open>Handshake: a worker joins the scheduler\<close>

lemma ack_decodes:
  assumes rt: "pb_roundtrips E (MEstablishResponse resp) body" and len: "length body < 2 ^ 32 - 10"
    and uri: "Uri ack = MetaEstablishAck"
  shows "decode_bytes E (wire_frame ack body) = (Inr (ack, MEstablishResponse resp), [])"
proof -
  have "unmarshalByURI E (Uri ack) body = Inr (MEstablishResponse resp)"
    by (rule unmarshalByURI_roundtrip [OF rt]) (simp add: uri uri_kind_def uri_table_def const_defs)
  then show ?thesis using decode_bytes_wire_frame [OF len, of E ack "[]"] by simp
qed

definition worker_ok_response :: EstablishResponse where
  "worker_ok_response = \<lparr>EstablishResponse_Mode = ModeWorker, EstablishResponse_Err = ''OK''\<rparr>"

text \<open>
  The handshake registers a worker: when a worker has answered an establish request without an
  error, the bytes it wrote are one frame; decoded by the scheduler's dialling connection they make
  this connection established, clear its failure count, and file it as a worker under its endpoint.
\<close>

theorem handshake_registers_worker:
  assumes answered: "worker_OnPacket E clock wref h (MEstablishReq req) w = Ok None w'"
    and uri: "Uri h = MetaEstablish"
    and rt: "pb_roundtrips E (MEstablishResponse worker_ok_response) body"
    and len: "length body < 2 ^ 32 - 10"
    and wire: "ref_stream wref w' = ref_stream wref w @ bs"
    and node: "handlerMode (outb s a) \<noteq> None"
  shows "\<exists>ack s'. decode_bytes E bs = (Inr (ack, MEstablishResponse worker_ok_response), [])
    \<and> SeqId ack = SeqId h
    \<and> client_OnPacket now (scheduler_HandlePacket E) a ack (MEstablishResponse worker_ok_response) s = Ok None s'
    \<and> cl_established (outb s' a) \<and> failure (outb s' a) = 0
    \<and> workerConns s' = (workerConns s)(cl_endpoint (outb s a) \<mapsto> OutConn a)"
proof -
  let ?ack = "\<lparr>Uri = MetaEstablishAck, SeqId = SeqId h\<rparr>"
  obtain w1 where "reply E wref ?ack (MEstablishResponse worker_ok_response) w1 = Ok None w'"
    and same: "ref_stream wref w1 = ref_stream wref w"
  proof
    let ?w1 = "if EstablishReq_Mode req = ModeGCS then (ref_SetEstablished wref w)\<lparr>gcsConn := Some wref\<rparr>
      else ref_SetEstablished wref w"
    show "reply E wref ?ack (MEstablishResponse worker_ok_response) ?w1 = Ok None w'"
      using answered uri
      by (simp add: worker_OnPacket_def worker_onEstablish_def worker_ok_response_def Let_def)
    show "ref_stream wref ?w1 = ref_stream wref w"
      by (cases wref) (simp_all add: connection_SetEstablished_def client_SetEstablished_def)
  qed
  from reply_stream [OF this(1) rt] wire same have bs: "bs = wire_frame ?ack body" by simp
  obtain mode where mode: "handlerMode (outb s a) = Some mode" using node by auto
  let ?c = "(outb s a)\<lparr>lastRecv := now, nextDial := now + hour, failure := 0, cl_established := True\<rparr>"
  let ?s1 = "set_outb a s ?c"
  let ?s' = "set_outb a (?s1\<lparr>workerConns := (workerConns s)(cl_endpoint (outb s a) \<mapsto> OutConn a)\<rparr>) ?c"
  have "client_OnPacket now (scheduler_HandlePacket E) a ?ack (MEstablishResponse worker_ok_response) s = Ok None ?s'"
    using mode
    by (simp add: client_OnPacket_def client_receive_def worker_ok_response_def scheduler_HandlePacket_def
        scheduler_OnPacket_def scheduler_onEstablishAck_def client_NotifyEstablish_def set_outb_def const_defs)
  moreover have "workerConns ?s' = (workerConns s)(cl_endpoint (outb s a) \<mapsto> OutConn a)"
    by (simp add: set_outb_def)
  ultimately show ?thesis
    using ack_decodes [OF rt len, of ?ack] bs by (intro exI [of _ ?ack] exI [of _ ?s']) simp
qed

lemma handshake_registers_worker_witness:
  "\<exists>w'. worker_OnPacket (table_env [(MEstablishResponse worker_ok_response, [6])]) (\<lambda>_. 0) (InConn 0)
      \<lparr>Uri = MetaEstablish, SeqId = 1\<rparr>
      (MEstablishReq \<lparr>EstablishReq_Addr = [], EstablishReq_Mode = ModeScheduler\<rparr>) sample_worker = Ok None w'
    \<and> (\<exists>ack s'. client_OnPacket 0 (scheduler_HandlePacket (table_env [(MEstablishResponse worker_ok_response, [6])])) 0 ack
        (MEstablishResponse worker_ok_response) sample_scheduler = Ok None s'
      \<and> workerConns s' ''w1'' = Some (OutConn 0))"
proof -
  let ?E = "table_env [(MEstablishResponse worker_ok_response, [6])]"
  let ?h = "\<lparr>Uri = MetaEstablish, SeqId = 1\<rparr>"
  let ?req = "\<lparr>EstablishReq_Addr = [], EstablishReq_Mode = ModeScheduler\<rparr>"
  have rt: "pb_roundtrips ?E (MEstablishResponse worker_ok_response) [6]" by (simp add: pb_roundtrips_def)
  have live: "ref_live (InConn 0) (ref_SetEstablished (InConn 0) sample_worker)"
    by (simp add: sample_worker_def newConnection_def connection_SetEstablished_def)
  obtain w' where w': "reply ?E (InConn 0) \<lparr>Uri = MetaEstablishAck, SeqId = 1\<rparr>
      (MEstablishResponse worker_ok_response) (ref_SetEstablished (InConn 0) sample_worker) = Ok None w'"
    "ref_stream (InConn 0) w' = ref_stream (InConn 0) (ref_SetEstablished (InConn 0) sample_worker)
      @ wire_frame \<lparr>Uri = MetaEstablishAck, SeqId = 1\<rparr> [6]"
    by (rule reply_live [OF transports_ok_table_env live rt]) blast
  have answered: "worker_OnPacket ?E (\<lambda>_. 0) (InConn 0) ?h (MEstablishReq ?req) sample_worker = Ok None w'"
    using w'(1) by (simp add: worker_OnPacket_def worker_onEstablish_def worker_ok_response_def const_defs)
  have wire: "ref_stream (InConn 0) w' = ref_stream (InConn 0) sample_worker
      @ wire_frame \<lparr>Uri = MetaEstablishAck, SeqId = 1\<rparr> [6]"
    using w'(2) by (simp add: connection_SetEstablished_def)
  have node: "handlerMode (outb sample_scheduler 0) \<noteq> None"
    by (simp add: sample_scheduler_simps)
  have "cl_endpoint (outb sample_scheduler 0) = ''w1''" by (simp add: sample_scheduler_simps)
  moreover obtain ack s' where "client_OnPacket 0 (scheduler_HandlePacket ?E) 0 ack
      (MEstablishResponse worker_ok_response) sample_scheduler = Ok None s'"
    "workerConns s' = (workerConns sample_scheduler)(cl_endpoint (outb sample_scheduler 0) \<mapsto> OutConn 0)"
    using handshake_registers_worker [OF answered _ rt _ wire node, of 0] by auto
  ultimately show ?thesis using answered by (metis fun_upd_same)
qed

section \<open>Assignment: from the scheduler's queue to the worker's reader\<close>

text \<open>
  C1. The scheduler and the worker do not agree on a task with arguments: the assignment that the
  scheduler sends for such a task, arriving alone on any started worker's accepted connection, over
  every transport, panics the worker's event loop with an index out of range. (The scheduler never
  copies the argument types into the request, the worker indexes them.)
\<close>

theorem assignment_crashes_worker:
  assumes sent: "handleServerReq E ref (MAssignTaskRequest (assign_request task)) s = Ok None s'"
    and args: "Args task \<noteq> []"
    and rt: "pb_roundtrips E (MAssignTaskRequest (assign_request task)) body"
    and len: "length body < 2 ^ 32 - 10"
    and wire: "ref_stream ref s' = ref_stream ref s @ content c"
    and ok: "gnet_conn_ok ops content" and up: "started w"
  shows "\<exists>c'. worker_OnTraffic ops E clock (CtxConn wref) c w = Some (Panic IndexOutOfRange w, c')"
proof -
  let ?h = "\<lparr>Uri = RayAssignTask, SeqId = nextID s + 1\<rparr>"
  let ?m = "MAssignTaskRequest (assign_request task)"
  have "reply E ref ?h ?m (s\<lparr>nextID := nextID s + 1\<rparr>) = Ok None s'"
    using sent by (simp add: handleServerReq_def Let_def)
  from reply_stream [OF this rt] have bytes: "content c = wire_frame ?h body @ []"
    using wire by (cases ref) simp_all
  have "good_packet E (?h, ?m, body)"
    using rt len by (simp add: good_packet_def uri_kind_def uri_table_def const_defs)
  note run = run_bytes_packet [OF this, of "worker_OnPacket E clock wref" "[]" w]
  have "resolve_args [] 0 (Args task) w = Panic IndexOutOfRange w"
    using args by (cases "Args task") simp_all
  then have "worker_OnPacket E clock wref ?h ?m w = Panic IndexOutOfRange w"
    by (simp add: worker_OnPacket_def onAssignTask_def assign_request_def const_defs)
  then show ?thesis
    using traffic_loop_run_bytes [OF ok, of E "worker_OnPacket E clock wref" c w] up
    unfolding bytes run by (auto simp: worker_OnTraffic_def cm_OnTraffic_def)
qed

lemma assignment_crashes_worker_witness:
  "\<exists>c'. worker_OnTraffic buf_ops (table_env [(MAssignTaskRequest (assign_request sample_task), [7])])
      (\<lambda>_. 0) (CtxConn (InConn 0)) (wire_frame \<lparr>Uri = RayAssignTask, SeqId = 3\<rparr> [7]) sample_worker
    = Some (Panic IndexOutOfRange sample_worker, c')"
proof -
  let ?E = "table_env [(MAssignTaskRequest (assign_request sample_task), [7])]"
  have rt: "pb_roundtrips ?E (MAssignTaskRequest (assign_request sample_task)) [7]"
    by (simp add: pb_roundtrips_def)
  have live: "ref_live (OutConn 0) sample_scheduler" by (simp add: sample_scheduler_simps)
  obtain s' where s': "handleServerReq ?E (OutConn 0) (MAssignTaskRequest (assign_request sample_task))
      sample_scheduler = Ok None s'"
    "ref_stream (OutConn 0) s' = ref_stream (OutConn 0) sample_scheduler
      @ wire_frame \<lparr>Uri = RayAssignTask, SeqId = nextID sample_scheduler + 1\<rparr> [7]"
    by (rule handleServerReq_live [OF transports_ok_table_env live rt]) blast
  have "nextID sample_scheduler + 1 = 3" by (simp add: sample_scheduler_def)
  with s'(2) have wire: "ref_stream (OutConn 0) s' = ref_stream (OutConn 0) sample_scheduler
      @ wire_frame \<lparr>Uri = RayAssignTask, SeqId = 3\<rparr> [7]" by simp
  show ?thesis
    by (rule assignment_crashes_worker [OF s'(1) _ rt _ wire buf_ops_ok])
      (simp_all add: sample_task_def sample_worker_def)
qed

section \<open>A fetch of a remote object, at the store\<close>

definition location_request :: "string \<Rightarrow> string \<Rightarrow> pb_msg" where
  "location_request obj u = MGetObjectLocationRequest
     \<lparr>GetObjectLocationRequest_ObjectId = obj, GetObjectLocationRequest_Uuid = u\<rparr>"

text \<open>
  What the store reads of a worker that has it as \<^verbatim>\<open>gcsConn\<close>, it reads on a connection that the store has
  dialled: in \<^verbatim>\<open>eventHandler.OnTraffic\<close>, through \<^verbatim>\<open>OnPacket\<close> of the dialling connection. \<open>refreshed\<close> is what
  this leaves of a packet at the connection itself.
\<close>

definition refreshed :: "int \<Rightarrow> nat \<Rightarrow> gcs \<Rightarrow> gcs" where
  "refreshed now a g = set_outb a g ((outb g a)\<lparr>lastRecv := now, nextDial := now + hour\<rparr>)"

lemma dialled_packet:
  assumes "dials a g" and "cl_established (outb g a)" and "Uri h \<noteq> MetaEstablishAck" "Uri h \<noteq> MetaShakeHand" "Uri h \<noteq> MetaShakeHandResp"
  shows "client_OnPacket now (gcs_HandlePacket E) a h m g =
    (case gcs_HandlePacket E (OutConn a) h m (refreshed now a g) of
       Panic p t \<Rightarrow> Ok (Some ErrHandlerPanic) t | r \<Rightarrow> r)"
  using assms by (auto simp: client_OnPacket_def client_receive_def dials_def refreshed_def Let_def)

text \<open>
  C31. A worker never gets a remote object. With a live connection to a store, \<^verbatim>\<open>getRemoteObject\<close> writes
  one frame and then has no data in any case: it waits for ever on a channel that nobody made, or
  reports the end of its context. The handler of the store panics on the packet of that frame, since
  it asserts the type of another message: arriving alone on the established connection that the store
  has dialled, over every transport, the frame makes the store close the connection, with its directory
  as it was and nothing written; the panic is recovered there.
\<close>

theorem remote_fetch_cut_off:
  assumes ok: "transports_ok E" and gcs: "gcsConn w = Some ref" and live: "ref_live ref w" and inv: "worker_inv w"
    and rt: "pb_roundtrips E (location_request obj u1) body" and len: "length body < 2 ^ 32 - 10"
    and conn: "gnet_conn_ok ops content" and dial: "dials a g" "cl_established (outb g a)"
  shows "\<exists>w'. getRemoteObject E p1 p2 obj u1 u2 w = (if worker_ctxDone w then Ok (Inl ErrContextDone) w' else Block w')
    \<and> gcs_HandlePacket E (OutConn a) \<lparr>Uri = RayGetObjectLocation, SeqId = nextID w + 1\<rparr> (location_request obj u1) g = Panic NilDeref g
    \<and> (\<forall>c. ref_stream ref w' = ref_stream ref w @ content c \<longrightarrow>
        (\<exists>c'. eventHandler_OnTraffic ops E (client_OnPacket now (gcs_HandlePacket E)) (CtxConn a) c g
          = Some (Ok ActClose (refreshed now a g), c')))"
proof -
  let ?h = "\<lparr>Uri = RayGetObjectLocation, SeqId = nextID w + 1\<rparr>" and ?m = "location_request obj u1"
  let ?w = "w\<lparr>nextID := nextID w + 1\<rparr>"
  have "pb_Marshal E ?m = Inr body" using rt by (simp add: pb_roundtrips_def)
  then obtain p where p: "EncodePayload E ?h ?m = Inr p" "MakeFrame p = wire_frame ?h body"
    using wire_frame_EncodePayload [of E ?m body ?h] by (simp add: EncodePayload_def)
  have "ref_live ref ?w" using live by (cases ref) simp_all
  then obtain w' where w': "ref_Send E ref p ?w = Ok None w'" "ref_stream ref w' = ref_stream ref ?w @ MakeFrame p"
    by (rule ref_Send_live [OF ok])
  have data: "worker_data w' = worker_data ?w" using worker_data_ops(1) [of E ref p ?w] w'(1) by simp
  have "getObjectLocationChan w' = (\<lambda>_. None)" "worker_ctxDone w' = worker_ctxDone w"
    using worker_dataD [OF data] inv by (simp_all add: worker_inv_def)
  then have fetch: "getRemoteObject E p1 p2 obj u1 u2 w = (if worker_ctxDone w then Ok (Inl ErrContextDone) w' else Block w')"
    using gcs p(1) w'(1) by (simp add: getRemoteObject_def location_request_def Let_def)
  have panics: "gcs_HandlePacket E (OutConn a) ?h ?m t = Panic NilDeref t" for t
    by (simp add: gcs_HandlePacket_def gcs_OnPacket_def location_request_def const_defs)
  have "\<exists>c'. eventHandler_OnTraffic ops E (client_OnPacket now (gcs_HandlePacket E)) (CtxConn a) c g
      = Some (Ok ActClose (refreshed now a g), c')"
    if "ref_stream ref w' = ref_stream ref w @ content c" for c
  proof -
    have "ref_stream ref ?w = ref_stream ref w" by (cases ref) simp_all
    then have bytes: "content c = wire_frame ?h body @ []" using w'(2) p(2) that by simp
    have "good_packet E (?h, ?m, body)"
      using rt len by (simp add: good_packet_def location_request_def uri_kind_def uri_table_def const_defs)
    note run = run_bytes_packet [OF this, of "client_OnPacket now (gcs_HandlePacket E) a" "[]" g]
    have "client_OnPacket now (gcs_HandlePacket E) a ?h ?m g = Ok (Some ErrHandlerPanic) (refreshed now a g)"
      using panics by (subst dialled_packet [OF dial]) (simp_all add: const_defs)
    then show ?thesis
      using traffic_loop_run_bytes [OF conn, of E "client_OnPacket now (gcs_HandlePacket E) a" c g]
      unfolding bytes run by (auto simp: eventHandler_OnTraffic_def)
  qed
  then show ?thesis using fetch panics by blast
qed

text \<open>A store that has dialled a worker which has answered.\<close>

definition dialled_gcs :: gcs where
  "dialled_gcs = (let g = snd (cm_AddConnection gcs_GetMode False ''w2:8'' (NewGCS [] [] []))
     in set_outb 0 g ((outb g 0)\<lparr>rawConn := Some 4, cl_established := True\<rparr>))"

lemma dialled_gcs_up: "dials 0 dialled_gcs" "cl_established (outb dialled_gcs 0)" "cl_endpoint (outb dialled_gcs 0) = ''w2:8''"
  by code_simp+

lemma remote_fetch_cut_off_witness:
  "\<exists>w'. getRemoteObject (table_env [(location_request ''p'' ''u'', [7])]) True True ''p'' ''u'' ''v'' sample_worker = Block w'
    \<and> (\<exists>c'. eventHandler_OnTraffic buf_ops (table_env [(location_request ''p'' ''u'', [7])])
          (client_OnPacket 5 (gcs_HandlePacket (table_env [(location_request ''p'' ''u'', [7])]))) (CtxConn 0)
          (ref_stream (InConn 1) w') dialled_gcs
        = Some (Ok ActClose (refreshed 5 0 dialled_gcs), c'))"
proof -
  let ?E = "table_env [(location_request ''p'' ''u'', [7])]"
  have w: "gcsConn sample_worker = Some (InConn 1)" "\<not> worker_ctxDone sample_worker" by (simp_all add: sample_worker_def)
  have rt: "pb_roundtrips ?E (location_request ''p'' ''u'') [7]" by (simp add: pb_roundtrips_def)
  have len: "length [7 :: byte] < 2 ^ 32 - 10" by simp
  from remote_fetch_cut_off [OF transports_ok_table_env w(1) sample_worker_live(2) sample_worker_inv rt len buf_ops_ok
      dialled_gcs_up(1,2), of True True "''v''" 5]
  show ?thesis using w(2) sample_worker_live(4) by auto
qed

section \<open>What assigned work computes\<close>

text \<open>\<open>assignments\<close> are the packets that \<open>assign_loop\<close> sends for a list of tasks.\<close>

definition only_zeros :: "worker \<Rightarrow> bool" where
  "only_zeros w \<longleftrightarrow> (\<forall>k object. GetObject k w = Some object \<longrightarrow> ObjData object = EncodeInt 0)"

definition assignments :: "(uint64 \<times> Task) list \<Rightarrow> (Header \<times> pb_msg) list" where
  "assignments ts = map (\<lambda>(seq, task). (\<lparr>Uri = RayAssignTask, SeqId = seq\<rparr>, MAssignTaskRequest (assign_request task))) ts"

lemma only_zeros_data: "worker_data t = worker_data w \<Longrightarrow> only_zeros t = only_zeros w"
  using worker_dataD(6) [of t w] by (simp add: only_zeros_def GetObject_def)

lemma one_assignment_zero:
  assumes "only_zeros w" and "Uri h = RayAssignTask"
  shows "only_zeros (res_state (worker_OnPacket E clock ref h (MAssignTaskRequest (assign_request task)) w))"
proof (cases "Args task")
  case Nil
  define t where "t = \<lparr>ID = ID task, FuncName = FuncName task, Args = [], ArgsType = [], Dependencies = []\<rparr>"
  have r: "worker_OnPacket E clock ref h (MAssignTaskRequest (assign_request task)) w
      = bind_res (dispatch_task clock t w) (\<lambda>err s2. answer_assign E ref (SeqId h) (ID t) err s2)"
    using Nil assms(2) by (simp add: worker_OnPacket_def onAssignTask_def assign_request_def t_def const_defs)
  have "only_zeros (res_state (dispatch_task clock t w))"
    using assms(1)
    by (auto simp: dispatch_task_def onAddTowInt_def AddTowIntFunc_def t_def SetObject_def only_zeros_def
        GetObject_def Let_def split: option.split if_splits)
  then show ?thesis
    using run_task_data [of w clock t E ref "SeqId h" "ID t"] assms(1) only_zeros_data unfolding r by blast
next
  case (Cons arg args)
  then have "resolve_args [] 0 (Args task) w = Panic IndexOutOfRange w" by simp
  then show ?thesis
    using assms by (simp add: worker_OnPacket_def onAssignTask_def assign_request_def const_defs)
qed

lemma assignments_zero:
  "only_zeros w \<Longrightarrow> only_zeros (res_state (deliver (worker_OnPacket E clock ref) (assignments ts) w))"
proof (induction ts arbitrary: w)
  case Nil
  then show ?case by (simp add: assignments_def)
next
  case (Cons p ts)
  obtain seq task where p: "p = (seq, task)" by (cases p)
  let ?h = "\<lparr>Uri = RayAssignTask, SeqId = seq\<rparr>"
  let ?r = "worker_OnPacket E clock ref ?h (MAssignTaskRequest (assign_request task)) w"
  have "only_zeros (res_state ?r)" by (rule one_assignment_zero [OF Cons.prems]) simp
  then show ?case
    using Cons.IH by (cases ?r) (simp_all add: assignments_def p)
qed

text \<open>
  The work that the scheduler hands out computes nothing but zero. A worker whose store holds only
  encodings of 0 (a fresh one holds none) keeps to that under every sequence of assignments that the
  scheduler can build, of any tasks, over every transport and whatever the clock and the answers do:
  a task with arguments panics the worker, and without arguments the one task function adds nothing.
\<close>

theorem scheduled_work_yields_zero:
  assumes "only_zeros w"
    and "list_all (good_packet E) pks" and "packet_msgs pks = assignments ts"
    and "content c = packet_bytes pks" and "gnet_conn_ok ops content"
  shows "\<exists>r c'. worker_OnTraffic ops E clock (CtxConn ref) c w = Some (r, c') \<and> only_zeros (res_state r)"
proof (cases "started w")
  case False
  then show ?thesis using assms(1) by (simp add: worker_OnTraffic_def cm_OnTraffic_def)
next
  case True
  have "\<not> frame_ready []" by (simp add: frame_ready_def)
  note d = run_bytes_packets [OF assms(2) this, of "worker_OnPacket E clock ref" w]
  show ?thesis
    using traffic_loop_run_bytes [OF assms(5), of E "worker_OnPacket E clock ref" c w] d True assms(3,4)
      assignments_zero [OF assms(1), of E clock ref ts]
    by (auto simp: worker_OnTraffic_def cm_OnTraffic_def)
qed

lemma scheduled_work_yields_zero_witness:
  "\<exists>r c'. worker_OnTraffic buf_ops (table_env [(MAssignTaskRequest (assign_request (sample_task\<lparr>Args := []\<rparr>)), [7])])
      (\<lambda>_. 0) (CtxConn (InConn 0)) (wire_frame \<lparr>Uri = RayAssignTask, SeqId = 3\<rparr> [7])
      (node_Start (the (NewWorker [] [] []))) = Some (r, c') \<and> only_zeros (res_state r)"
proof -
  let ?t = "sample_task\<lparr>Args := []\<rparr>" and ?h = "\<lparr>Uri = RayAssignTask, SeqId = 3\<rparr>"
  let ?m = "MAssignTaskRequest (assign_request ?t)"
  let ?pks = "[(?h, ?m, [7 :: byte])]"
  have "only_zeros (node_Start (the (NewWorker [] [] [])))"
    by (simp add: only_zeros_def GetObject_def node_Start_def NewWorker_def apply_options_def zero_options_def)
  moreover have "list_all (good_packet (table_env [(?m, [7])])) ?pks"
    by (simp add: good_packet_def uri_kind_def uri_table_def const_defs pb_roundtrips_def)
  moreover have "packet_msgs ?pks = assignments [(3, ?t)]"
    by (simp add: packet_msgs_def assignments_def)
  moreover have "wire_frame ?h [7] = packet_bytes ?pks" by (simp add: packet_bytes_def)
  ultimately show ?thesis by (rule scheduled_work_yields_zero [OF _ _ _ _ buf_ops_ok])
qed

section \<open>Reports: from the worker's store to the GCS directory\<close>

text \<open>A series of reports on the established connection that the store has dialled.\<close>

lemma dialled_reports_deliver:
  assumes "dials a g" and "cl_established (outb g a)"
  shows "\<exists>g'. deliver (client_OnPacket now (gcs_HandlePacket E) a) (map (\<lambda>(seq, obj). report_packet seq obj) rs) g = Ok ActNone g'
    \<and> objectLocationMap g' =
        (\<lambda>obj. if obj \<in> snd ` set rs then Some (cl_endpoint (outb g a)) else objectLocationMap g obj)"
  using assms
proof (induction rs arbitrary: g)
  case (Cons r rs)
  obtain seq obj where r: "r = (seq, obj)" by (cases r)
  let ?p = "report_packet seq obj"
  define g1 where "g1 = (refreshed now a g)\<lparr>objectLocationMap := (objectLocationMap g)(obj \<mapsto> cl_endpoint (outb g a))\<rparr>"
  have "client_OnPacket now (gcs_HandlePacket E) a (fst ?p) (snd ?p) g
      = (case gcs_HandlePacket E (OutConn a) (fst ?p) (snd ?p) (refreshed now a g) of
           Panic p t \<Rightarrow> Ok (Some ErrHandlerPanic) t | r \<Rightarrow> r)"
    by (rule dialled_packet [OF Cons.prems]) (simp_all add: report_packet_def const_defs)
  then have one: "client_OnPacket now (gcs_HandlePacket E) a (fst ?p) (snd ?p) g = Ok None g1"
    by (simp add: gcs_HandlePacket_def gcs_OnPacket_def gcs_onReportTaskResult_def report_packet_def g1_def
        refreshed_def set_outb_def const_defs)
  have same: "dials a g1" "cl_established (outb g1 a)" "cl_endpoint (outb g1 a) = cl_endpoint (outb g a)"
    using Cons.prems by (simp_all add: g1_def refreshed_def dials_def)
  have "objectLocationMap g1 = (objectLocationMap g)(obj \<mapsto> cl_endpoint (outb g a))"
    by (simp add: g1_def)
  with Cons.IH [OF same(1,2)] one same(3) show ?case
    by (auto simp: r deliver_Cons fun_eq_iff simp del: deliver.simps(2))
qed simp

text \<open>
  C20. Results become findable: when a worker whose connection to the store is live runs its report loop
  on the objects it has queued, the bytes it writes, arriving at the store on the established connection
  that the store has dialled, in any segmentation that the transport buffers, go through its \<^verbatim>\<open>OnPacket\<close>
  without an error and put every one of these objects into the directory under the address the store has
  dialled, and leave every other entry as it was.
\<close>

theorem reports_reach_gcs:
  assumes ok: "transports_ok E" and gcs: "gcsConn w = Some ref" and live: "ref_live ref w"
    and ids: "buf (registerObjectChan w) = ks" and run: "\<not> worker_ctxDone w"
    and rt: "\<forall>k \<in> set ks. pb_roundtrips E (report_msg k) (body k) \<and> length (body k) < 2 ^ 32 - 10"
    and conn: "gnet_conn_ok ops content" and dial: "dials a g" "cl_established (outb g a)"
  shows "\<exists>w'. Loop_rounds E pick (length ks) w = Ok True w' \<and> buf (registerObjectChan w') = []
    \<and> (\<forall>c. ref_stream ref w' = ref_stream ref w @ content c \<longrightarrow>
        (\<exists>g' c'. eventHandler_OnTraffic ops E (client_OnPacket now (gcs_HandlePacket E)) (CtxConn a) c g = Some (Ok ActNone g', c')
          \<and> objectLocationMap g' =
              (\<lambda>k. if k \<in> set ks then Some (cl_endpoint (outb g a)) else objectLocationMap g k)))"
proof -
  let ?pks = "map (\<lambda>i. (report_header (nextID w) i, report_msg (ks ! i), body (ks ! i))) [0..<length ks]"
  let ?rs = "map (\<lambda>i. (nextID w + 1 + word_of_nat i, ks ! i)) [0..<length ks]"
  let ?on = "client_OnPacket now (gcs_HandlePacket E) a"
  have "\<forall>k \<in> set ks. pb_roundtrips E (report_msg k) (body k)" using rt by blast
  from Loop_rounds_live [OF ok gcs live ids run this, of pick] obtain w' where
    w': "Loop_rounds E pick (length ks) w = Ok True w'" "buf (registerObjectChan w') = []"
      "ref_stream ref w' = ref_stream ref w @ packet_bytes ?pks" by blast
  have good: "list_all (good_packet E) ?pks"
    using rt by (auto simp: list_all_iff good_packet_def report_header_def report_msg_def uri_kind_def
        uri_table_def const_defs)
  have msgs: "packet_msgs ?pks = map (\<lambda>(seq, obj). report_packet seq obj) ?rs"
    by (simp add: packet_msgs_def report_packet_def report_header_def report_msg_def)
  have objs: "snd ` set ?rs = set ks"
    by (force simp: in_set_conv_nth)
  have "\<exists>g' c'. eventHandler_OnTraffic ops E (client_OnPacket now (gcs_HandlePacket E)) (CtxConn a) c g = Some (Ok ActNone g', c')
      \<and> objectLocationMap g' = (\<lambda>k. if k \<in> set ks then Some (cl_endpoint (outb g a)) else objectLocationMap g k)"
    if "ref_stream ref w' = ref_stream ref w @ content c" for c
  proof -
    have c: "content c = packet_bytes ?pks @ []" using that w'(3) by simp
    have "\<not> frame_ready []" by (simp add: frame_ready_def)
    note d = run_bytes_packets [OF good this, of ?on g]
    from dialled_reports_deliver [OF dial, of now E ?rs] obtain g' where
      "deliver ?on (packet_msgs ?pks) g = Ok ActNone g'"
      "objectLocationMap g' = (\<lambda>k. if k \<in> set ks then Some (cl_endpoint (outb g a)) else objectLocationMap g k)"
      unfolding objs msgs by blast
    then show ?thesis
      using traffic_loop_run_bytes [OF conn, of E ?on c g] d c by (auto simp: eventHandler_OnTraffic_def)
  qed
  then show ?thesis using w' by blast
qed

lemma reports_reach_gcs_witness:
  "\<exists>w'. Loop_rounds (table_env [(report_msg ''a'', [1])]) True 1
      (sample_worker\<lparr>registerObjectChan := \<lparr>cap = 1, buf = [''a''], parked = 0\<rparr>\<rparr>) = Ok True w'
    \<and> (\<exists>g' c'. eventHandler_OnTraffic buf_ops (table_env [(report_msg ''a'', [1])])
          (client_OnPacket 5 (gcs_HandlePacket (table_env [(report_msg ''a'', [1])]))) (CtxConn 0)
          (ref_stream (InConn 1) w') dialled_gcs = Some (Ok ActNone g', c')
        \<and> objectLocationMap g' ''a'' = Some ''w2:8'')"
proof -
  let ?E = "table_env [(report_msg ''a'', [1])]"
  let ?w = "sample_worker\<lparr>registerObjectChan := \<lparr>cap = 1, buf = [''a''], parked = 0\<rparr>\<rparr>"
  have w: "gcsConn ?w = Some (InConn 1)" "ref_live (InConn 1) ?w"
    "buf (registerObjectChan ?w) = [''a'']" "\<not> worker_ctxDone ?w"
    by (simp_all add: sample_worker_def newConnection_def)
  have rt: "\<forall>k \<in> set [''a'']. pb_roundtrips ?E (report_msg k) [1] \<and> length [1 :: byte] < 2 ^ 32 - 10"
    by (simp add: pb_roundtrips_def)
  have z: "ref_stream (InConn 1) ?w = []" by (simp add: sample_worker_def newConnection_def)
  from reports_reach_gcs [OF transports_ok_table_env w rt buf_ops_ok dialled_gcs_up(1,2), of True 5]
  obtain w' where w': "Loop_rounds ?E True 1 ?w = Ok True w'"
    "\<And>c. ref_stream (InConn 1) w' = ref_stream (InConn 1) ?w @ c \<Longrightarrow>
        \<exists>g' c'. eventHandler_OnTraffic buf_ops ?E (client_OnPacket 5 (gcs_HandlePacket ?E)) (CtxConn 0) c dialled_gcs = Some (Ok ActNone g', c')
          \<and> objectLocationMap g' =
              (\<lambda>k. if k \<in> set [''a''] then Some (cl_endpoint (outb dialled_gcs 0)) else objectLocationMap dialled_gcs k)"
    by (auto simp del: Loop_rounds.simps)
  from w'(2) [of "ref_stream (InConn 1) w'"] z dialled_gcs_up(3) w'(1) show ?thesis by fastforce
qed

end
